(* ===== verification/Prelude.thy ===== *)
theory Prelude
  imports Main "HOL-Library.Char_ord" "HOL-Library.List_Lexorder" "HOL-Library.Product_Lexorder"
    "HOL-Library.Sublist"
begin

text \<open>
  Shared vocabulary of the development: Go's byte strings and error values, the error-state
  actions in which the stateful code is written (\<open>bindE\<close>, \<open>forE\<close>), the row operations
  of the SQL tables, and the list facts that several components use.

  A Go \<^verbatim>\<open>string\<close> and a \<^verbatim>\<open>[]byte\<close> are both byte sequences, here \<open>char list\<close>; the order on
  them is the bytewise lexicographic one, which is Go's \<^verbatim>\<open><\<close> and SQLite's BINARY collation.
  A \<^verbatim>\<open>time.Time\<close> is its number of nanoseconds since the Unix epoch.
\<close>

section \<open>Types and errors\<close>

type_synonym bytes = "char list"
type_synonym time = int

datatype goerr =
    ErrNotFound
  | ErrConstraint
  | ErrDriver string
  | ErrMalformedChunked string
  | ErrEOF
  | ErrUnexpectedEOF
  | ErrCtx
  | ErrMsg string
  | ErrWrap string goerr

text \<open>The unwrapping of \<^verbatim>\<open>errors.Is\<close>: an error made with \<^verbatim>\<open>%w\<close> is its cause.\<close>

fun err_cause :: "goerr \<Rightarrow> goerr" where
  "err_cause (ErrWrap m e) = err_cause e"
| "err_cause e = e"

definition is_malformed :: "goerr \<Rightarrow> bool" where
  "is_malformed e \<longleftrightarrow> (case err_cause e of ErrMalformedChunked _ \<Rightarrow> True | _ \<Rightarrow> False)"

section \<open>Actions: state passing with errors\<close>

text \<open>
  An action takes the state and returns an error (\<open>Inl\<close>) or a value (\<open>Inr\<close>) with the new
  state. \<open>bindE\<close> is the \<^verbatim>\<open>if err != nil { return err }\<close> of the source, \<open>forE\<close> its loop over a
  slice with that check in the body.
\<close>

type_synonym ('s, 'a) act = "'s \<Rightarrow> (goerr + 'a) \<times> 's"

definition retE :: "'a \<Rightarrow> ('s, 'a) act" where
  "retE x s = (Inr x, s)"

definition bindE :: "('s, 'a) act \<Rightarrow> ('a \<Rightarrow> ('s, 'b) act) \<Rightarrow> ('s, 'b) act" where
  "bindE m f s = (case m s of (Inl e, s') \<Rightarrow> (Inl e, s') | (Inr x, s') \<Rightarrow> f x s')"

definition thenE :: "('s, 'a) act \<Rightarrow> ('s, 'b) act \<Rightarrow> ('s, 'b) act" where
  "thenE m n = bindE m (\<lambda>_. n)"

fun forE :: "('x \<Rightarrow> ('s, unit) act) \<Rightarrow> 'x list \<Rightarrow> ('s, unit) act" where
  "forE f [] = retE ()"
| "forE f (x # xs) = thenE (f x) (forE f xs)"

named_theorems act_simps

lemma retE_apply [simp, act_simps]: "retE x s = (Inr x, s)"
  by (simp add: retE_def)

lemma bindE_Inr [simp]: "m s = (Inr x, s') \<Longrightarrow> bindE m f s = f x s'"
  by (simp add: bindE_def)

lemma bindE_Inl [simp]: "m s = (Inl e, s') \<Longrightarrow> bindE m f s = (Inl e, s')"
  by (simp add: bindE_def)

lemma thenE_Inr [simp]: "m s = (Inr x, s') \<Longrightarrow> thenE m n s = n s'"
  by (simp add: thenE_def)

lemma thenE_Inl [simp]: "m s = (Inl e, s') \<Longrightarrow> thenE m n s = (Inl e, s')"
  by (simp add: thenE_def)

lemma bindE_InrE:
  assumes "bindE m f s = (Inr y, s'')"
  obtains x s' where "m s = (Inr x, s')" and "f x s' = (Inr y, s'')"
  using assms by (auto simp: bindE_def split: prod.splits sum.splits)

lemma thenE_InrE:
  assumes "thenE m n s = (Inr y, s'')"
  obtains x s' where "m s = (Inr x, s')" and "n s' = (Inr y, s'')"
  using assms by (auto simp: thenE_def elim: bindE_InrE)

text \<open>
  A property of the state that every action keeps, whatever it returns. The rules follow the
  structure of an action, so that an invariant of the tables is one step per statement.
\<close>

definition keeps :: "('s \<Rightarrow> bool) \<Rightarrow> ('s, 'a) act \<Rightarrow> bool" where
  "keeps P m \<longleftrightarrow> (\<forall>s. P s \<longrightarrow> P (snd (m s)))"

named_theorems keeps_intros

lemma keepsI: "(\<And>s. P s \<Longrightarrow> P (snd (m s))) \<Longrightarrow> keeps P m"
  by (simp add: keeps_def)

lemma keepsD: "keeps P m \<Longrightarrow> P s \<Longrightarrow> P (snd (m s))"
  by (simp add: keeps_def)

lemma keepsD': "keeps P m \<Longrightarrow> P s \<Longrightarrow> m s = (r, s') \<Longrightarrow> P s'"
  by (metis keepsD snd_conv)

lemma keeps_retE [keeps_intros]: "keeps P (retE x)"
  by (simp add: keeps_def)

lemma keeps_bindE [keeps_intros]:
  assumes "keeps P m" and "\<And>x. keeps P (f x)"
  shows "keeps P (bindE m f)"
proof (rule keepsI)
  fix s assume "P s"
  obtain r s' where m: "m s = (r, s')" by (cases "m s")
  from assms(1) \<open>P s\<close> m have "P s'" by (rule keepsD')
  with m assms(2) show "P (snd (bindE m f s))"
    by (cases r) (auto simp: bindE_def intro: keepsD)
qed

lemma keeps_thenE [keeps_intros]: "keeps P m \<Longrightarrow> keeps P n \<Longrightarrow> keeps P (thenE m n)"
  unfolding thenE_def by (rule keeps_bindE)

lemma keeps_forE [keeps_intros]: "(\<And>x. keeps P (f x)) \<Longrightarrow> keeps P (forE f xs)"
  by (induction xs) (auto intro: keeps_intros)

section \<open>Rows of a table\<close>

text \<open>
  A table is the list of its rows. \<open>insert_row\<close> is an \<^verbatim>\<open>INSERT\<close> under the primary key \<open>pk\<close>:
  \<open>None\<close> is the constraint violation. \<open>delete_rows\<close> is \<^verbatim>\<open>DELETE ... WHERE\<close>.
\<close>

definition insert_row :: "('r \<Rightarrow> 'k) \<Rightarrow> 'r \<Rightarrow> 'r list \<Rightarrow> 'r list option" where
  "insert_row pk r rows = (if pk r \<in> pk ` set rows then None else Some (rows @ [r]))"

definition delete_rows :: "('r \<Rightarrow> bool) \<Rightarrow> 'r list \<Rightarrow> 'r list" where
  "delete_rows P rows = filter (\<lambda>r. \<not> P r) rows"

definition update_rows :: "('r \<Rightarrow> bool) \<Rightarrow> ('r \<Rightarrow> 'r) \<Rightarrow> 'r list \<Rightarrow> 'r list" where
  "update_rows P f rows = map (\<lambda>r. if P r then f r else r) rows"

text \<open>Uniqueness of the primary key in a table.\<close>

definition uniq :: "('r \<Rightarrow> 'k) \<Rightarrow> 'r list \<Rightarrow> bool" where
  "uniq pk rows \<longleftrightarrow> distinct (map pk rows)"

named_theorems row_simps

lemma uniq_Nil [simp]: "uniq pk []"
  by (simp add: uniq_def)

lemma uniq_insert_row: "uniq pk rows \<Longrightarrow> insert_row pk r rows = Some rows' \<Longrightarrow> uniq pk rows'"
  by (auto simp: uniq_def insert_row_def split: if_splits)

lemma uniq_delete_rows [intro]: "uniq pk rows \<Longrightarrow> uniq pk (delete_rows P rows)"
  by (auto simp: uniq_def delete_rows_def distinct_map_filter)

lemma uniq_update_rows [intro]:
  assumes "\<And>r. pk (f r) = pk r" and "uniq pk rows"
  shows "uniq pk (update_rows P f rows)"
proof -
  have "map pk (update_rows P f rows) = map pk rows"
    using assms(1) by (simp add: update_rows_def)
  with assms(2) show ?thesis by (simp add: uniq_def)
qed

lemma uniq_snoc: "uniq pk (rows @ [r]) \<longleftrightarrow> uniq pk rows \<and> pk r \<notin> pk ` set rows"
  by (auto simp: uniq_def)

lemma set_update_rows: "set (update_rows P f rows) = (\<lambda>r. if P r then f r else r) ` set rows"
  by (simp add: update_rows_def)

lemma delete_rows_none: "(\<And>r. r \<in> set rows \<Longrightarrow> \<not> P r) \<Longrightarrow> delete_rows P rows = rows"
  by (simp add: delete_rows_def)

lemma set_delete_rows [simp]: "set (delete_rows P rows) = {r \<in> set rows. \<not> P r}"
  by (simp add: delete_rows_def)

lemma filter_delete_rows: "filter Q (delete_rows P rows) = filter (\<lambda>r. Q r \<and> \<not> P r) rows"
  by (simp add: delete_rows_def conj_commute)

lemma filter_delete_same [simp]: "filter P (delete_rows P rows) = []"
  by (simp add: filter_delete_rows)

lemma filter_delete_disjoint:
  "(\<And>r. Q r \<Longrightarrow> \<not> P r) \<Longrightarrow> filter Q (delete_rows P rows) = filter Q rows"
  unfolding filter_delete_rows by (rule filter_cong) auto

lemma uniq_the_row:
  assumes "uniq pk rows" and "r \<in> set rows" and "pk r = k"
  shows "filter (\<lambda>r. pk r = k) rows = [r]"
  using assms
proof (induction rows)
  case (Cons x xs)
  show ?case
  proof (cases "pk x = k")
    case True
    with Cons.prems have "filter (\<lambda>r. pk r = k) xs = []"
      by (auto simp: uniq_def filter_empty_conv) (metis image_eqI)
    moreover from True Cons.prems have "x = r"
      by (auto simp: uniq_def image_iff)
    ultimately show ?thesis using True by simp
  next
    case False
    with Cons show ?thesis by (auto simp: uniq_def)
  qed
qed simp

section \<open>Lists in order\<close>

text \<open>\<^verbatim>\<open>ORDER BY\<close> over rows that already come in key order changes nothing.\<close>

lemma sort_key_id: "sorted (map f xs) \<Longrightarrow> sort_key f xs = xs"
  by (metis sort_key_id_if_sorted sorted_map)

lemma sorted_wrt_less_distinct:
  "sorted_wrt (<) (xs :: 'a :: linorder list) \<longleftrightarrow> sorted xs \<and> distinct xs"
  by (auto simp: strict_sorted_iff)

text \<open>A half-open window of a byte sequence, with integer bounds as the code computes them.\<close>

definition window :: "int \<Rightarrow> int \<Rightarrow> 'a list \<Rightarrow> 'a list" where
  "window lo hi xs = take (nat (hi - lo)) (drop (nat lo) xs)"

lemma window_append:
  assumes "0 \<le> a" and "a \<le> b" and "b \<le> c"
  shows "window a b xs @ window b c xs = window a c xs"
proof -
  have "nat b = nat a + nat (b - a)" and "nat (c - a) = nat (b - a) + nat (c - b)"
    using assms by auto
  then show ?thesis
    by (simp add: window_def take_add drop_drop add.commute)
qed

lemma window_empty [simp]: "hi \<le> lo \<Longrightarrow> window lo hi xs = []"
  by (simp add: window_def)

lemma window_all [simp]: "int (length xs) \<le> hi \<Longrightarrow> window 0 hi xs = xs"
  by (simp add: window_def)

lemma length_window:
  "0 \<le> lo \<Longrightarrow> lo \<le> hi \<Longrightarrow> hi \<le> int (length xs) \<Longrightarrow> int (length (window lo hi xs)) = hi - lo"
  by (simp add: window_def)

end
