(* ===== verification/MetaStore.thy ===== *)
theory MetaStore
  imports Prelude
begin

text \<open>
  The metadata store, \<^verbatim>\<open>internal/metadata/store.go\<close>: the SQLite schema as a record of tables
  (lists of rows), every statement of the package as an action on the database, and every
  exported operation as the composition of its statements.

  A database carries, beside its tables, a schedule of driver faults: each statement consumes
  one entry, and \<open>Some e\<close> makes it fail with \<open>e\<close> and change nothing (a busy or unreadable
  file, a cancelled context). The empty schedule is a database that does not fail. So every
  \<^verbatim>\<open>if err != nil\<close> of the package is a branch of the model, and what a transaction leaves behind
  when it fails half way is a theorem. Constraint violations come from the tables themselves.

  A TEXT column that holds an RFC 3339 timestamp is represented by the time it denotes.
\<close>

section \<open>Data\<close>

record mreplica =
  mr_provider :: string
  mr_locator :: string
  mr_token :: string
  mr_alive :: bool

record mchunk =
  mc_seq :: int
  mc_size :: int
  mc_offset :: int
  mc_replicas :: "mreplica list"

record object =
  ob_bucket :: string
  ob_key :: string
  ob_size :: int
  ob_etag :: string
  ob_ctype :: string
  ob_created :: time
  ob_updated :: time
  ob_meta :: "(string \<times> string) list"

record mpu =
  mu_id :: string
  mu_bucket :: string
  mu_key :: string
  mu_ctype :: string
  mu_created :: time

record mpart =
  mp_num :: int
  mp_etag :: string
  mp_size :: int

text \<open>
  The rows of the ten tables of \<^verbatim>\<open>migrate\<close>, one record per table with its columns. The Go
  structs above are what the queries scan the rows into.
\<close>

record bucket_row =
  b_name :: string
  b_created :: time

record object_row =
  o_bucket :: string
  o_key :: string
  o_size :: int
  o_etag :: string
  o_ctype :: string
  o_created :: time
  o_updated :: time
  o_deleted :: "time option"

record chunk_row =
  c_bucket :: string
  c_key :: string
  c_seq :: int
  c_size :: int
  c_offset :: int

record replica_row =
  r_bucket :: string
  r_key :: string
  r_seq :: int
  r_idx :: int
  r_provider :: string
  r_locator :: string
  r_token :: string
  r_alive :: int

record upload_row =
  u_id :: string
  u_bucket :: string
  u_key :: string
  u_ctype :: string
  u_created :: time

record part_row =
  p_upload :: string
  p_num :: int
  p_etag :: string
  p_size :: int

record pchunk_row =
  pc_upload :: string
  pc_part :: int
  pc_seq :: int
  pc_size :: int

record preplica_row =
  pr_upload :: string
  pr_part :: int
  pr_seq :: int
  pr_idx :: int
  pr_provider :: string
  pr_locator :: string
  pr_token :: string

record ometa_row =
  om_bucket :: string
  om_key :: string
  om_name :: string
  om_value :: string

record umeta_row =
  um_upload :: string
  um_name :: string
  um_value :: string

record tables =
  t_buckets :: "bucket_row list"
  t_objects :: "object_row list"
  t_chunks :: "chunk_row list"
  t_replicas :: "replica_row list"
  t_uploads :: "upload_row list"
  t_parts :: "part_row list"
  t_pchunks :: "pchunk_row list"
  t_preplicas :: "preplica_row list"
  t_ometa :: "ometa_row list"
  t_umeta :: "umeta_row list"

record db =
  tabs :: tables
  faults :: "goerr option list"

text \<open>The primary keys of the schema.\<close>

definition pk_object :: "object_row \<Rightarrow> string \<times> string" where
  "pk_object r = (o_bucket r, o_key r)"

definition pk_chunk :: "chunk_row \<Rightarrow> string \<times> string \<times> int" where
  "pk_chunk r = (c_bucket r, c_key r, c_seq r)"

definition pk_replica :: "replica_row \<Rightarrow> string \<times> string \<times> int \<times> int" where
  "pk_replica r = (r_bucket r, r_key r, r_seq r, r_idx r)"

definition pk_part :: "part_row \<Rightarrow> string \<times> int" where
  "pk_part r = (p_upload r, p_num r)"

definition pk_pchunk :: "pchunk_row \<Rightarrow> string \<times> int \<times> int" where
  "pk_pchunk r = (pc_upload r, pc_part r, pc_seq r)"

definition pk_preplica :: "preplica_row \<Rightarrow> string \<times> int \<times> int \<times> int" where
  "pk_preplica r = (pr_upload r, pr_part r, pr_seq r, pr_idx r)"

definition pk_ometa :: "ometa_row \<Rightarrow> string \<times> string \<times> string" where
  "pk_ometa r = (om_bucket r, om_key r, om_name r)"

definition pk_umeta :: "umeta_row \<Rightarrow> string \<times> string" where
  "pk_umeta r = (um_upload r, um_name r)"

lemmas pk_defs = pk_object_def pk_chunk_def pk_replica_def pk_part_def pk_pchunk_def
  pk_preplica_def pk_ometa_def pk_umeta_def

text \<open>The freshly migrated database.\<close>

definition migrate :: tables where
  "migrate = \<lparr>t_buckets = [], t_objects = [], t_chunks = [], t_replicas = [], t_uploads = [],
     t_parts = [], t_pchunks = [], t_preplicas = [], t_ometa = [], t_umeta = []\<rparr>"

section \<open>Statements and transactions\<close>

definition stmt :: "(tables \<Rightarrow> goerr + 'a \<times> tables) \<Rightarrow> (db, 'a) act" where
  "stmt f d =
     (case faults d of
        Some e # fs \<Rightarrow> (Inl e, d\<lparr>faults := fs\<rparr>)
      | _ \<Rightarrow>
          (case f (tabs d) of
             Inl e \<Rightarrow> (Inl e, d\<lparr>faults := tl (faults d)\<rparr>)
           | Inr (x, t) \<Rightarrow> (Inr x, d\<lparr>tabs := t, faults := tl (faults d)\<rparr>)))"

definition query :: "(tables \<Rightarrow> 'a) \<Rightarrow> (db, 'a) act" where
  "query f = stmt (\<lambda>t. Inr (f t, t))"

definition exec :: "(tables \<Rightarrow> tables) \<Rightarrow> (db, unit) act" where
  "exec f = stmt (\<lambda>t. Inr ((), f t))"

text \<open>
  \<^verbatim>\<open>BeginTx\<close>, the body, and \<^verbatim>\<open>tx.Commit\<close> with the deferred \<^verbatim>\<open>tx.Rollback\<close>: the body returns
  \<open>True\<close> when it reaches the commit and \<open>False\<close> when it returns nil before it. Any error,
  the commit's own included, restores the tables of the transaction's start.
\<close>

definition tx :: "(db, bool) act \<Rightarrow> (db, unit) act" where
  "tx body d =
     (case exec id d of
        (Inl e, d1) \<Rightarrow> (Inl e, d1)
      | (Inr _, d1) \<Rightarrow>
          (case body d1 of
             (Inl e, d2) \<Rightarrow> (Inl e, d2\<lparr>tabs := tabs d1\<rparr>)
           | (Inr False, d2) \<Rightarrow> (Inr (), d2\<lparr>tabs := tabs d1\<rparr>)
           | (Inr True, d2) \<Rightarrow>
               (case exec id d2 of
                  (Inl e, d3) \<Rightarrow> (Inl e, d3\<lparr>tabs := tabs d1\<rparr>)
                | (Inr _, d3) \<Rightarrow> (Inr (), d3))))"

definition zero_time :: time where
  "zero_time = - 62135596800 * 1000000000"

section \<open>Buckets\<close>

definition insert_bucket :: "bucket_row \<Rightarrow> (db, unit) act" where
  "insert_bucket r = stmt (\<lambda>t.
     case insert_row b_name r (t_buckets t) of
       None \<Rightarrow> Inl ErrConstraint
     | Some rows \<Rightarrow> Inr ((), t\<lparr>t_buckets := rows\<rparr>))"

definition CreateBucket :: "time \<Rightarrow> string \<Rightarrow> (db, unit) act" where
  "CreateBucket now name = insert_bucket \<lparr>b_name = name, b_created = now\<rparr>"

text \<open>
  \<^verbatim>\<open>DELETE FROM buckets\<close>; the foreign key of \<^verbatim>\<open>objects\<close> is \<^verbatim>\<open>ON DELETE CASCADE\<close> and the connection
  sets \<^verbatim>\<open>foreign_keys(ON)\<close>. No rows affected is \<^verbatim>\<open>ErrNotFound\<close>.
\<close>

definition DeleteBucket :: "string \<Rightarrow> (db, unit) act" where
  "DeleteBucket name =
     bindE
       (stmt (\<lambda>t. Inr (length (filter (\<lambda>r. b_name r = name) (t_buckets t)),
          t\<lparr>t_buckets := delete_rows (\<lambda>r. b_name r = name) (t_buckets t),
            t_objects := delete_rows
              (\<lambda>r. o_bucket r \<in> b_name ` set (filter (\<lambda>b. b_name b = name) (t_buckets t)))
              (t_objects t)\<rparr>)))
       (\<lambda>n d. if n = 0 then (Inl ErrNotFound, d) else (Inr (), d))"

definition BucketExists :: "string \<Rightarrow> (db, bool) act" where
  "BucketExists name = query (\<lambda>t. name \<in> b_name ` set (t_buckets t))"

definition ListBuckets :: "(db, bucket_row list) act" where
  "ListBuckets = query (\<lambda>t. sort_key b_name (t_buckets t))"

section \<open>Objects\<close>

definition upsertObjectRowTx :: "object \<Rightarrow> (db, unit) act" where
  "upsertObjectRowTx obj = stmt (\<lambda>t.
     let here = (\<lambda>r. o_bucket r = ob_bucket obj \<and> o_key r = ob_key obj) in
     if \<exists>r \<in> set (t_objects t). here r then
       Inr ((), t\<lparr>t_objects := update_rows here (\<lambda>r. r\<lparr>o_size := ob_size obj, o_etag := ob_etag obj,
         o_ctype := ob_ctype obj, o_updated := ob_updated obj, o_deleted := None\<rparr>) (t_objects t)\<rparr>)
     else if ob_bucket obj \<in> b_name ` set (t_buckets t) then
       Inr ((), t\<lparr>t_objects := t_objects t @ [\<lparr>o_bucket = ob_bucket obj, o_key = ob_key obj,
         o_size = ob_size obj, o_etag = ob_etag obj, o_ctype = ob_ctype obj,
         o_created = ob_created obj, o_updated = ob_updated obj, o_deleted = None\<rparr>]\<rparr>)
     else Inl ErrConstraint)"

definition insert_chunk :: "chunk_row \<Rightarrow> (db, unit) act" where
  "insert_chunk r = stmt (\<lambda>t.
     case insert_row pk_chunk r (t_chunks t) of
       None \<Rightarrow> Inl ErrConstraint
     | Some rows \<Rightarrow> Inr ((), t\<lparr>t_chunks := rows\<rparr>))"

definition insert_replica :: "replica_row \<Rightarrow> (db, unit) act" where
  "insert_replica r = stmt (\<lambda>t.
     case insert_row pk_replica r (t_replicas t) of
       None \<Rightarrow> Inl ErrConstraint
     | Some rows \<Rightarrow> Inr ((), t\<lparr>t_replicas := rows\<rparr>))"

definition replica_row_of :: "string \<Rightarrow> string \<Rightarrow> int \<Rightarrow> int \<Rightarrow> mreplica \<Rightarrow> replica_row" where
  "replica_row_of b k seq i r = \<lparr>r_bucket = b, r_key = k, r_seq = seq, r_idx = i,
     r_provider = mr_provider r, r_locator = mr_locator r, r_token = mr_token r,
     r_alive = (if \<not> mr_alive r then 0 else 1)\<rparr>"

definition insert_replicas :: "string \<Rightarrow> string \<Rightarrow> int \<Rightarrow> mreplica list \<Rightarrow> (db, unit) act" where
  "insert_replicas b k seq reps =
     forE (\<lambda>(i, r). insert_replica (replica_row_of b k seq (int i) r)) (enumerate 0 reps)"

definition delete_replicas :: "(replica_row \<Rightarrow> bool) \<Rightarrow> (db, unit) act" where
  "delete_replicas P = exec (\<lambda>t. t\<lparr>t_replicas := delete_rows P (t_replicas t)\<rparr>)"

definition delete_chunks :: "(chunk_row \<Rightarrow> bool) \<Rightarrow> (db, unit) act" where
  "delete_chunks P = exec (\<lambda>t. t\<lparr>t_chunks := delete_rows P (t_chunks t)\<rparr>)"

definition replaceObjectChunksTx :: "string \<Rightarrow> string \<Rightarrow> mchunk list \<Rightarrow> (db, unit) act" where
  "replaceObjectChunksTx b k chunks =
     thenE (delete_replicas (\<lambda>r. r_bucket r = b \<and> r_key r = k))
     (thenE (delete_chunks (\<lambda>r. c_bucket r = b \<and> c_key r = k))
     (forE (\<lambda>c. thenE
         (insert_chunk \<lparr>c_bucket = b, c_key = k, c_seq = mc_seq c, c_size = mc_size c,
            c_offset = mc_offset c\<rparr>)
         (insert_replicas b k (mc_seq c) (mc_replicas c)))
       chunks))"

definition insert_ometa :: "ometa_row \<Rightarrow> (db, unit) act" where
  "insert_ometa r = stmt (\<lambda>t.
     case insert_row pk_ometa r (t_ometa t) of
       None \<Rightarrow> Inl ErrConstraint
     | Some rows \<Rightarrow> Inr ((), t\<lparr>t_ometa := rows\<rparr>))"

definition delete_ometa :: "string \<Rightarrow> string \<Rightarrow> (db, unit) act" where
  "delete_ometa b k =
     exec (\<lambda>t. t\<lparr>t_ometa := delete_rows (\<lambda>r. om_bucket r = b \<and> om_key r = k) (t_ometa t)\<rparr>)"

text \<open>
  A Go map is the association list of its entries; the list's order is the iteration order
  that \<^verbatim>\<open>range\<close> happens to take, and the keys are distinct.
\<close>

definition replaceObjectMetadataTx ::
  "string \<Rightarrow> string \<Rightarrow> (string \<times> string) list \<Rightarrow> (db, unit) act" where
  "replaceObjectMetadataTx b k kv =
     thenE (delete_ometa b k)
       (forE (\<lambda>(n, v). insert_ometa \<lparr>om_bucket = b, om_key = k, om_name = n, om_value = v\<rparr>) kv)"

definition stamp :: "time \<Rightarrow> object \<Rightarrow> object" where
  "stamp now obj =
     (let obj = (if ob_created obj = zero_time then obj\<lparr>ob_created := now\<rparr> else obj)
      in obj\<lparr>ob_updated := now\<rparr>)"

definition PutObject :: "time \<Rightarrow> object \<Rightarrow> mchunk list \<Rightarrow> (db, unit) act" where
  "PutObject now obj0 chunks =
     (let obj = stamp now obj0 in
      tx (thenE (upsertObjectRowTx obj)
         (thenE (replaceObjectChunksTx (ob_bucket obj) (ob_key obj) chunks)
         (thenE (replaceObjectMetadataTx (ob_bucket obj) (ob_key obj) (ob_meta obj))
         (retE True)))))"

definition GetObjectMetadata :: "string \<Rightarrow> string \<Rightarrow> (db, (string \<times> string) list) act" where
  "GetObjectMetadata b k = query (\<lambda>t.
     map (\<lambda>r. (om_name r, om_value r)) (filter (\<lambda>r. om_bucket r = b \<and> om_key r = k) (t_ometa t)))"

definition object_of_row :: "object_row \<Rightarrow> object" where
  "object_of_row r = \<lparr>ob_bucket = o_bucket r, ob_key = o_key r, ob_size = o_size r,
     ob_etag = o_etag r, ob_ctype = o_ctype r, ob_created = o_created r, ob_updated = o_updated r,
     ob_meta = []\<rparr>"

definition GetObject :: "string \<Rightarrow> string \<Rightarrow> (db, object) act" where
  "GetObject b k =
     bindE
       (query (\<lambda>t. filter (\<lambda>r. o_bucket r = b \<and> o_key r = k \<and> o_deleted r = None) (t_objects t)))
       (\<lambda>rows d. case rows of [] \<Rightarrow> (Inl ErrNotFound, d) | r # _ \<Rightarrow> (Inr (object_of_row r), d))"

text \<open>
  The scan shared by \<^verbatim>\<open>GetObjectChunks\<close>, \<^verbatim>\<open>GetMultipartPartChunks\<close> and \<^verbatim>\<open>AllMultipartChunks\<close>: a
  first loop appends one chunk per row and records its index under the row's key, a second
  loop appends each replica row to the chunk its key names.
\<close>

fun scan_rows :: "('r \<Rightarrow> 'k) \<Rightarrow> ('r \<Rightarrow> mchunk) \<Rightarrow> 'r list \<Rightarrow> mchunk list \<Rightarrow> ('k \<rightharpoonup> nat) \<Rightarrow>
    mchunk list \<times> ('k \<rightharpoonup> nat)" where
  "scan_rows key mk [] chunks idx = (chunks, idx)"
| "scan_rows key mk (r # rs) chunks idx =
     scan_rows key mk rs (chunks @ [mk r]) (idx(key r \<mapsto> length chunks))"

fun attach_rows :: "('q \<Rightarrow> 'k) \<Rightarrow> ('q \<Rightarrow> mreplica) \<Rightarrow> 'q list \<Rightarrow> ('k \<rightharpoonup> nat) \<Rightarrow>
    mchunk list \<Rightarrow> mchunk list" where
  "attach_rows key mk [] idx chunks = chunks"
| "attach_rows key mk (q # qs) idx chunks =
     attach_rows key mk qs idx
       (case idx (key q) of
          None \<Rightarrow> chunks
        | Some i \<Rightarrow>
            chunks[i := (chunks ! i)\<lparr>mc_replicas := mc_replicas (chunks ! i) @ [mk q]\<rparr>])"

definition chunk_of_row :: "chunk_row \<Rightarrow> mchunk" where
  "chunk_of_row r =
     \<lparr>mc_seq = c_seq r, mc_size = c_size r, mc_offset = c_offset r, mc_replicas = []\<rparr>"

definition replica_of_row :: "replica_row \<Rightarrow> mreplica" where
  "replica_of_row r = \<lparr>mr_provider = r_provider r, mr_locator = r_locator r,
     mr_token = r_token r, mr_alive = (r_alive r \<noteq> 0)\<rparr>"

definition GetObjectChunks :: "string \<Rightarrow> string \<Rightarrow> (db, mchunk list) act" where
  "GetObjectChunks b k =
     bindE (query (\<lambda>t. sort_key c_seq (filter (\<lambda>r. c_bucket r = b \<and> c_key r = k) (t_chunks t))))
     (\<lambda>rows.
       let (chunks, idxBySeq) = scan_rows c_seq chunk_of_row rows [] Map.empty in
       if chunks = [] then retE []
       else bindE
         (query (\<lambda>t. sort_key (\<lambda>r. (r_seq r, r_idx r))
            (filter (\<lambda>r. r_bucket r = b \<and> r_key r = k) (t_replicas t))))
         (\<lambda>rrows. retE (attach_rows r_seq replica_of_row rrows idxBySeq chunks)))"

definition delete_objects :: "(object_row \<Rightarrow> bool) \<Rightarrow> (db, unit) act" where
  "delete_objects P = exec (\<lambda>t. t\<lparr>t_objects := delete_rows P (t_objects t)\<rparr>)"

definition DeleteObject :: "string \<Rightarrow> string \<Rightarrow> (db, unit) act" where
  "DeleteObject b k =
     tx (thenE (delete_replicas (\<lambda>r. r_bucket r = b \<and> r_key r = k))
        (thenE (delete_chunks (\<lambda>r. c_bucket r = b \<and> c_key r = k))
        (thenE (delete_ometa b k)
        (thenE (delete_objects (\<lambda>r. o_bucket r = b \<and> o_key r = k))
        (retE True)))))"

definition MarkReplicaDead :: "string \<Rightarrow> string \<Rightarrow> int \<Rightarrow> int \<Rightarrow> (db, unit) act" where
  "MarkReplicaDead b k seq i = exec (\<lambda>t. t\<lparr>t_replicas :=
     update_rows (\<lambda>r. r_bucket r = b \<and> r_key r = k \<and> r_seq r = seq \<and> r_idx r = i)
       (\<lambda>r. r\<lparr>r_alive := 0\<rparr>) (t_replicas t)\<rparr>)"

definition AllObjectKeys :: "(db, (string \<times> string) list) act" where
  "AllObjectKeys = query (\<lambda>t. map pk_object (sort_key pk_object
     (filter (\<lambda>r. o_deleted r = None) (t_objects t))))"

definition UpdateChunkReplicas :: "string \<Rightarrow> string \<Rightarrow> int \<Rightarrow> mreplica list \<Rightarrow> (db, unit) act" where
  "UpdateChunkReplicas b k seq reps =
     tx (thenE (delete_replicas (\<lambda>r. r_bucket r = b \<and> r_key r = k \<and> r_seq r = seq))
        (thenE (insert_replicas b k seq reps)
        (retE True)))"

text \<open>\<^verbatim>\<open>COALESCE(MAX(replica_idx)+1, 0)\<close>\<close>

definition next_replica_idx :: "string \<Rightarrow> string \<Rightarrow> int \<Rightarrow> tables \<Rightarrow> int" where
  "next_replica_idx b k seq t =
     (let is = map r_idx (filter (\<lambda>r. r_bucket r = b \<and> r_key r = k \<and> r_seq r = seq) (t_replicas t))
      in if is = [] then 0 else fold max (tl is) (hd is) + 1)"

definition AppendChunkReplica ::
  "string \<Rightarrow> string \<Rightarrow> int \<Rightarrow> mreplica \<Rightarrow> string \<Rightarrow> (db, unit) act" where
  "AppendChunkReplica b k seq r expectETag =
     tx (bindE (query (\<lambda>t. map o_etag (filter (\<lambda>o'. o_bucket o' = b \<and> o_key o' = k) (t_objects t))))
       (\<lambda>etags. case etags of
          [] \<Rightarrow> retE False
        | etag # _ \<Rightarrow>
            if etag \<noteq> expectETag then retE False
            else bindE
              (query (\<lambda>t. length (filter (\<lambda>q. r_bucket q = b \<and> r_key q = k \<and> r_seq q = seq \<and>
                 r_provider q = mr_provider r) (t_replicas t))))
              (\<lambda>dup.
                 if dup > 0 then retE False
                 else bindE (query (next_replica_idx b k seq))
                   (\<lambda>nextIdx. thenE (insert_replica (replica_row_of b k seq nextIdx r))
                      (retE True)))))"

section \<open>Multipart uploads\<close>

definition insert_upload :: "upload_row \<Rightarrow> (db, unit) act" where
  "insert_upload r = stmt (\<lambda>t.
     case insert_row u_id r (t_uploads t) of
       None \<Rightarrow> Inl ErrConstraint
     | Some rows \<Rightarrow> Inr ((), t\<lparr>t_uploads := rows\<rparr>))"

definition CreateMultipartUpload ::
  "time \<Rightarrow> string \<Rightarrow> string \<Rightarrow> string \<Rightarrow> string \<Rightarrow> (db, unit) act" where
  "CreateMultipartUpload now uploadID b k ctype =
     insert_upload \<lparr>u_id = uploadID, u_bucket = b, u_key = k, u_ctype = ctype, u_created = now\<rparr>"

definition upload_of_row :: "upload_row \<Rightarrow> mpu" where
  "upload_of_row r = \<lparr>mu_id = u_id r, mu_bucket = u_bucket r, mu_key = u_key r,
     mu_ctype = u_ctype r, mu_created = u_created r\<rparr>"

definition GetMultipartUpload :: "string \<Rightarrow> (db, mpu) act" where
  "GetMultipartUpload uploadID =
     bindE (query (\<lambda>t. filter (\<lambda>r. u_id r = uploadID) (t_uploads t)))
       (\<lambda>rows d. case rows of [] \<Rightarrow> (Inl ErrNotFound, d) | r # _ \<Rightarrow> (Inr (upload_of_row r), d))"

definition ListMultipartUploads :: "string \<Rightarrow> (db, mpu list) act" where
  "ListMultipartUploads b = query (\<lambda>t. map upload_of_row
     (sort_key (\<lambda>r. (u_key r, u_id r)) (filter (\<lambda>r. u_bucket r = b) (t_uploads t))))"

definition SetMultipartCreatedAt :: "string \<Rightarrow> time \<Rightarrow> (db, unit) act" where
  "SetMultipartCreatedAt uploadID tm = exec (\<lambda>t. t\<lparr>t_uploads :=
     update_rows (\<lambda>r. u_id r = uploadID) (\<lambda>r. r\<lparr>u_created := tm\<rparr>) (t_uploads t)\<rparr>)"

definition pchunk_of_row :: "pchunk_row \<Rightarrow> mchunk" where
  "pchunk_of_row r = \<lparr>mc_seq = pc_seq r, mc_size = pc_size r, mc_offset = 0, mc_replicas = []\<rparr>"

definition preplica_of_row :: "preplica_row \<Rightarrow> mreplica" where
  "preplica_of_row r = \<lparr>mr_provider = pr_provider r, mr_locator = pr_locator r,
     mr_token = pr_token r, mr_alive = True\<rparr>"

definition GetMultipartPartChunks :: "string \<Rightarrow> int \<Rightarrow> (db, mchunk list) act" where
  "GetMultipartPartChunks uploadID n =
     bindE (query (\<lambda>t. sort_key pc_seq
        (filter (\<lambda>r. pc_upload r = uploadID \<and> pc_part r = n) (t_pchunks t))))
     (\<lambda>rows.
       let (chunks, idxBySeq) = scan_rows pc_seq pchunk_of_row rows [] Map.empty in
       if chunks = [] then retE []
       else bindE
         (query (\<lambda>t. sort_key (\<lambda>r. (pr_seq r, pr_idx r))
            (filter (\<lambda>r. pr_upload r = uploadID \<and> pr_part r = n) (t_preplicas t))))
         (\<lambda>rrows. retE (attach_rows pr_seq preplica_of_row rrows idxBySeq chunks)))"

definition upsert_part :: "part_row \<Rightarrow> (db, unit) act" where
  "upsert_part p = exec (\<lambda>t.
     let here = (\<lambda>r. p_upload r = p_upload p \<and> p_num r = p_num p) in
     if \<exists>r \<in> set (t_parts t). here r then
       t\<lparr>t_parts := update_rows here (\<lambda>r. r\<lparr>p_etag := p_etag p, p_size := p_size p\<rparr>) (t_parts t)\<rparr>
     else t\<lparr>t_parts := t_parts t @ [p]\<rparr>)"

definition insert_pchunk :: "pchunk_row \<Rightarrow> (db, unit) act" where
  "insert_pchunk r = stmt (\<lambda>t.
     case insert_row pk_pchunk r (t_pchunks t) of
       None \<Rightarrow> Inl ErrConstraint
     | Some rows \<Rightarrow> Inr ((), t\<lparr>t_pchunks := rows\<rparr>))"

definition insert_preplica :: "preplica_row \<Rightarrow> (db, unit) act" where
  "insert_preplica r = stmt (\<lambda>t.
     case insert_row pk_preplica r (t_preplicas t) of
       None \<Rightarrow> Inl ErrConstraint
     | Some rows \<Rightarrow> Inr ((), t\<lparr>t_preplicas := rows\<rparr>))"

definition preplica_row_of :: "string \<Rightarrow> int \<Rightarrow> int \<Rightarrow> int \<Rightarrow> mreplica \<Rightarrow> preplica_row" where
  "preplica_row_of uploadID n seq i r = \<lparr>pr_upload = uploadID, pr_part = n, pr_seq = seq,
     pr_idx = i, pr_provider = mr_provider r, pr_locator = mr_locator r, pr_token = mr_token r\<rparr>"

definition delete_pchunks :: "(pchunk_row \<Rightarrow> bool) \<Rightarrow> (db, unit) act" where
  "delete_pchunks P = exec (\<lambda>t. t\<lparr>t_pchunks := delete_rows P (t_pchunks t)\<rparr>)"

definition delete_preplicas :: "(preplica_row \<Rightarrow> bool) \<Rightarrow> (db, unit) act" where
  "delete_preplicas P = exec (\<lambda>t. t\<lparr>t_preplicas := delete_rows P (t_preplicas t)\<rparr>)"

definition PutMultipartPart ::
  "string \<Rightarrow> int \<Rightarrow> string \<Rightarrow> int \<Rightarrow> mchunk list \<Rightarrow> (db, unit) act" where
  "PutMultipartPart uploadID n etag sz chunks =
     tx (thenE (upsert_part \<lparr>p_upload = uploadID, p_num = n, p_etag = etag, p_size = sz\<rparr>)
        (thenE (delete_preplicas (\<lambda>r. pr_upload r = uploadID \<and> pr_part r = n))
        (thenE (delete_pchunks (\<lambda>r. pc_upload r = uploadID \<and> pc_part r = n))
        (thenE (forE (\<lambda>c. thenE
             (insert_pchunk \<lparr>pc_upload = uploadID, pc_part = n, pc_seq = mc_seq c,
                pc_size = mc_size c\<rparr>)
             (forE (\<lambda>(i, r). insert_preplica (preplica_row_of uploadID n (mc_seq c) (int i) r))
                (enumerate 0 (mc_replicas c))))
           chunks)
        (retE True)))))"

definition part_of_row :: "part_row \<Rightarrow> mpart" where
  "part_of_row r = \<lparr>mp_num = p_num r, mp_etag = p_etag r, mp_size = p_size r\<rparr>"

definition ListMultipartParts :: "string \<Rightarrow> (db, mpart list) act" where
  "ListMultipartParts uploadID = query (\<lambda>t. map part_of_row
     (sort_key p_num (filter (\<lambda>r. p_upload r = uploadID) (t_parts t))))"

definition AllMultipartChunks :: "string \<Rightarrow> (db, mchunk list) act" where
  "AllMultipartChunks uploadID =
     bindE (query (\<lambda>t. sort_key (\<lambda>r. (pc_part r, pc_seq r))
        (filter (\<lambda>r. pc_upload r = uploadID) (t_pchunks t))))
     (\<lambda>rows.
       let (chunks, idxByPK) = scan_rows (\<lambda>r. (pc_part r, pc_seq r)) pchunk_of_row rows [] Map.empty
       in if chunks = [] then retE []
          else bindE
            (query (\<lambda>t. sort_key (\<lambda>r. (pr_part r, pr_seq r, pr_idx r))
               (filter (\<lambda>r. pr_upload r = uploadID) (t_preplicas t))))
            (\<lambda>rrows. retE (attach_rows (\<lambda>r. (pr_part r, pr_seq r)) preplica_of_row rrows idxByPK chunks)))"

definition deleteMultipartTx :: "string \<Rightarrow> (db, unit) act" where
  "deleteMultipartTx uploadID =
     thenE (delete_preplicas (\<lambda>r. pr_upload r = uploadID))
     (thenE (delete_pchunks (\<lambda>r. pc_upload r = uploadID))
     (thenE (exec (\<lambda>t. t\<lparr>t_parts := delete_rows (\<lambda>r. p_upload r = uploadID) (t_parts t)\<rparr>))
     (thenE (exec (\<lambda>t. t\<lparr>t_umeta := delete_rows (\<lambda>r. um_upload r = uploadID) (t_umeta t)\<rparr>))
     (exec (\<lambda>t. t\<lparr>t_uploads := delete_rows (\<lambda>r. u_id r = uploadID) (t_uploads t)\<rparr>)))))"

definition FinalizeMultipartUpload ::
  "time \<Rightarrow> object \<Rightarrow> mchunk list \<Rightarrow> string \<Rightarrow> (db, unit) act" where
  "FinalizeMultipartUpload now obj0 chunks uploadID =
     (let obj = stamp now obj0 in
      tx (thenE (upsertObjectRowTx obj)
         (thenE (replaceObjectChunksTx (ob_bucket obj) (ob_key obj) chunks)
         (thenE (replaceObjectMetadataTx (ob_bucket obj) (ob_key obj) (ob_meta obj))
         (thenE (deleteMultipartTx uploadID)
         (retE True))))))"

definition insert_umeta :: "umeta_row \<Rightarrow> (db, unit) act" where
  "insert_umeta r = stmt (\<lambda>t.
     case insert_row pk_umeta r (t_umeta t) of
       None \<Rightarrow> Inl ErrConstraint
     | Some rows \<Rightarrow> Inr ((), t\<lparr>t_umeta := rows\<rparr>))"

definition PutMultipartUploadMetadata :: "string \<Rightarrow> (string \<times> string) list \<Rightarrow> (db, unit) act" where
  "PutMultipartUploadMetadata uploadID kv =
     forE (\<lambda>(n, v). insert_umeta \<lparr>um_upload = uploadID, um_name = n, um_value = v\<rparr>) kv"

definition GetMultipartUploadMetadata :: "string \<Rightarrow> (db, (string \<times> string) list) act" where
  "GetMultipartUploadMetadata uploadID = query (\<lambda>t.
     map (\<lambda>r. (um_name r, um_value r)) (filter (\<lambda>r. um_upload r = uploadID) (t_umeta t)))"

definition DeleteMultipartUpload :: "string \<Rightarrow> (db, unit) act" where
  "DeleteMultipartUpload uploadID = tx (thenE (deleteMultipartTx uploadID) (retE True))"

end
