(* ===== verification/StoreSpec.thy ===== *)
theory StoreSpec
  imports StoreInv
begin

text \<open>
  What the metadata store promises its clients. The rows of an object are abstracted to one
  value (\<open>stored\<close>: its row, its chunk map with replicas, its header metadata), the queries are
  shown to compute that value, and the writing operations are shown to act on it as on a map
  from bucket and key. The interface \<open>object_map\<close> states those laws for a client, proves what a
  client may conclude from them once, and is interpreted on the store's own operations.
\<close>

section \<open>What the two-loop scans compute\<close>

lemma scan_rows_fst: "fst (scan_rows key mk rs cs idx) = cs @ map mk rs"
  by (induction rs arbitrary: cs idx) auto

lemma scan_rows_other:
  "k \<notin> key ` set rs \<Longrightarrow> snd (scan_rows key mk rs cs idx) k = idx k"
  by (induction rs arbitrary: cs idx) auto

lemma scan_rows_snd:
  assumes "distinct (map key rs)" and "i < length rs"
  shows "snd (scan_rows key mk rs cs idx) (key (rs ! i)) = Some (length cs + i)"
  using assms
proof (induction rs arbitrary: cs idx i)
  case (Cons r rs)
  show ?case
  proof (cases i)
    case 0
    with Cons.prems show ?thesis by (simp add: scan_rows_other)
  next
    case (Suc j)
    with Cons.prems Cons.IH [of j "cs @ [mk r]"] show ?thesis by simp
  qed
qed simp

lemma attach_rows_length: "length (attach_rows key mk qs idx cs) = length cs"
  by (induction qs arbitrary: cs) (auto split: option.splits)

lemma attach_rows_nth:
  assumes "i < length cs" and "\<And>k j. idx k = Some j \<Longrightarrow> j < length cs"
  shows "attach_rows key mk qs idx cs ! i = (cs ! i)\<lparr>mc_replicas :=
    mc_replicas (cs ! i) @ map mk (filter (\<lambda>q. idx (key q) = Some i) qs)\<rparr>"
  using assms
proof (induction qs arbitrary: cs)
  case (Cons q qs)
  show ?case
  proof (cases "idx (key q)")
    case None
    with Cons show ?thesis by simp
  next
    case (Some j)
    then have "j < length cs" by (rule Cons.prems(2))
    with Some Cons.prems Cons.IH show ?thesis
      by (cases "j = i") auto
  qed
qed simp

text \<open>Together: each chunk gets the replicas of its own key, in the order of the replica rows.\<close>

lemma scan_attach:
  fixes rs :: "'r list" and qs :: "'q list"
  assumes "distinct (map key rs)" and "\<And>r. mc_replicas (mk r) = []"
    and "scan_rows key mk rs [] Map.empty = (cs, idx)"
  shows "attach_rows key' mk' qs idx cs =
    map (\<lambda>r. (mk r)\<lparr>mc_replicas := map mk' (filter (\<lambda>q. key' q = key r) qs)\<rparr>) rs"
proof (rule nth_equalityI)
  have cs: "cs = map mk rs"
    using assms(3) scan_rows_fst [of key mk rs "[]" Map.empty] by simp
  have idx: "idx (key (rs ! i)) = Some i" if "i < length rs" for i
    using scan_rows_snd [OF assms(1) that, of mk "[]" Map.empty] assms(3) by simp
  have idx_None: "idx k = None" if "k \<notin> key ` set rs" for k
    using scan_rows_other [OF that, of mk "[]" Map.empty] assms(3) by simp
  have idx_iff: "idx k = Some i \<longleftrightarrow> k = key (rs ! i)" if "i < length rs" for k i
  proof
    assume k: "idx k = Some i"
    then have "k \<in> key ` set rs" using idx_None by force
    then obtain j where "j < length rs" and "k = key (rs ! j)"
      by (auto simp: in_set_conv_nth)
    with idx k show "k = key (rs ! i)" by force
  qed (simp add: idx that)
  have bound: "j < length cs" if "idx k = Some j" for k j
  proof -
    from that have "k \<in> key ` set rs" using idx_None by force
    then obtain i where "i < length rs" and "k = key (rs ! i)" by (auto simp: in_set_conv_nth)
    with idx that cs show ?thesis by force
  qed
  show "length (attach_rows key' mk' qs idx cs) =
      length (map (\<lambda>r. (mk r)\<lparr>mc_replicas := map mk' (filter (\<lambda>q. key' q = key r) qs)\<rparr>) rs)"
    by (simp add: attach_rows_length cs)
  fix i assume "i < length (attach_rows key' mk' qs idx cs)"
  then have i: "i < length rs" by (simp add: attach_rows_length cs)
  then show "attach_rows key' mk' qs idx cs ! i =
      map (\<lambda>r. (mk r)\<lparr>mc_replicas := map mk' (filter (\<lambda>q. key' q = key r) qs)\<rparr>) rs ! i"
    using attach_rows_nth [of i cs idx key' mk' qs] bound cs assms(2) idx_iff [OF i] by simp
qed

text \<open>Sorting by a key whose first component is constant is sorting by the second.\<close>

lemma insort_key_cong:
  assumes "\<And>y. y \<in> set xs \<Longrightarrow> (f x \<le> f y) = (g x \<le> g y)"
  shows "insort_key f x xs = insort_key g x xs"
  using assms by (induction xs) auto

lemma sort_key_cong:
  assumes "\<And>x y. x \<in> set xs \<Longrightarrow> y \<in> set xs \<Longrightarrow> (f x \<le> f y) = (g x \<le> g y)"
  shows "sort_key f xs = sort_key g xs"
  using assms
proof (induction xs)
  case (Cons x xs)
  then have "sort_key f xs = sort_key g xs" by simp
  with Cons.prems show ?case by (auto intro!: insort_key_cong)
qed simp

section \<open>The stored value of an object\<close>

record stored =
  st_row :: object_row
  st_chunks :: "mchunk list"
  st_meta :: "(string \<times> string) list"

definition read_replicas :: "tables \<Rightarrow> string \<Rightarrow> string \<Rightarrow> int \<Rightarrow> mreplica list" where
  "read_replicas t b k s = map replica_of_row (sort_key r_idx
     (filter (\<lambda>q. r_bucket q = b \<and> r_key q = k \<and> r_seq q = s) (t_replicas t)))"

definition read_chunks :: "tables \<Rightarrow> string \<Rightarrow> string \<Rightarrow> mchunk list" where
  "read_chunks t b k =
     map (\<lambda>r. (chunk_of_row r)\<lparr>mc_replicas := read_replicas t b k (c_seq r)\<rparr>)
       (sort_key c_seq (filter (\<lambda>r. c_bucket r = b \<and> c_key r = k) (t_chunks t)))"

definition read_meta :: "tables \<Rightarrow> string \<Rightarrow> string \<Rightarrow> (string \<times> string) list" where
  "read_meta t b k =
     map (\<lambda>r. (om_name r, om_value r)) (filter (\<lambda>r. om_bucket r = b \<and> om_key r = k) (t_ometa t))"

definition live_rows :: "tables \<Rightarrow> string \<Rightarrow> string \<Rightarrow> object_row list" where
  "live_rows t b k = filter (\<lambda>r. o_bucket r = b \<and> o_key r = k \<and> o_deleted r = None) (t_objects t)"

definition lookup :: "tables \<Rightarrow> string \<times> string \<Rightarrow> stored option" where
  "lookup t = (\<lambda>(b, k). case live_rows t b k of
      [] \<Rightarrow> None
    | r # _ \<Rightarrow> Some \<lparr>st_row = r, st_chunks = read_chunks t b k, st_meta = read_meta t b k\<rparr>)"

section \<open>The queries compute it\<close>

abbreviation nofault :: "db \<Rightarrow> bool" where
  "nofault d \<equiv> faults d = []"

lemma query_nofault [simp]: "nofault d \<Longrightarrow> query f d = (Inr (f (tabs d)), d)"
  by (simp add: query_def stmt_def)

lemma distinct_chunk_seqs:
  assumes "uniq pk_chunk (t_chunks t)"
  shows "distinct (map c_seq (sort_key c_seq (filter (\<lambda>r. c_bucket r = b \<and> c_key r = k) (t_chunks t))))"
proof -
  let ?rows = "filter (\<lambda>r. c_bucket r = b \<and> c_key r = k) (t_chunks t)"
  have "distinct (map pk_chunk ?rows)"
    using assms by (simp add: uniq_def distinct_map_filter)
  then have "distinct ?rows" and "inj_on pk_chunk (set ?rows)"
    by (simp_all add: distinct_map)
  then have "distinct (map c_seq ?rows)"
    by (auto simp: distinct_map inj_on_def pk_chunk_def)
  then show ?thesis by (simp add: distinct_map)
qed

lemma filter_seq_sorted_replicas:
  "filter (\<lambda>q. r_seq q = s) (sort_key (\<lambda>r. (r_seq r, r_idx r))
      (filter (\<lambda>r. r_bucket r = b \<and> r_key r = k) rows)) =
   sort_key r_idx (filter (\<lambda>q. r_bucket q = b \<and> r_key q = k \<and> r_seq q = s) rows)"
proof -
  have "filter (\<lambda>q. r_seq q = s) (filter (\<lambda>r. r_bucket r = b \<and> r_key r = k) rows) =
      filter (\<lambda>q. r_bucket q = b \<and> r_key q = k \<and> r_seq q = s) rows"
    by (simp add: conj_ac cong: filter_cong)
  then show ?thesis
    unfolding filter_sort by simp (rule sort_key_cong, auto)
qed

lemma GetObjectChunks_read:
  assumes "nofault d" and "wf d"
  shows "GetObjectChunks b k d = (Inr (read_chunks (tabs d) b k), d)"
proof -
  let ?rows = "sort_key c_seq (filter (\<lambda>r. c_bucket r = b \<and> c_key r = k) (t_chunks (tabs d)))"
  obtain cs idx where sc: "scan_rows c_seq chunk_of_row ?rows [] Map.empty = (cs, idx)"
    by (cases "scan_rows c_seq chunk_of_row ?rows [] Map.empty")
  have cs: "cs = map chunk_of_row ?rows"
    using scan_rows_fst [of c_seq chunk_of_row ?rows "[]" Map.empty] sc by simp
  have "distinct (map c_seq ?rows)"
    using assms(2) by (intro distinct_chunk_seqs) (simp add: wf_tables_def)
  note att = scan_attach [OF this _ sc, of r_seq replica_of_row, simplified chunk_of_row_def, simplified,
      folded chunk_of_row_def]
  show ?thesis
  proof (cases "?rows = []")
    case True
    with cs sc assms(1) show ?thesis
      by (simp add: GetObjectChunks_def bindE_def read_chunks_def)
  next
    case False
    then have "cs \<noteq> []" by (simp add: cs)
    with sc assms(1) show ?thesis
      by (simp add: GetObjectChunks_def bindE_def att read_chunks_def read_replicas_def
          filter_seq_sorted_replicas chunk_of_row_def)
  qed
qed

lemma GetObject_lookup:
  "nofault d \<Longrightarrow> GetObject b k d =
     (case lookup (tabs d) (b, k) of None \<Rightarrow> Inl ErrNotFound
      | Some v \<Rightarrow> Inr (object_of_row (st_row v)), d)"
  by (simp add: GetObject_def bindE_def lookup_def live_rows_def split: list.splits)

lemma GetObjectMetadata_read:
  "nofault d \<Longrightarrow> GetObjectMetadata b k d = (Inr (read_meta (tabs d) b k), d)"
  by (simp add: GetObjectMetadata_def read_meta_def)

lemma BucketExists_nofault [simp]:
  "nofault d \<Longrightarrow> BucketExists b d = (Inr (b \<in> b_name ` set (t_buckets (tabs d))), d)"
  by (simp add: BucketExists_def)

section \<open>The effect of the writing operations\<close>

lemma stmt_InrD: "stmt f d = (Inr x, d') \<Longrightarrow> f (tabs d) = Inr (x, tabs d')"
  by (auto simp: stmt_def split: list.splits option.splits sum.splits)

lemma exec_InrD: "exec f d = (Inr x, d') \<Longrightarrow> tabs d' = f (tabs d)"
  unfolding exec_def by (drule stmt_InrD) simp

lemma query_InrD: "query f d = (Inr x, d') \<Longrightarrow> x = f (tabs d) \<and> tabs d' = tabs d"
  unfolding query_def by (auto dest: stmt_InrD)

lemma tx_InrE:
  assumes "tx body d = (Inr (), d')"
  obtains d1 c d2 where "tabs d1 = tabs d" and "body d1 = (Inr c, d2)"
    and "tabs d' = (if c then tabs d2 else tabs d)"
  using assms
  by (auto simp: tx_def split: prod.splits sum.splits bool.splits dest: exec_id_tabs)
     (metis exec_id_tabs)+

definition chunk_rows :: "string \<Rightarrow> string \<Rightarrow> mchunk list \<Rightarrow> chunk_row list" where
  "chunk_rows b k chunks = map (\<lambda>c. \<lparr>c_bucket = b, c_key = k, c_seq = mc_seq c,
     c_size = mc_size c, c_offset = mc_offset c\<rparr>) chunks"

definition seq_replica_rows :: "string \<Rightarrow> string \<Rightarrow> int \<Rightarrow> mreplica list \<Rightarrow> replica_row list" where
  "seq_replica_rows b k s reps =
     map (\<lambda>(i, r). replica_row_of b k s (int i) r) (enumerate 0 reps)"

definition replica_rows :: "string \<Rightarrow> string \<Rightarrow> mchunk list \<Rightarrow> replica_row list" where
  "replica_rows b k chunks =
     concat (map (\<lambda>c. seq_replica_rows b k (mc_seq c) (mc_replicas c)) chunks)"

definition meta_rows :: "string \<Rightarrow> string \<Rightarrow> (string \<times> string) list \<Rightarrow> ometa_row list" where
  "meta_rows b k kv =
     map (\<lambda>(n, v). \<lparr>om_bucket = b, om_key = k, om_name = n, om_value = v\<rparr>) kv"

lemma forE_insert_replica_effect:
  assumes "forE (\<lambda>(i, r). insert_replica (g i r)) xs d = (Inr u, d')"
  shows "tabs d' = (tabs d)\<lparr>t_replicas := t_replicas (tabs d) @ map (\<lambda>(i, r). g i r) xs\<rparr>"
  using assms
proof (induction xs arbitrary: d)
  case (Cons x xs)
  obtain i r where x: "x = (i, r)" by (cases x)
  from Cons.prems obtain y d1 where one: "insert_replica (g i r) d = (Inr y, d1)"
    and rest: "forE (\<lambda>(i, r). insert_replica (g i r)) xs d1 = (Inr u, d')"
    unfolding x by (auto elim: thenE_InrE)
  from one have "tabs d1 = (tabs d)\<lparr>t_replicas := t_replicas (tabs d) @ [g i r]\<rparr>"
    unfolding insert_replica_def
    by (auto dest!: stmt_InrD simp: insert_row_def split: option.splits if_splits)
  with Cons.IH [OF rest] x show ?case by simp
qed simp

lemma insert_replicas_effect:
  "insert_replicas b k s reps d = (Inr u, d') \<Longrightarrow>
   tabs d' = (tabs d)\<lparr>t_replicas := t_replicas (tabs d) @ seq_replica_rows b k s reps\<rparr>"
  unfolding insert_replicas_def seq_replica_rows_def by (rule forE_insert_replica_effect)

lemma insert_chunk_effect:
  "insert_chunk r d = (Inr u, d') \<Longrightarrow> tabs d' = (tabs d)\<lparr>t_chunks := t_chunks (tabs d) @ [r]\<rparr>"
  unfolding insert_chunk_def
  by (auto dest!: stmt_InrD simp: insert_row_def split: option.splits if_splits)

lemma forE_insert_chunks_effect:
  assumes "forE (\<lambda>c. thenE
      (insert_chunk \<lparr>c_bucket = b, c_key = k, c_seq = mc_seq c, c_size = mc_size c,
         c_offset = mc_offset c\<rparr>)
      (insert_replicas b k (mc_seq c) (mc_replicas c))) chunks d = (Inr u, d')"
  shows "tabs d' = (tabs d)\<lparr>t_chunks := t_chunks (tabs d) @ chunk_rows b k chunks,
    t_replicas := t_replicas (tabs d) @ replica_rows b k chunks\<rparr>"
  using assms
  by (induction chunks arbitrary: d)
     (auto elim!: thenE_InrE dest!: insert_chunk_effect insert_replicas_effect
           simp: chunk_rows_def replica_rows_def)

lemma replaceObjectChunksTx_effect:
  assumes "replaceObjectChunksTx b k chunks d = (Inr u, d')"
  shows "tabs d' = (tabs d)\<lparr>
    t_chunks := delete_rows (\<lambda>r. c_bucket r = b \<and> c_key r = k) (t_chunks (tabs d)) @ chunk_rows b k chunks,
    t_replicas := delete_rows (\<lambda>r. r_bucket r = b \<and> r_key r = k) (t_replicas (tabs d)) @ replica_rows b k chunks\<rparr>"
  using assms unfolding replaceObjectChunksTx_def delete_replicas_def delete_chunks_def
  by (auto elim!: thenE_InrE dest!: exec_InrD forE_insert_chunks_effect)

lemma insert_ometa_effect:
  "insert_ometa r d = (Inr u, d') \<Longrightarrow> tabs d' = (tabs d)\<lparr>t_ometa := t_ometa (tabs d) @ [r]\<rparr>"
  unfolding insert_ometa_def
  by (auto dest!: stmt_InrD simp: insert_row_def split: option.splits if_splits)

lemma replaceObjectMetadataTx_effect:
  assumes "replaceObjectMetadataTx b k kv d = (Inr u, d')"
  shows "tabs d' = (tabs d)\<lparr>t_ometa :=
    delete_rows (\<lambda>r. om_bucket r = b \<and> om_key r = k) (t_ometa (tabs d)) @ meta_rows b k kv\<rparr>"
proof -
  have ins: "forE (\<lambda>(n, v). insert_ometa \<lparr>om_bucket = b, om_key = k, om_name = n, om_value = v\<rparr>) kv d
      = (Inr v, d') \<Longrightarrow> tabs d' = (tabs d)\<lparr>t_ometa := t_ometa (tabs d) @ meta_rows b k kv\<rparr>" for d v
    by (induction kv arbitrary: d)
       (auto elim!: thenE_InrE dest!: insert_ometa_effect simp: meta_rows_def)
  show ?thesis
    using assms unfolding replaceObjectMetadataTx_def delete_ometa_def
    by (auto elim!: thenE_InrE dest!: exec_InrD ins)
qed

definition upsert_rows :: "object \<Rightarrow> object_row list \<Rightarrow> object_row list" where
  "upsert_rows obj rows =
     (let here = (\<lambda>r. o_bucket r = ob_bucket obj \<and> o_key r = ob_key obj) in
      if \<exists>r \<in> set rows. here r then
        update_rows here (\<lambda>r. r\<lparr>o_size := ob_size obj, o_etag := ob_etag obj,
          o_ctype := ob_ctype obj, o_updated := ob_updated obj, o_deleted := None\<rparr>) rows
      else rows @ [\<lparr>o_bucket = ob_bucket obj, o_key = ob_key obj, o_size = ob_size obj,
         o_etag = ob_etag obj, o_ctype = ob_ctype obj, o_created = ob_created obj,
         o_updated = ob_updated obj, o_deleted = None\<rparr>])"

lemma upsertObjectRowTx_effect:
  "upsertObjectRowTx obj d = (Inr u, d') \<Longrightarrow>
     tabs d' = (tabs d)\<lparr>t_objects := upsert_rows obj (t_objects (tabs d))\<rparr>"
  unfolding upsertObjectRowTx_def
  by (auto dest!: stmt_InrD simp: Let_def upsert_rows_def split: if_splits)

text \<open>The tables after a successful put of an object, which the multipart finalisation shares.\<close>

definition put_tables :: "object \<Rightarrow> mchunk list \<Rightarrow> tables \<Rightarrow> tables" where
  "put_tables obj chunks t =
     (let b = ob_bucket obj; k = ob_key obj in
      t\<lparr>t_objects := upsert_rows obj (t_objects t),
        t_chunks := delete_rows (\<lambda>r. c_bucket r = b \<and> c_key r = k) (t_chunks t) @ chunk_rows b k chunks,
        t_replicas := delete_rows (\<lambda>r. r_bucket r = b \<and> r_key r = k) (t_replicas t) @ replica_rows b k chunks,
        t_ometa := delete_rows (\<lambda>r. om_bucket r = b \<and> om_key r = k) (t_ometa t) @ meta_rows b k (ob_meta obj)\<rparr>)"

lemma PutObject_effect:
  assumes "PutObject now obj chunks d = (Inr (), d')"
  shows "tabs d' = put_tables (stamp now obj) chunks (tabs d)"
  using assms unfolding PutObject_def Let_def
  by (auto elim!: tx_InrE thenE_InrE simp: put_tables_def Let_def
      dest!: upsertObjectRowTx_effect replaceObjectChunksTx_effect replaceObjectMetadataTx_effect)

definition drop_upload :: "string \<Rightarrow> tables \<Rightarrow> tables" where
  "drop_upload uid t =
     t\<lparr>t_preplicas := delete_rows (\<lambda>r. pr_upload r = uid) (t_preplicas t),
       t_pchunks := delete_rows (\<lambda>r. pc_upload r = uid) (t_pchunks t),
       t_parts := delete_rows (\<lambda>r. p_upload r = uid) (t_parts t),
       t_umeta := delete_rows (\<lambda>r. um_upload r = uid) (t_umeta t),
       t_uploads := delete_rows (\<lambda>r. u_id r = uid) (t_uploads t)\<rparr>"

lemma deleteMultipartTx_effect:
  "deleteMultipartTx uid d = (Inr u, d') \<Longrightarrow> tabs d' = drop_upload uid (tabs d)"
  unfolding deleteMultipartTx_def delete_preplicas_def delete_pchunks_def
  by (auto elim!: thenE_InrE dest!: exec_InrD simp: drop_upload_def)

lemma FinalizeMultipartUpload_effect:
  assumes "FinalizeMultipartUpload now obj chunks uid d = (Inr (), d')"
  shows "tabs d' = drop_upload uid (put_tables (stamp now obj) chunks (tabs d))"
  using assms unfolding FinalizeMultipartUpload_def Let_def
  by (auto elim!: tx_InrE thenE_InrE simp: put_tables_def Let_def
      dest!: upsertObjectRowTx_effect replaceObjectChunksTx_effect replaceObjectMetadataTx_effect
        deleteMultipartTx_effect)

lemma DeleteObject_effect:
  assumes "DeleteObject b k d = (Inr (), d')"
  shows "tabs d' = (tabs d)\<lparr>
    t_replicas := delete_rows (\<lambda>r. r_bucket r = b \<and> r_key r = k) (t_replicas (tabs d)),
    t_chunks := delete_rows (\<lambda>r. c_bucket r = b \<and> c_key r = k) (t_chunks (tabs d)),
    t_ometa := delete_rows (\<lambda>r. om_bucket r = b \<and> om_key r = k) (t_ometa (tabs d)),
    t_objects := delete_rows (\<lambda>r. o_bucket r = b \<and> o_key r = k) (t_objects (tabs d))\<rparr>"
  using assms unfolding DeleteObject_def delete_replicas_def delete_chunks_def delete_ometa_def
    delete_objects_def
  by (auto elim!: tx_InrE thenE_InrE dest!: exec_InrD)

section \<open>The store as a map\<close>

lemma replica_of_replica_row [simp]: "replica_of_row (replica_row_of b k s i r) = r"
  by (simp add: replica_of_row_def replica_row_of_def)

lemma seq_replica_rows_key:
  "q \<in> set (seq_replica_rows b k s reps) \<Longrightarrow> r_bucket q = b \<and> r_key q = k \<and> r_seq q = s"
  by (auto simp: seq_replica_rows_def replica_row_of_def)

lemma seq_replica_rows_sorted: "sorted (map r_idx (seq_replica_rows b k s reps))"
proof -
  have "map r_idx (seq_replica_rows b k s reps) = map int [0..<length reps]"
    by (rule nth_equalityI)
       (simp_all add: seq_replica_rows_def replica_row_of_def nth_enumerate_eq)
  then show ?thesis by (simp add: sorted_map sorted_wrt_upt mono_def)
qed

lemma seq_replica_rows_back: "map replica_of_row (seq_replica_rows b k s reps) = reps"
  by (simp add: seq_replica_rows_def comp_def case_prod_unfold enumerate_eq_zip)

lemma filter_replica_rows:
  assumes "distinct (map mc_seq chunks)" and "c \<in> set chunks"
  shows "filter (\<lambda>q. r_bucket q = b \<and> r_key q = k \<and> r_seq q = mc_seq c) (replica_rows b k chunks) =
    seq_replica_rows b k (mc_seq c) (mc_replicas c)"
  using assms
proof (induction chunks)
  case (Cons x xs)
  let ?P = "\<lambda>q. r_bucket q = b \<and> r_key q = k \<and> r_seq q = mc_seq c"
  let ?f = "\<lambda>c. seq_replica_rows b k (mc_seq c) (mc_replicas c)"
  have none: "filter ?P (?f y) = []" if "mc_seq y \<noteq> mc_seq c" for y
    using that by (auto simp: filter_empty_conv dest!: seq_replica_rows_key)
  have all: "filter ?P (?f c) = ?f c"
    by (rule filter_True) (auto dest!: seq_replica_rows_key)
  show ?case
  proof (cases "x = c")
    case True
    with Cons.prems have "\<forall>y \<in> set xs. mc_seq y \<noteq> mc_seq c" by (auto simp: image_iff)
    then have "filter ?P (replica_rows b k xs) = []"
      by (auto simp: replica_rows_def filter_empty_conv dest!: seq_replica_rows_key)
    with True all show ?thesis by (simp add: replica_rows_def)
  next
    case False
    with Cons.prems have "mc_seq x \<noteq> mc_seq c" and "c \<in> set xs" by auto
    with Cons none show ?thesis by (simp add: replica_rows_def)
  qed
qed simp

abbreviation ascending :: "mchunk list \<Rightarrow> bool" where
  "ascending chunks \<equiv> sorted_wrt (<) (map mc_seq chunks)"

lemma put_tables_chunk_rows:
  "filter (\<lambda>r. c_bucket r = ob_bucket obj \<and> c_key r = ob_key obj) (t_chunks (put_tables obj chunks t)) =
   chunk_rows (ob_bucket obj) (ob_key obj) chunks"
proof -
  have "filter (\<lambda>r. c_bucket r = b \<and> c_key r = k) (chunk_rows b k chunks) = chunk_rows b k chunks" for b k
    by (rule filter_True) (auto simp: chunk_rows_def)
  then show ?thesis by (simp add: put_tables_def Let_def)
qed

lemma put_tables_replicas:
  assumes "distinct (map mc_seq chunks)" and "c \<in> set chunks"
  shows "read_replicas (put_tables obj chunks t) (ob_bucket obj) (ob_key obj) (mc_seq c) = mc_replicas c"
proof -
  let ?b = "ob_bucket obj" and ?k = "ob_key obj"
  have "filter (\<lambda>q. r_bucket q = ?b \<and> r_key q = ?k \<and> r_seq q = mc_seq c)
      (t_replicas (put_tables obj chunks t)) = seq_replica_rows ?b ?k (mc_seq c) (mc_replicas c)"
    using assms by (simp add: put_tables_def Let_def filter_replica_rows filter_delete_rows)
  then show ?thesis
    by (simp add: read_replicas_def sort_key_id seq_replica_rows_sorted seq_replica_rows_back)
qed

lemma read_chunks_put:
  assumes "ascending chunks"
  shows "read_chunks (put_tables obj chunks t) (ob_bucket obj) (ob_key obj) = chunks"
proof -
  let ?b = "ob_bucket obj" and ?k = "ob_key obj"
  have seqs: "map c_seq (chunk_rows ?b ?k chunks) = map mc_seq chunks"
    by (simp add: chunk_rows_def)
  have "sort_key c_seq (chunk_rows ?b ?k chunks) = chunk_rows ?b ?k chunks"
    using assms by (intro sort_key_id) (simp add: seqs sorted_wrt_less_distinct)
  moreover have "distinct (map mc_seq chunks)"
    using assms by (simp add: sorted_wrt_less_distinct)
  ultimately show ?thesis
    using put_tables_replicas [of chunks _ obj t]
    by (simp add: read_chunks_def put_tables_chunk_rows)
       (auto simp: chunk_rows_def chunk_of_row_def intro!: map_idI)
qed

lemma read_meta_put: "read_meta (put_tables obj chunks t) (ob_bucket obj) (ob_key obj) = ob_meta obj"
proof -
  have "filter (\<lambda>r. om_bucket r = b \<and> om_key r = k) (meta_rows b k kv) = meta_rows b k kv" for b k kv
    by (rule filter_True) (auto simp: meta_rows_def)
  then show ?thesis
    by (simp add: read_meta_def put_tables_def Let_def) (simp add: meta_rows_def comp_def case_prod_unfold)
qed

text \<open>The row an upsert leaves: the creation time of an existing row survives.\<close>

definition upserted_row :: "object \<Rightarrow> object_row list \<Rightarrow> object_row" where
  "upserted_row obj rows =
     \<lparr>o_bucket = ob_bucket obj, o_key = ob_key obj, o_size = ob_size obj, o_etag = ob_etag obj,
      o_ctype = ob_ctype obj,
      o_created = (case filter (\<lambda>r. pk_object r = (ob_bucket obj, ob_key obj)) rows of
         [] \<Rightarrow> ob_created obj | r # _ \<Rightarrow> o_created r),
      o_updated = ob_updated obj, o_deleted = None\<rparr>"

lemma filter_update_rows:
  assumes "\<And>r. P r \<Longrightarrow> Q (f r)" and "\<And>r. Q r \<Longrightarrow> P r"
  shows "filter Q (update_rows P f rows) = map f (filter P rows)"
  using assms by (induction rows) (auto simp: update_rows_def)

lemma live_rows_put:
  assumes "uniq pk_object (t_objects t)"
  shows "live_rows (put_tables obj chunks t) (ob_bucket obj) (ob_key obj) =
    [upserted_row obj (t_objects t)]"
proof (cases "\<exists>r \<in> set (t_objects t). o_bucket r = ob_bucket obj \<and> o_key r = ob_key obj")
  case True
  then obtain r where r: "r \<in> set (t_objects t)" "pk_object r = (ob_bucket obj, ob_key obj)"
    by (auto simp: pk_object_def)
  have "filter (\<lambda>r. pk_object r = (ob_bucket obj, ob_key obj)) (t_objects t) = [r]"
    by (rule uniq_the_row [OF assms r])
  then have one: "filter (\<lambda>r. o_bucket r = ob_bucket obj \<and> o_key r = ob_key obj) (t_objects t) = [r]"
    by (simp add: pk_object_def)
  let ?here = "\<lambda>r. o_bucket r = ob_bucket obj \<and> o_key r = ob_key obj"
  let ?upd = "\<lambda>r. r\<lparr>o_size := ob_size obj, o_etag := ob_etag obj, o_ctype := ob_ctype obj,
    o_updated := ob_updated obj, o_deleted := None\<rparr>"
  have "live_rows (put_tables obj chunks t) (ob_bucket obj) (ob_key obj) =
      filter (\<lambda>r. o_bucket r = ob_bucket obj \<and> o_key r = ob_key obj \<and> o_deleted r = None)
        (update_rows ?here ?upd (t_objects t))"
    using True by (simp add: live_rows_def put_tables_def Let_def upsert_rows_def)
  also have "\<dots> = map ?upd (filter ?here (t_objects t))"
    by (rule filter_update_rows) auto
  finally show ?thesis
    using one r by (simp add: upserted_row_def pk_object_def)
next
  case False
  then have none: "filter (\<lambda>r. o_bucket r = ob_bucket obj \<and> o_key r = ob_key obj \<and> Q r) (t_objects t) = []" for Q
    by (auto simp: filter_empty_conv)
  from none [of "\<lambda>_. True"] none [of "\<lambda>r. o_deleted r = None"] False show ?thesis
    by (auto simp: live_rows_def put_tables_def Let_def upsert_rows_def upserted_row_def pk_object_def)
qed

lemma live_rows_put_other:
  assumes "(b, k) \<noteq> (ob_bucket obj, ob_key obj)"
  shows "live_rows (put_tables obj chunks t) b k = live_rows t b k"
proof -
  let ?here = "\<lambda>r. o_bucket r = ob_bucket obj \<and> o_key r = ob_key obj"
  have "filter (\<lambda>r. o_bucket r = b \<and> o_key r = k \<and> o_deleted r = None)
      (update_rows ?here (\<lambda>r. r\<lparr>o_size := sz, o_etag := e, o_ctype := c, o_updated := u, o_deleted := None\<rparr>) rows) =
      filter (\<lambda>r. o_bucket r = b \<and> o_key r = k \<and> o_deleted r = None) rows" for rows sz e c u
    using assms by (induction rows) (auto simp: update_rows_def)
  then show ?thesis
    using assms by (auto simp: live_rows_def put_tables_def Let_def upsert_rows_def)
qed

lemma other_object_rows:
  assumes "(b, k) \<noteq> (b', k')"
  shows "filter (\<lambda>q. r_bucket q = b \<and> r_key q = k \<and> r_seq q = s)
      (delete_rows (\<lambda>r. r_bucket r = b' \<and> r_key r = k') rs) =
      filter (\<lambda>q. r_bucket q = b \<and> r_key q = k \<and> r_seq q = s) rs"
    and "filter (\<lambda>r. c_bucket r = b \<and> c_key r = k) (delete_rows (\<lambda>r. c_bucket r = b' \<and> c_key r = k') cs) =
      filter (\<lambda>r. c_bucket r = b \<and> c_key r = k) cs"
    and "filter (\<lambda>r. om_bucket r = b \<and> om_key r = k) (delete_rows (\<lambda>r. om_bucket r = b' \<and> om_key r = k') ms) =
      filter (\<lambda>r. om_bucket r = b \<and> om_key r = k) ms"
    and "filter (\<lambda>r. o_bucket r = b \<and> o_key r = k \<and> o_deleted r = None)
      (delete_rows (\<lambda>r. o_bucket r = b' \<and> o_key r = k') os) =
      filter (\<lambda>r. o_bucket r = b \<and> o_key r = k \<and> o_deleted r = None) os"
  using assms by (auto intro!: filter_delete_disjoint)

lemma read_other:
  assumes "(b, k) \<noteq> (ob_bucket obj, ob_key obj)"
  shows "read_chunks (put_tables obj chunks t) b k = read_chunks t b k"
    and "read_meta (put_tables obj chunks t) b k = read_meta t b k"
proof -
  have new: "filter (\<lambda>q. r_bucket q = b \<and> r_key q = k \<and> r_seq q = s) (replica_rows b' k' cs) = []"
    "filter (\<lambda>r. c_bucket r = b \<and> c_key r = k) (chunk_rows b' k' cs) = []"
    "filter (\<lambda>r. om_bucket r = b \<and> om_key r = k) (meta_rows b' k' kv) = []"
    if "(b, k) \<noteq> (b', k')" for b' k' s cs kv
    using that by (auto simp: filter_empty_conv replica_rows_def chunk_rows_def meta_rows_def
        dest!: seq_replica_rows_key)
  note facts = new [OF assms] other_object_rows [OF assms]
  show "read_chunks (put_tables obj chunks t) b k = read_chunks t b k"
    by (simp add: read_chunks_def read_replicas_def put_tables_def Let_def facts)
  show "read_meta (put_tables obj chunks t) b k = read_meta t b k"
    by (simp add: read_meta_def put_tables_def Let_def facts)
qed

definition stored_of :: "object \<Rightarrow> mchunk list \<Rightarrow> tables \<Rightarrow> stored" where
  "stored_of obj chunks t = \<lparr>st_row = upserted_row obj (t_objects t), st_chunks = chunks,
     st_meta = ob_meta obj\<rparr>"

lemma lookup_put:
  assumes "wf_tables t" and "ascending chunks"
  shows "lookup (put_tables obj chunks t) =
    (lookup t)((ob_bucket obj, ob_key obj) \<mapsto> stored_of obj chunks t)"
proof
  fix p :: "string \<times> string"
  obtain b k where p: "p = (b, k)" by (cases p)
  show "lookup (put_tables obj chunks t) p =
      ((lookup t)((ob_bucket obj, ob_key obj) \<mapsto> stored_of obj chunks t)) p"
  proof (cases "(b, k) = (ob_bucket obj, ob_key obj)")
    case True
    then show ?thesis using assms
      by (simp add: p lookup_def live_rows_put wf_tables_def read_chunks_put read_meta_put stored_of_def)
  next
    case False
    note other = live_rows_put_other [OF False] read_other [OF False]
    show ?thesis using False
      by (auto simp: p lookup_def other split: list.splits)
  qed
qed

lemma lookup_cong:
  assumes "t_objects t' = t_objects t" and "t_chunks t' = t_chunks t"
    and "t_replicas t' = t_replicas t" and "t_ometa t' = t_ometa t"
  shows "lookup t' = lookup t"
proof -
  have "live_rows t' b k = live_rows t b k" and "read_chunks t' b k = read_chunks t b k"
    and "read_meta t' b k = read_meta t b k" for b k
    using assms by (simp_all add: live_rows_def read_chunks_def read_replicas_def read_meta_def)
  then show ?thesis by (auto simp: lookup_def fun_eq_iff split: list.splits)
qed

lemma lookup_drop_upload [simp]: "lookup (drop_upload uid t) = lookup t"
  by (rule lookup_cong) (simp_all add: drop_upload_def)

lemma lookup_delete:
  assumes "DeleteObject b k d = (Inr (), d')"
  shows "lookup (tabs d') = (lookup (tabs d))((b, k) := None)"
proof
  fix p :: "string \<times> string"
  obtain b' k' where p: "p = (b', k')" by (cases p)
  note eff = DeleteObject_effect [OF assms]
  show "lookup (tabs d') p = ((lookup (tabs d))((b, k) := None)) p"
  proof (cases "(b', k') = (b, k)")
    case True
    then show ?thesis by (simp add: p lookup_def live_rows_def eff filter_delete_rows)
  next
    case False
    then have "live_rows (tabs d') b' k' = live_rows (tabs d) b' k'"
      and "read_meta (tabs d') b' k' = read_meta (tabs d) b' k'"
      and "read_chunks (tabs d') b' k' = read_chunks (tabs d) b' k'"
      by (simp_all add: live_rows_def read_meta_def read_chunks_def read_replicas_def eff
          other_object_rows [OF False])
    with False show ?thesis by (auto simp: p lookup_def split: list.splits)
  qed
qed

end
