(* ===== verification/StoreMap.thy ===== *)
theory StoreMap
  imports StoreSpec
begin

text \<open>
  The interface the rest of the gateway relies on: an object store is a map from bucket and
  key to stored values (\<open>object_map\<close>), interpreted on \<open>PutObject\<close> and \<open>DeleteObject\<close>. Also here:
  a put of a well-formed chunk map into an existing bucket succeeds on a database that does not
  fail.
\<close>

section \<open>A put succeeds\<close>

lemma stmt_nofault:
  "nofault d \<Longrightarrow> f (tabs d) = Inr (x, t) \<Longrightarrow> stmt f d = (Inr x, d\<lparr>tabs := t\<rparr>)"
  by (simp add: stmt_def)

lemma exec_nofault [simp]: "nofault d \<Longrightarrow> exec f d = (Inr (), d\<lparr>tabs := f (tabs d)\<rparr>)"
  by (simp add: exec_def stmt_nofault)

lemma tx_commit_nofault:
  "nofault d \<Longrightarrow> body d = (Inr True, d') \<Longrightarrow> nofault d' \<Longrightarrow> tx body d = (Inr (), d')"
  by (simp add: tx_def)

lemma uniq_append:
  "uniq pk (xs @ ys) \<longleftrightarrow> uniq pk xs \<and> uniq pk ys \<and> pk ` set xs \<inter> pk ` set ys = {}"
  by (auto simp: uniq_def)

lemma uniq_append_Cons: "uniq pk (xs @ y # ys) \<longleftrightarrow> uniq pk ((xs @ [y]) @ ys)"
  by simp

lemma uniq_append_fresh: "uniq pk (xs @ y # ys) \<Longrightarrow> pk y \<notin> pk ` set xs"
  by (auto simp: uniq_def)

lemma insert_row_fresh:
  "uniq pk (rows @ r # rest) \<Longrightarrow> insert_row pk r rows = Some (rows @ [r])"
  by (auto simp: insert_row_def dest: uniq_append_fresh)

lemma insert_replicas_nofault:
  assumes "nofault d" and "uniq pk_replica (t_replicas (tabs d) @ seq_replica_rows b k s reps)"
  shows "insert_replicas b k s reps d =
    (Inr (), d\<lparr>tabs := (tabs d)\<lparr>t_replicas := t_replicas (tabs d) @ seq_replica_rows b k s reps\<rparr>\<rparr>)"
proof -
  have "forE (\<lambda>(i, r). insert_replica (g i r)) xs d =
      (Inr (), d\<lparr>tabs := (tabs d)\<lparr>t_replicas := t_replicas (tabs d) @ map (\<lambda>(i, r). g i r) xs\<rparr>\<rparr>)"
    if "nofault d" "uniq pk_replica (t_replicas (tabs d) @ map (\<lambda>(i, r). g i r) xs)"
    for g :: "nat \<Rightarrow> mreplica \<Rightarrow> replica_row" and xs d
    using that
  proof (induction xs arbitrary: d)
    case (Cons x xs)
    obtain i r where x: "x = (i, r)" by (cases x)
    let ?d = "d\<lparr>tabs := (tabs d)\<lparr>t_replicas := t_replicas (tabs d) @ [g i r]\<rparr>\<rparr>"
    have "insert_row pk_replica (g i r) (t_replicas (tabs d)) = Some (t_replicas (tabs d) @ [g i r])"
      using Cons.prems(2) by (intro insert_row_fresh) (simp add: x)
    then have "insert_replica (g i r) d = (Inr (), ?d)"
      unfolding insert_replica_def by (intro stmt_nofault) (simp_all add: Cons.prems)
    with Cons.IH [of ?d] Cons.prems show ?case by (simp add: x)
  qed simp
  with assms show ?thesis by (simp add: insert_replicas_def seq_replica_rows_def)
qed

lemma insert_chunks_nofault:
  assumes "nofault d" and "uniq pk_chunk (t_chunks (tabs d) @ chunk_rows b k chunks)"
    and "uniq pk_replica (t_replicas (tabs d) @ replica_rows b k chunks)"
  shows "forE (\<lambda>c. thenE
      (insert_chunk \<lparr>c_bucket = b, c_key = k, c_seq = mc_seq c, c_size = mc_size c,
         c_offset = mc_offset c\<rparr>)
      (insert_replicas b k (mc_seq c) (mc_replicas c))) chunks d =
    (Inr (), d\<lparr>tabs := (tabs d)\<lparr>t_chunks := t_chunks (tabs d) @ chunk_rows b k chunks,
       t_replicas := t_replicas (tabs d) @ replica_rows b k chunks\<rparr>\<rparr>)"
  using assms
proof (induction chunks arbitrary: d)
  case (Cons c cs)
  let ?r = "\<lparr>c_bucket = b, c_key = k, c_seq = mc_seq c, c_size = mc_size c, c_offset = mc_offset c\<rparr>"
  let ?q = "seq_replica_rows b k (mc_seq c) (mc_replicas c)"
  let ?d1 = "d\<lparr>tabs := (tabs d)\<lparr>t_chunks := t_chunks (tabs d) @ [?r]\<rparr>\<rparr>"
  let ?d2 = "d\<lparr>tabs := (tabs d)\<lparr>t_chunks := t_chunks (tabs d) @ [?r],
    t_replicas := t_replicas (tabs d) @ ?q\<rparr>\<rparr>"
  have "insert_row pk_chunk ?r (t_chunks (tabs d)) = Some (t_chunks (tabs d) @ [?r])"
    using Cons.prems(2) by (intro insert_row_fresh) (simp add: chunk_rows_def)
  then have one: "insert_chunk ?r d = (Inr (), ?d1)"
    unfolding insert_chunk_def by (intro stmt_nofault) (simp_all add: Cons.prems)
  have "uniq pk_replica (t_replicas (tabs d) @ ?q)"
    using Cons.prems(3) by (auto simp: replica_rows_def uniq_append)
  then have two: "insert_replicas b k (mc_seq c) (mc_replicas c) ?d1 = (Inr (), ?d2)"
    using insert_replicas_nofault [of ?d1] Cons.prems(1) by simp
  from Cons.IH [of ?d2] Cons.prems one two show ?case
    by (simp add: chunk_rows_def replica_rows_def)
qed (simp add: chunk_rows_def replica_rows_def)

lemma insert_metas_nofault:
  assumes "nofault d" and "uniq pk_ometa (t_ometa (tabs d) @ meta_rows b k kv)"
  shows "forE (\<lambda>(n, v). insert_ometa \<lparr>om_bucket = b, om_key = k, om_name = n, om_value = v\<rparr>) kv d =
    (Inr (), d\<lparr>tabs := (tabs d)\<lparr>t_ometa := t_ometa (tabs d) @ meta_rows b k kv\<rparr>\<rparr>)"
  using assms
proof (induction kv arbitrary: d)
  case (Cons x kv)
  obtain n v where x: "x = (n, v)" by (cases x)
  let ?r = "\<lparr>om_bucket = b, om_key = k, om_name = n, om_value = v\<rparr>"
  let ?d = "d\<lparr>tabs := (tabs d)\<lparr>t_ometa := t_ometa (tabs d) @ [?r]\<rparr>\<rparr>"
  have "insert_row pk_ometa ?r (t_ometa (tabs d)) = Some (t_ometa (tabs d) @ [?r])"
    using Cons.prems(2) by (intro insert_row_fresh) (simp add: meta_rows_def x)
  then have "insert_ometa ?r d = (Inr (), ?d)"
    unfolding insert_ometa_def by (intro stmt_nofault) (simp_all add: Cons.prems)
  with Cons.IH [of ?d] Cons.prems show ?case by (simp add: x meta_rows_def)
qed (simp add: meta_rows_def)

text \<open>The rows a put adds do not collide with each other or with what the put leaves.\<close>

lemma uniq_chunk_rows: "distinct (map mc_seq chunks) \<Longrightarrow> uniq pk_chunk (chunk_rows b k chunks)"
  by (auto simp: uniq_def chunk_rows_def pk_chunk_def comp_def distinct_map inj_on_def)

lemma uniq_seq_replica_rows: "uniq pk_replica (seq_replica_rows b k s reps)"
proof -
  have "map pk_replica (seq_replica_rows b k s reps) =
      map (\<lambda>i. (b, k, s, int i)) [0..<length reps]"
    by (rule nth_equalityI)
       (simp_all add: seq_replica_rows_def replica_row_of_def nth_enumerate_eq pk_replica_def)
  then show ?thesis by (simp add: uniq_def distinct_map inj_on_def)
qed

lemma replica_rows_seq: "q \<in> set (replica_rows b k chunks) \<Longrightarrow> r_seq q \<in> mc_seq ` set chunks"
  by (auto simp: replica_rows_def dest!: seq_replica_rows_key)

lemma uniq_replica_rows: "distinct (map mc_seq chunks) \<Longrightarrow> uniq pk_replica (replica_rows b k chunks)"
proof (induction chunks)
  case (Cons c cs)
  have "pk_replica ` set (seq_replica_rows b k (mc_seq c) (mc_replicas c)) \<inter>
      pk_replica ` set (replica_rows b k cs) = {}"
    using Cons.prems
    by (auto simp: pk_replica_def dest!: replica_rows_seq seq_replica_rows_key) (metis image_eqI)
  moreover have "uniq pk_replica (replica_rows b k cs)" using Cons by simp
  ultimately show ?case
    using uniq_seq_replica_rows by (simp add: replica_rows_def uniq_append)
qed (simp add: replica_rows_def)

lemma uniq_meta_rows: "distinct (map fst kv) \<Longrightarrow> uniq pk_ometa (meta_rows b k kv)"
  by (auto simp: uniq_def meta_rows_def pk_ometa_def comp_def case_prod_unfold distinct_map inj_on_def)

lemma replaceObjectChunksTx_nofault:
  assumes "nofault d" and "wf d" and "distinct (map mc_seq chunks)"
  shows "replaceObjectChunksTx b k chunks d = (Inr (), d\<lparr>tabs := (tabs d)\<lparr>
    t_chunks := delete_rows (\<lambda>r. c_bucket r = b \<and> c_key r = k) (t_chunks (tabs d)) @ chunk_rows b k chunks,
    t_replicas := delete_rows (\<lambda>r. r_bucket r = b \<and> r_key r = k) (t_replicas (tabs d)) @ replica_rows b k chunks\<rparr>\<rparr>)"
proof -
  let ?cs = "delete_rows (\<lambda>r. c_bucket r = b \<and> c_key r = k) (t_chunks (tabs d))"
  let ?rs = "delete_rows (\<lambda>r. r_bucket r = b \<and> r_key r = k) (t_replicas (tabs d))"
  have "uniq pk_chunk ?cs" and "uniq pk_replica ?rs"
    using assms(2) by (auto simp: wf_tables_def)
  moreover have "pk_chunk ` set ?cs \<inter> pk_chunk ` set (chunk_rows b k chunks) = {}"
    by (auto simp: pk_chunk_def chunk_rows_def)
  moreover have "pk_replica ` set ?rs \<inter> pk_replica ` set (replica_rows b k chunks) = {}"
    by (auto simp: pk_replica_def replica_rows_def dest!: seq_replica_rows_key)
  ultimately have "uniq pk_chunk (?cs @ chunk_rows b k chunks)"
    and "uniq pk_replica (?rs @ replica_rows b k chunks)"
    using assms(3) by (auto simp: uniq_append uniq_chunk_rows uniq_replica_rows)
  then show ?thesis
    using assms(1) insert_chunks_nofault [of "d\<lparr>tabs := (tabs d)\<lparr>t_replicas := ?rs, t_chunks := ?cs\<rparr>\<rparr>" b k chunks]
    by (simp add: replaceObjectChunksTx_def delete_replicas_def delete_chunks_def)
qed

lemma replaceObjectMetadataTx_nofault:
  assumes "nofault d" and "wf d" and "distinct (map fst kv)"
  shows "replaceObjectMetadataTx b k kv d = (Inr (), d\<lparr>tabs := (tabs d)\<lparr>t_ometa :=
    delete_rows (\<lambda>r. om_bucket r = b \<and> om_key r = k) (t_ometa (tabs d)) @ meta_rows b k kv\<rparr>\<rparr>)"
proof -
  let ?ms = "delete_rows (\<lambda>r. om_bucket r = b \<and> om_key r = k) (t_ometa (tabs d))"
  have "uniq pk_ometa ?ms" using assms(2) by (auto simp: wf_tables_def)
  moreover have "pk_ometa ` set ?ms \<inter> pk_ometa ` set (meta_rows b k kv) = {}"
    by (auto simp: pk_ometa_def meta_rows_def)
  ultimately have "uniq pk_ometa (?ms @ meta_rows b k kv)"
    using assms(3) by (auto simp: uniq_append uniq_meta_rows)
  then show ?thesis
    using assms(1) insert_metas_nofault [of "d\<lparr>tabs := (tabs d)\<lparr>t_ometa := ?ms\<rparr>\<rparr>" b k kv]
    by (simp add: replaceObjectMetadataTx_def delete_ometa_def)
qed

lemma upsertObjectRowTx_nofault:
  assumes "nofault d" and "ob_bucket obj \<in> b_name ` set (t_buckets (tabs d))"
  shows "upsertObjectRowTx obj d =
    (Inr (), d\<lparr>tabs := (tabs d)\<lparr>t_objects := upsert_rows obj (t_objects (tabs d))\<rparr>\<rparr>)"
  unfolding upsertObjectRowTx_def
  using assms by (intro stmt_nofault) (auto simp: upsert_rows_def Let_def)

lemma stamp_simps [simp]:
  "ob_bucket (stamp now obj) = ob_bucket obj" "ob_key (stamp now obj) = ob_key obj"
  "ob_meta (stamp now obj) = ob_meta obj" "ob_size (stamp now obj) = ob_size obj"
  "ob_etag (stamp now obj) = ob_etag obj" "ob_ctype (stamp now obj) = ob_ctype obj"
  "ob_updated (stamp now obj) = now"
  by (simp_all add: stamp_def Let_def)

lemma put_steps_nofault:
  assumes "nofault d" and "wf d" and "ob_bucket obj \<in> b_name ` set (t_buckets (tabs d))"
    and "distinct (map mc_seq chunks)" and "distinct (map fst (ob_meta obj))"
  shows "thenE (upsertObjectRowTx obj) (thenE (replaceObjectChunksTx (ob_bucket obj) (ob_key obj) chunks)
      (thenE (replaceObjectMetadataTx (ob_bucket obj) (ob_key obj) (ob_meta obj)) n)) d =
    n (d\<lparr>tabs := put_tables obj chunks (tabs d)\<rparr>)"
proof -
  let ?d1 = "d\<lparr>tabs := (tabs d)\<lparr>t_objects := upsert_rows obj (t_objects (tabs d))\<rparr>\<rparr>"
  have up: "upsertObjectRowTx obj d = (Inr (), ?d1)"
    using assms by (simp add: upsertObjectRowTx_nofault)
  have wf1: "wf ?d1"
    using keepsD' [OF keeps_upsertObjectRowTx assms(2) up] by simp
  have ch: "replaceObjectChunksTx (ob_bucket obj) (ob_key obj) chunks ?d1 = (Inr (), ?d1\<lparr>tabs := (tabs ?d1)\<lparr>
    t_chunks := delete_rows (\<lambda>r. c_bucket r = ob_bucket obj \<and> c_key r = ob_key obj) (t_chunks (tabs d))
      @ chunk_rows (ob_bucket obj) (ob_key obj) chunks,
    t_replicas := delete_rows (\<lambda>r. r_bucket r = ob_bucket obj \<and> r_key r = ob_key obj) (t_replicas (tabs d))
      @ replica_rows (ob_bucket obj) (ob_key obj) chunks\<rparr>\<rparr>)" (is "_ = (_, ?d2)")
    using assms wf1 by (simp add: replaceObjectChunksTx_nofault)
  have wf2: "wf ?d2" by (rule keepsD' [OF keeps_replaceObjectChunksTx wf1 ch])
  have md: "replaceObjectMetadataTx (ob_bucket obj) (ob_key obj) (ob_meta obj) ?d2 =
      (Inr (), d\<lparr>tabs := put_tables obj chunks (tabs d)\<rparr>)"
    using assms wf2 by (simp add: replaceObjectMetadataTx_nofault put_tables_def Let_def)
  show ?thesis using up ch md by (simp add: thenE_def bindE_def)
qed

lemma PutObject_nofault:
  assumes "nofault d" and "wf d" and "ob_bucket obj \<in> b_name ` set (t_buckets (tabs d))"
    and "distinct (map mc_seq chunks)" and "distinct (map fst (ob_meta obj))"
  shows "PutObject now obj chunks d =
    (Inr (), d\<lparr>tabs := put_tables (stamp now obj) chunks (tabs d)\<rparr>)"
  unfolding PutObject_def Let_def
  by (rule tx_commit_nofault) (use assms in \<open>simp_all add: put_steps_nofault [where obj = "stamp now obj", simplified]\<close>)

lemma FinalizeMultipartUpload_nofault:
  assumes "nofault d" and "wf d" and "ob_bucket obj \<in> b_name ` set (t_buckets (tabs d))"
    and "distinct (map mc_seq chunks)" and "distinct (map fst (ob_meta obj))"
  shows "FinalizeMultipartUpload now obj chunks uid d =
    (Inr (), d\<lparr>tabs := drop_upload uid (put_tables (stamp now obj) chunks (tabs d))\<rparr>)"
proof -
  have "deleteMultipartTx uid d' = (Inr (), d'\<lparr>tabs := drop_upload uid (tabs d')\<rparr>)" if "nofault d'" for d'
    using that by (simp add: deleteMultipartTx_def delete_preplicas_def delete_pchunks_def drop_upload_def)
  then show ?thesis
    unfolding FinalizeMultipartUpload_def Let_def
    by (intro tx_commit_nofault) (use assms in \<open>simp_all add: put_steps_nofault [where obj = "stamp now obj", simplified]\<close>)
qed

section \<open>The interface: a map with fallible writes\<close>

text \<open>
  A client's writes, each tagged after its run with whether it succeeded, and the map a client
  has in mind: a successful put binds its key, a successful delete unbinds it, a failed write
  does nothing.
\<close>

datatype ('k, 'w) wreq = Put 'w | Del 'k

fun run_write :: "('w \<Rightarrow> ('s, unit) act) \<Rightarrow> ('k \<Rightarrow> ('s, unit) act) \<Rightarrow> ('k, 'w) wreq \<Rightarrow> ('s, unit) act" where
  "run_write put del (Put w) s = put w s"
| "run_write put del (Del k) s = del k s"

fun succeeded :: "goerr + unit \<Rightarrow> bool" where
  "succeeded (Inl e) = False"
| "succeeded (Inr u) = True"

fun run_writes :: "('w \<Rightarrow> ('s, unit) act) \<Rightarrow> ('k \<Rightarrow> ('s, unit) act) \<Rightarrow> ('k, 'w) wreq list \<Rightarrow> 's \<Rightarrow>
    (('k, 'w) wreq \<times> bool) list \<times> 's" where
  "run_writes put del [] s = ([], s)"
| "run_writes put del (x # xs) s =
     (case run_write put del x s of (r, s') \<Rightarrow>
        (case run_writes put del xs s' of (tr, s'') \<Rightarrow> ((x, succeeded r) # tr, s'')))"

fun replay :: "('w \<Rightarrow> 'k) \<Rightarrow> ('w \<Rightarrow> 'v) \<Rightarrow> (('k, 'w) wreq \<times> bool) list \<Rightarrow> ('k \<rightharpoonup> 'v) \<Rightarrow> ('k \<rightharpoonup> 'v)" where
  "replay key val [] m = m"
| "replay key val ((x, ok) # tr) m = replay key val tr
     (if \<not> ok then m else case x of Put w \<Rightarrow> m(key w \<mapsto> val w) | Del k \<Rightarrow> m(k := None))"

definition good_writes :: "('w \<Rightarrow> bool) \<Rightarrow> ('k, 'w) wreq list \<Rightarrow> bool" where
  "good_writes good xs \<longleftrightarrow> list_all (\<lambda>x. case x of Put w \<Rightarrow> good w | Del _ \<Rightarrow> True) xs"

fun touches :: "('w \<Rightarrow> 'k) \<Rightarrow> 'k \<Rightarrow> ('k, 'w) wreq \<Rightarrow> bool" where
  "touches key k (Put w) = (key w = k)"
| "touches key k (Del k') = (k' = k)"

lemma run_writes_fst: "run_writes put del xs s = (tr, s') \<Longrightarrow> map fst tr = xs"
  by (induction xs arbitrary: s tr) (auto split: prod.splits)

lemma replay_untouched:
  "list_all (\<lambda>(x, _). \<not> touches key k x) tr \<Longrightarrow> replay key val tr m k = m k"
proof (induction tr arbitrary: m)
  case (Cons p tr)
  then show ?case by (cases p; cases "fst p") auto
qed simp

locale object_map =
  fixes inv :: "'s \<Rightarrow> bool"
    and get :: "'s \<Rightarrow> 'k \<rightharpoonup> 'v"
    and put :: "'w \<Rightarrow> ('s, unit) act"
    and del :: "'k \<Rightarrow> ('s, unit) act"
    and key :: "'w \<Rightarrow> 'k"
    and val :: "'w \<Rightarrow> 'v"
    and good :: "'w \<Rightarrow> bool"
  assumes put_inv: "inv s \<Longrightarrow> put w s = (r, s') \<Longrightarrow> inv s'"
    and del_inv: "inv s \<Longrightarrow> del k s = (r, s') \<Longrightarrow> inv s'"
    and put_ok: "inv s \<Longrightarrow> good w \<Longrightarrow> put w s = (Inr (), s') \<Longrightarrow> get s' = (get s)(key w \<mapsto> val w)"
    and put_err: "put w s = (Inl e, s') \<Longrightarrow> get s' = get s"
    and del_ok: "del k s = (Inr (), s') \<Longrightarrow> get s' = (get s)(k := None)"
    and del_err: "del k s = (Inl e, s') \<Longrightarrow> get s' = get s"
begin

lemma step_inv: "inv s \<Longrightarrow> run_write put del x s = (r, s') \<Longrightarrow> inv s'"
  by (cases x) (auto intro: put_inv del_inv)

lemma step_get:
  assumes "inv s" and "good_writes good [x]" and "run_write put del x s = (r, s')"
  shows "get s' = replay key val [(x, succeeded r)] (get s)"
  using assms by (cases x; cases r) (auto simp: good_writes_def put_ok put_err del_ok del_err)

lemma run_replay:
  assumes "inv s" and "good_writes good xs" and "run_writes put del xs s = (tr, s')"
  shows "inv s' \<and> get s' = replay key val tr (get s)"
  using assms
proof (induction xs arbitrary: s tr)
  case (Cons x xs)
  obtain r s1 where st: "run_write put del x s = (r, s1)" by (metis surj_pair)
  obtain tr1 where tr1: "run_writes put del xs s1 = (tr1, s')" and tr: "tr = (x, succeeded r) # tr1"
    using Cons.prems(3) st by (auto split: prod.splits)
  have good: "good_writes good [x]" "good_writes good xs"
    using Cons.prems(2) by (simp_all add: good_writes_def)
  have "inv s' \<and> get s' = replay key val tr1 (get s1)"
    using step_inv [OF Cons.prems(1) st] good(2) tr1 by (rule Cons.IH)
  with step_get [OF Cons.prems(1) good(1) st] show ?case by (simp add: tr)
qed simp

text \<open>Last writer wins: what was put stays readable until its own key is written again.\<close>

lemma put_survives:
  assumes "inv s" and "good w" and "put w s = (Inr (), s1)"
    and "good_writes good xs" and "list_all (\<lambda>x. \<not> touches key (key w) x) xs"
    and "run_writes put del xs s1 = (tr, s2)"
  shows "get s2 (key w) = Some (val w)"
proof -
  have "list_all (\<lambda>(x, _). \<not> touches key (key w) x) tr"
    using assms(5) run_writes_fst [OF assms(6)] by (fastforce simp: list_all_iff)
  moreover have "get s2 = replay key val tr (get s1)"
    using run_replay [OF put_inv [OF assms(1,3)] assms(4,6)] by simp
  ultimately show ?thesis using assms(1,2,3) by (simp add: replay_untouched put_ok)
qed

end

section \<open>The metadata store provides it\<close>

text \<open>
  What the client sees of a stored object: everything it wrote and the modification time. The
  creation time is left out: an overwrite keeps the first one (\<open>upserted_row\<close>).
\<close>

record content =
  ct_size :: int
  ct_etag :: string
  ct_ctype :: string
  ct_updated :: time
  ct_chunks :: "mchunk list"
  ct_meta :: "(string \<times> string) list"

definition content_of :: "stored \<Rightarrow> content" where
  "content_of v = \<lparr>ct_size = o_size (st_row v), ct_etag = o_etag (st_row v),
     ct_ctype = o_ctype (st_row v), ct_updated = o_updated (st_row v),
     ct_chunks = st_chunks v, ct_meta = st_meta v\<rparr>"

definition contents :: "db \<Rightarrow> string \<times> string \<rightharpoonup> content" where
  "contents d = map_option content_of \<circ> lookup (tabs d)"

type_synonym put_request = "time \<times> object \<times> mchunk list"

definition put_req :: "put_request \<Rightarrow> (db, unit) act" where
  "put_req = (\<lambda>(now, obj, chunks). PutObject now obj chunks)"

definition del_req :: "string \<times> string \<Rightarrow> (db, unit) act" where
  "del_req = (\<lambda>(b, k). DeleteObject b k)"

definition req_key :: "put_request \<Rightarrow> string \<times> string" where
  "req_key = (\<lambda>(_, obj, _). (ob_bucket obj, ob_key obj))"

definition req_content :: "put_request \<Rightarrow> content" where
  "req_content = (\<lambda>(now, obj, chunks). \<lparr>ct_size = ob_size obj, ct_etag = ob_etag obj,
     ct_ctype = ob_ctype obj, ct_updated = now, ct_chunks = chunks, ct_meta = ob_meta obj\<rparr>)"

definition req_good :: "put_request \<Rightarrow> bool" where
  "req_good = (\<lambda>(_, _, chunks). ascending chunks)"

lemma content_of_stored_of [simp]:
  "content_of (stored_of (stamp now obj) chunks t) = req_content (now, obj, chunks)"
  by (simp add: content_of_def stored_of_def upserted_row_def req_content_def)

lemma contents_put:
  assumes "wf d" and "ascending chunks" and "PutObject now obj chunks d = (Inr (), d')"
  shows "contents d' = (contents d)((ob_bucket obj, ob_key obj) \<mapsto> req_content (now, obj, chunks))"
  using lookup_put [OF assms(1,2), of "stamp now obj"] PutObject_effect [OF assms(3)]
  by (auto simp: contents_def fun_eq_iff)

lemma contents_delete:
  "DeleteObject b k d = (Inr (), d') \<Longrightarrow> contents d' = (contents d)((b, k) := None)"
  by (drule lookup_delete) (auto simp: contents_def fun_eq_iff)

interpretation store: object_map wf contents put_req del_req req_key req_content req_good
proof
  fix d w r d' assume "wf d" "put_req w d = (r, d')"
  then show "wf d'"
    by (cases w) (auto simp: put_req_def intro: keepsD' [OF keeps_PutObject])
next
  fix d k r d' assume "wf d" "del_req k d = (r, d')"
  then show "wf d'"
    by (cases k) (auto simp: del_req_def intro: keepsD' [OF keeps_DeleteObject])
next
  fix d w d' assume "wf d" "req_good w" "put_req w d = (Inr (), d')"
  then show "contents d' = (contents d)(req_key w \<mapsto> req_content w)"
    by (cases w) (auto simp: put_req_def req_good_def req_key_def contents_put)
next
  fix w d e d' assume "put_req w d = (Inl e, d')"
  moreover have "atomic (put_req w)"
    by (cases w) (simp add: put_req_def PutObject_def Let_def atomic_tx)
  ultimately show "contents d' = contents d" by (auto simp: atomic_def contents_def)
next
  fix k d d' assume "del_req k d = (Inr (), d')"
  then show "contents d' = (contents d)(k := None)"
    by (cases k) (auto simp: del_req_def contents_delete)
next
  fix k d e d' assume "del_req k d = (Inl e, d')"
  moreover have "atomic (del_req k)"
    by (cases k) (simp add: del_req_def DeleteObject_def atomic_tx)
  ultimately show "contents d' = contents d" by (auto simp: atomic_def contents_def)
qed

section \<open>Properties\<close>

text \<open>The concrete database and put the witnesses evaluate.\<close>

definition w_obj :: object where
  "w_obj = \<lparr>ob_bucket = ''b'', ob_key = ''k'', ob_size = 5, ob_etag = ''e'', ob_ctype = ''t'',
     ob_created = 0, ob_updated = 0, ob_meta = [(''m'', ''v'')]\<rparr>"

definition w_chunks :: "mchunk list" where
  "w_chunks =
     [\<lparr>mc_seq = 0, mc_size = 3, mc_offset = 0,
       mc_replicas = [\<lparr>mr_provider = ''p'', mr_locator = ''l'', mr_token = [], mr_alive = True\<rparr>,
         \<lparr>mr_provider = ''q'', mr_locator = ''m'', mr_token = ''s'', mr_alive = False\<rparr>]\<rparr>,
      \<lparr>mc_seq = 1, mc_size = 2, mc_offset = 3, mc_replicas = []\<rparr>]"

definition w_db :: db where
  "w_db = \<lparr>tabs = migrate\<lparr>t_buckets := [\<lparr>b_name = ''b'', b_created = 1\<rparr>]\<rparr>, faults = []\<rparr>"

lemma w_db_wf: "wf w_db" "nofault w_db"
  by (simp_all add: w_db_def wf_tables_def migrate_def uniq_def)

lemma w_chunks_ascending: "ascending w_chunks"
  by (simp add: w_chunks_def)

text \<open>
  C11 (refinement). Any sequence of puts and deletes acts on the store as on a map from bucket and
  key to contents: the contents afterwards are those of replaying, in order, exactly the writes
  that succeeded, whatever faults the database had on the way.
\<close>

theorem store_refines_map:
  assumes "wf d" and "good_writes req_good xs" and "run_writes put_req del_req xs d = (tr, d')"
  shows "contents d' = replay req_key req_content tr (contents d)"
  using store.run_replay [OF assms] by simp

theorem store_refines_map_witness:
  "contents (snd (run_writes put_req del_req [Put (7, w_obj, w_chunks), Del (''b'', ''other'')] w_db)) (''b'', ''k'')
   = Some \<lparr>ct_size = 5, ct_etag = ''e'', ct_ctype = ''t'', ct_updated = 7, ct_chunks = w_chunks,
        ct_meta = [(''m'', ''v'')]\<rparr>"
proof -
  let ?xs = "[Put (7, w_obj, w_chunks), Del (''b'', ''other'')]"
  have "good_writes req_good ?xs" by (simp add: good_writes_def req_good_def w_chunks_def)
  with w_db_wf(1) have "contents (snd (run_writes put_req del_req ?xs w_db)) =
      replay req_key req_content (fst (run_writes put_req del_req ?xs w_db)) (contents w_db)"
    by (rule store_refines_map) simp
  moreover have "map snd (fst (run_writes put_req del_req ?xs w_db)) = [True, True]" by code_simp
  then have "fst (run_writes put_req del_req ?xs w_db) =
      [(Put (7, w_obj, w_chunks), True), (Del (''b'', ''other''), True)]"
    using run_writes_fst [of put_req del_req ?xs w_db] by (cases "run_writes put_req del_req ?xs w_db") auto
  ultimately show ?thesis by (simp add: req_key_def req_content_def w_obj_def)
qed

text \<open>After a put that succeeded, the three queries of the read path give back what it stored.\<close>

lemma reads_after_put:
  assumes "wf d" and "ascending chunks" and "PutObject now obj chunks d = (Inr (), d')" and "nofault d'"
  shows "fst (GetObjectChunks (ob_bucket obj) (ob_key obj) d') = Inr chunks \<and>
    fst (GetObjectMetadata (ob_bucket obj) (ob_key obj) d') = Inr (ob_meta obj) \<and>
    (\<exists>created. fst (GetObject (ob_bucket obj) (ob_key obj) d') =
       Inr (obj\<lparr>ob_created := created, ob_updated := now, ob_meta := []\<rparr>))"
proof -
  have eff: "tabs d' = put_tables (stamp now obj) chunks (tabs d)"
    using assms(3) by (rule PutObject_effect)
  have "wf d'" using keepsD' [OF keeps_PutObject assms(1,3)] .
  then show ?thesis
    using assms lookup_put [OF assms(1,2), of "stamp now obj"] read_chunks_put [OF assms(2), of "stamp now obj" "tabs d"]
      read_meta_put [of "stamp now obj" chunks "tabs d"]
    by (auto simp: GetObjectChunks_read GetObjectMetadata_read GetObject_lookup eff stored_of_def
          object_of_row_def upserted_row_def intro!: object.equality)
qed

end
