(* ===== verification/StoreHeal.thy ===== *)
theory StoreHeal
  imports StoreMap
begin

text \<open>
  The operations of the store that change the replicas of one chunk: \<open>UpdateChunkReplicas\<close> of
  the keepalive pass, \<open>AppendChunkReplica\<close> of the background replication, \<open>MarkReplicaDead\<close>; and
  \<open>FinalizeMultipartUpload\<close>, which turns an upload into an object in one step.
\<close>

section \<open>Sorting with one row more\<close>

lemma insort_key_snoc: "f x \<le> f q \<Longrightarrow> insort_key f x (ys @ [q]) = insort_key f x ys @ [q]"
  by (induction ys) auto

lemma sort_key_snoc:
  "(\<And>x. x \<in> set xs \<Longrightarrow> f x \<le> f q) \<Longrightarrow> sort_key f (xs @ [q]) = sort_key f xs @ [q]"
  by (induction xs) (auto simp: insort_key_snoc)

section \<open>The chunk map with one chunk's replicas replaced\<close>

definition set_replicas :: "int \<Rightarrow> (mreplica list \<Rightarrow> mreplica list) \<Rightarrow> mchunk list \<Rightarrow> mchunk list" where
  "set_replicas s f = map (\<lambda>c. if mc_seq c = s then c\<lparr>mc_replicas := f (mc_replicas c)\<rparr> else c)"

lemma read_chunks_set_replicas:
  assumes "t_chunks t' = t_chunks t"
    and "read_replicas t' b k s = f (read_replicas t b k s)"
    and "\<And>s'. s' \<noteq> s \<Longrightarrow> read_replicas t' b k s' = read_replicas t b k s'"
  shows "read_chunks t' b k = set_replicas s f (read_chunks t b k)"
  using assms by (auto simp: read_chunks_def set_replicas_def chunk_of_row_def)

lemma read_chunks_same_replicas:
  assumes "t_chunks t' = t_chunks t" and "\<And>s. read_replicas t' b k s = read_replicas t b k s"
  shows "read_chunks t' b k = read_chunks t b k"
  using assms by (simp add: read_chunks_def)

text \<open>A change to the replicas of one chunk, seen through \<open>lookup\<close>.\<close>

lemma lookup_set_replicas:
  assumes "t_chunks t' = t_chunks t" and "t_objects t' = t_objects t" and "t_ometa t' = t_ometa t"
    and here: "read_replicas t' b k s = f (read_replicas t b k s)"
    and others: "\<And>b' k' s'. (b', k', s') \<noteq> (b, k, s) \<Longrightarrow> read_replicas t' b' k' s' = read_replicas t b' k' s'"
  shows "lookup t' p = (if p = (b, k)
    then map_option (\<lambda>v. v\<lparr>st_chunks := set_replicas s f (st_chunks v)\<rparr>) (lookup t p) else lookup t p)"
proof -
  obtain b' k' where p: "p = (b', k')" by (cases p)
  have "live_rows t' b' k' = live_rows t b' k'" and "read_meta t' b' k' = read_meta t b' k'"
    using assms(2,3) by (simp_all add: live_rows_def read_meta_def)
  moreover have "read_chunks t' b k = set_replicas s f (read_chunks t b k)"
    using assms(1) here by (rule read_chunks_set_replicas) (simp add: others)
  moreover have "read_chunks t' b' k' = read_chunks t b' k'" if "(b', k') \<noteq> (b, k)"
    using assms(1) by (rule read_chunks_same_replicas) (use that others in auto)
  ultimately show ?thesis by (auto simp: p lookup_def split: list.splits)
qed

lemma UpdateChunkReplicas_effect:
  "UpdateChunkReplicas b k s reps d = (Inr (), d') \<Longrightarrow>
   tabs d' = (tabs d)\<lparr>t_replicas :=
     delete_rows (\<lambda>r. r_bucket r = b \<and> r_key r = k \<and> r_seq r = s) (t_replicas (tabs d)) @
     seq_replica_rows b k s reps\<rparr>"
  unfolding UpdateChunkReplicas_def delete_replicas_def
  by (auto elim!: tx_InrE thenE_InrE dest!: exec_InrD insert_replicas_effect)

lemma filter_seq_rows:
  "filter (\<lambda>q. r_bucket q = b \<and> r_key q = k \<and> r_seq q = s) (seq_replica_rows b k s reps) =
     seq_replica_rows b k s reps"
  "(b', k', s') \<noteq> (b, k, s) \<Longrightarrow>
     filter (\<lambda>q. r_bucket q = b' \<and> r_key q = k' \<and> r_seq q = s') (seq_replica_rows b k s reps) = []"
  by (auto simp: filter_empty_conv dest!: seq_replica_rows_key intro: filter_True)

lemma read_replicas_update:
  assumes "UpdateChunkReplicas b k s reps d = (Inr (), d')"
  shows "read_replicas (tabs d') b k s = reps"
    and "(b', k', s') \<noteq> (b, k, s) \<Longrightarrow> read_replicas (tabs d') b' k' s' = read_replicas (tabs d) b' k' s'"
proof -
  note eff = UpdateChunkReplicas_effect [OF assms]
  show "read_replicas (tabs d') b k s = reps"
    by (simp add: read_replicas_def eff filter_seq_rows sort_key_id seq_replica_rows_sorted
        seq_replica_rows_back)
  assume ne: "(b', k', s') \<noteq> (b, k, s)"
  then have del: "filter (\<lambda>q. r_bucket q = b' \<and> r_key q = k' \<and> r_seq q = s')
      (delete_rows (\<lambda>r. r_bucket r = b \<and> r_key r = k \<and> r_seq r = s) rs) =
      filter (\<lambda>q. r_bucket q = b' \<and> r_key q = k' \<and> r_seq q = s') rs" for rs
    by (auto intro!: filter_delete_disjoint)
  show "read_replicas (tabs d') b' k' s' = read_replicas (tabs d) b' k' s'"
    by (simp add: read_replicas_def eff filter_seq_rows(2) [OF ne] del)
qed

section \<open>Appending one replica\<close>

definition may_append :: "tables \<Rightarrow> string \<Rightarrow> string \<Rightarrow> int \<Rightarrow> mreplica \<Rightarrow> string \<Rightarrow> bool" where
  "may_append t b k s r e \<longleftrightarrow>
     (\<exists>o' \<in> set (t_objects t). o_bucket o' = b \<and> o_key o' = k \<and> o_etag o' = e) \<and>
     (\<forall>q \<in> set (t_replicas t). r_bucket q = b \<and> r_key q = k \<and> r_seq q = s \<longrightarrow>
        r_provider q \<noteq> mr_provider r)"

lemma fold_max_ge: "(x :: int) \<le> fold max xs x"
proof (induction xs arbitrary: x)
  case (Cons y ys)
  have "max y x \<le> fold max ys (max y x)" by (rule Cons.IH)
  then show ?case by simp
qed simp

lemma fold_max_ub: "y \<in> set xs \<Longrightarrow> (y :: int) \<le> fold max xs x"
proof (induction xs arbitrary: x)
  case (Cons z zs)
  then show ?case using fold_max_ge [of "max z x" zs] by auto
qed simp

lemma next_replica_idx_fresh:
  assumes "q \<in> set (t_replicas t)" and "r_bucket q = b" and "r_key q = k" and "r_seq q = s"
  shows "r_idx q < next_replica_idx b k s t"
proof -
  let ?is = "map r_idx (filter (\<lambda>r. r_bucket r = b \<and> r_key r = k \<and> r_seq r = s) (t_replicas t))"
  have "r_idx q \<in> set ?is" using assms by auto
  then obtain x xs where idx: "?is = x # xs" and "r_idx q = x \<or> r_idx q \<in> set xs"
    by (cases ?is) auto
  then have "r_idx q \<le> fold max xs x" using fold_max_ge [of x xs] fold_max_ub [of "r_idx q" xs x] by auto
  then show ?thesis by (simp add: next_replica_idx_def Let_def idx)
qed

lemma AppendChunkReplica_nofault:
  assumes "nofault d" and "wf d"
  shows "AppendChunkReplica b k s r e d = (Inr (), if may_append (tabs d) b k s r e
    then d\<lparr>tabs := (tabs d)\<lparr>t_replicas := t_replicas (tabs d) @
      [replica_row_of b k s (next_replica_idx b k s (tabs d)) r]\<rparr>\<rparr> else d)"
proof -
  let ?rows = "filter (\<lambda>o'. o_bucket o' = b \<and> o_key o' = k) (t_objects (tabs d))"
  let ?row = "replica_row_of b k s (next_replica_idx b k s (tabs d)) r"
  have pk: "?rows = [o']" if "o' \<in> set (t_objects (tabs d))" "o_bucket o' = b" "o_key o' = k" for o'
    using uniq_the_row [of pk_object "t_objects (tabs d)" o' "(b, k)"] that assms(2)
    by (simp add: wf_tables_def pk_object_def)
  have "pk_replica ?row \<notin> pk_replica ` set (t_replicas (tabs d))"
    using next_replica_idx_fresh by (fastforce simp: pk_replica_def replica_row_of_def)
  then have ins: "insert_replica ?row d =
      (Inr (), d\<lparr>tabs := (tabs d)\<lparr>t_replicas := t_replicas (tabs d) @ [?row]\<rparr>\<rparr>)"
    unfolding insert_replica_def
    by (intro stmt_nofault) (simp_all add: assms insert_row_def)
  show ?thesis
  proof (cases ?rows)
    case Nil
    then have "\<not> may_append (tabs d) b k s r e" by (auto simp: may_append_def filter_empty_conv)
    with Nil assms(1) show ?thesis by (simp add: AppendChunkReplica_def tx_def bindE_def)
  next
    case (Cons o' os)
    then have o': "o' \<in> set (t_objects (tabs d))" "o_bucket o' = b" "o_key o' = k"
      by (auto dest!: filter_eq_ConsD)
    have same: "o'' = o'" if "o'' \<in> set (t_objects (tabs d))" "o_bucket o'' = b" "o_key o'' = k" for o''
      using pk [OF that] pk [OF o'] by simp
    have one: "may_append (tabs d) b k s r e \<longleftrightarrow> o_etag o' = e \<and>
        filter (\<lambda>q. r_bucket q = b \<and> r_key q = k \<and> r_seq q = s \<and> r_provider q = mr_provider r) (t_replicas (tabs d)) = []"
    proof -
      have "(\<exists>o'' \<in> set (t_objects (tabs d)). o_bucket o'' = b \<and> o_key o'' = k \<and> o_etag o'' = e) \<longleftrightarrow> o_etag o' = e"
        using o' same by blast
      then show ?thesis by (auto simp: may_append_def filter_empty_conv)
    qed
    show ?thesis using assms(1) pk [OF o'] ins
      by (simp add: AppendChunkReplica_def tx_def bindE_def thenE_def one)
  qed
qed

lemma lookup_append:
  assumes "nofault d" and "wf d" and "may_append (tabs d) b k s r e"
  shows "lookup (tabs (snd (AppendChunkReplica b k s r e d))) p = (if p = (b, k)
    then map_option (\<lambda>v. v\<lparr>st_chunks := set_replicas s (\<lambda>reps. reps @ [r]) (st_chunks v)\<rparr>)
      (lookup (tabs d) p) else lookup (tabs d) p)"
proof (rule lookup_set_replicas)
  let ?t = "tabs (snd (AppendChunkReplica b k s r e d))"
  let ?row = "replica_row_of b k s (next_replica_idx b k s (tabs d)) r"
  have t: "?t = (tabs d)\<lparr>t_replicas := t_replicas (tabs d) @ [?row]\<rparr>"
    using assms by (simp add: AppendChunkReplica_nofault)
  have row: "r_bucket ?row = b" "r_key ?row = k" "r_seq ?row = s"
    "r_idx ?row = next_replica_idx b k s (tabs d)"
    by (simp_all add: replica_row_of_def)
  show "t_chunks ?t = t_chunks (tabs d)" "t_objects ?t = t_objects (tabs d)" "t_ometa ?t = t_ometa (tabs d)"
    by (simp_all add: t)
  have "sort_key r_idx (filter (\<lambda>q. r_bucket q = b \<and> r_key q = k \<and> r_seq q = s) (t_replicas (tabs d)) @ [?row]) =
      sort_key r_idx (filter (\<lambda>q. r_bucket q = b \<and> r_key q = k \<and> r_seq q = s) (t_replicas (tabs d))) @ [?row]"
    by (rule sort_key_snoc) (auto simp: row intro!: less_imp_le next_replica_idx_fresh)
  then show "read_replicas ?t b k s = read_replicas (tabs d) b k s @ [r]"
    by (simp add: t read_replicas_def row)
  fix b' k' s' assume "(b', k', s') \<noteq> (b, k, s)"
  then show "read_replicas ?t b' k' s' = read_replicas (tabs d) b' k' s'"
    by (auto simp: t read_replicas_def row)
qed

section \<open>Properties\<close>

text \<open>
  C22 (functional). The background replica insert is guarded: exactly when the object still has
  the expected ETag and the chunk has no replica of that provider, the new replica becomes the
  last one of its chunk and nothing else in the store changes; otherwise the call is a no-op.
\<close>

theorem append_replica_guarded:
  assumes "nofault d" and "wf d"
  shows "fst (AppendChunkReplica b k s r e d) = Inr () \<and>
    lookup (tabs (snd (AppendChunkReplica b k s r e d))) =
      (if may_append (tabs d) b k s r e
       then (lookup (tabs d))((b, k) := map_option
         (\<lambda>v. v\<lparr>st_chunks := set_replicas s (\<lambda>reps. reps @ [r]) (st_chunks v)\<rparr>) (lookup (tabs d) (b, k)))
       else lookup (tabs d))"
  using AppendChunkReplica_nofault [OF assms] lookup_append [OF assms] by (auto simp: fun_eq_iff)

theorem append_replica_guarded_witness:
  "let d = snd (PutObject 7 w_obj w_chunks w_db);
       r = \<lparr>mr_provider = ''new'', mr_locator = ''z'', mr_token = [], mr_alive = True\<rparr>
   in map_option st_chunks (lookup (tabs (snd (AppendChunkReplica ''b'' ''k'' 1 r ''e'' d))) (''b'', ''k'')) =
        Some (set_replicas 1 (\<lambda>reps. reps @ [r]) w_chunks)"
proof -
  let ?d = "snd (PutObject 7 w_obj w_chunks w_db)"
  let ?r = "\<lparr>mr_provider = ''new'', mr_locator = ''z'', mr_token = [], mr_alive = True\<rparr>"
  have "wf ?d" by (rule keepsD [OF keeps_PutObject w_db_wf(1)])
  moreover have "nofault ?d" by code_simp
  moreover have "may_append (tabs ?d) ''b'' ''k'' 1 ?r ''e''" by code_simp
  moreover have "map_option st_chunks (lookup (tabs ?d) (''b'', ''k'')) = Some w_chunks" by code_simp
  ultimately show ?thesis
    using append_replica_guarded [of ?d "''b''" "''k''" 1 ?r "''e''"]
    by (auto simp: Let_def map_option_case split: option.splits)
qed

text \<open>
  The self-heal write replaces the replicas of one chunk by the given ones, in
  order, and changes no other chunk, object or header metadata.
\<close>

lemma update_replicas_exact:
  assumes "UpdateChunkReplicas b k s reps d = (Inr (), d')"
  shows "lookup (tabs d') = (lookup (tabs d))((b, k) := map_option
    (\<lambda>v. v\<lparr>st_chunks := set_replicas s (\<lambda>_. reps) (st_chunks v)\<rparr>) (lookup (tabs d) (b, k)))"
proof
  fix p
  note eff = UpdateChunkReplicas_effect [OF assms]
  show "lookup (tabs d') p = ((lookup (tabs d))((b, k) := map_option
    (\<lambda>v. v\<lparr>st_chunks := set_replicas s (\<lambda>_. reps) (st_chunks v)\<rparr>) (lookup (tabs d) (b, k)))) p"
    using lookup_set_replicas [of "tabs d'" "tabs d" b k s "\<lambda>_. reps" p] read_replicas_update [OF assms]
    by (simp add: eff)
qed

text \<open>No table of the store holds a row of the upload.\<close>

definition upload_rows_gone :: "string \<Rightarrow> tables \<Rightarrow> bool" where
  "upload_rows_gone uid t \<longleftrightarrow>
     (\<forall>r \<in> set (t_uploads t). u_id r \<noteq> uid) \<and> (\<forall>r \<in> set (t_umeta t). um_upload r \<noteq> uid) \<and>
     (\<forall>r \<in> set (t_parts t). p_upload r \<noteq> uid) \<and> (\<forall>r \<in> set (t_pchunks t). pc_upload r \<noteq> uid) \<and>
     (\<forall>r \<in> set (t_preplicas t). pr_upload r \<noteq> uid)"

lemma drop_upload_rows_gone: "upload_rows_gone uid (drop_upload uid t)"
  by (auto simp: upload_rows_gone_def drop_upload_def delete_rows_def)

text \<open>
  C21 (functional). Completing an upload installs the object and removes the upload in one
  step: afterwards the store holds the given chunk map under the object's key, no other object
  changed, and no row of the upload is left; and on an error nothing changed.
\<close>

theorem finalize_atomic:
  assumes "wf d" and "ascending chunks" and "FinalizeMultipartUpload now obj chunks uid d = (r, d')"
  shows "case r of
      Inl e \<Rightarrow> tabs d' = tabs d
    | Inr _ \<Rightarrow> contents d' = (contents d)((ob_bucket obj, ob_key obj) \<mapsto> req_content (now, obj, chunks)) \<and>
        upload_rows_gone uid (tabs d')"
proof (cases r)
  case (Inl e)
  with assms(3) atomic_tx show ?thesis
    by (fastforce simp: FinalizeMultipartUpload_def Let_def atomic_def)
next
  case (Inr u)
  then have eff: "tabs d' = drop_upload uid (put_tables (stamp now obj) chunks (tabs d))"
    using assms(3) FinalizeMultipartUpload_effect by simp
  have "contents d' = (contents d)((ob_bucket obj, ob_key obj) \<mapsto> req_content (now, obj, chunks))"
    using lookup_put [OF assms(1,2), of "stamp now obj"] by (auto simp: contents_def eff fun_eq_iff)
  moreover have "upload_rows_gone uid (tabs d')"
    by (simp add: eff drop_upload_rows_gone)
  ultimately show ?thesis using Inr by simp
qed

theorem finalize_atomic_witness:
  "contents (snd (FinalizeMultipartUpload 7 w_obj w_chunks ''u'' w_db)) (''b'', ''k'') =
    Some (req_content (7, w_obj, w_chunks))"
proof -
  let ?f = "FinalizeMultipartUpload 7 w_obj w_chunks ''u'' w_db"
  have "fst ?f = Inr ()" by code_simp
  moreover have "?f = (fst ?f, snd ?f)" by simp
  note finalize_atomic [OF w_db_wf(1) w_chunks_ascending this]
  ultimately show ?thesis by (simp add: w_obj_def)
qed

end
