(* ===== verification/GoStrings.thy ===== *)
theory GoStrings
  imports Prelude
begin

text \<open>
  The functions of Go's \<^verbatim>\<open>strings\<close> package that the gateway calls, on byte strings, with the facts
  about them that the components use. An index is \<open>None\<close> where Go returns -1.
\<close>

section \<open>Searching\<close>

fun go_index :: "string \<Rightarrow> string \<Rightarrow> nat option" where
  "go_index [] sub = (if sub = [] then Some 0 else None)"
| "go_index (c # cs) sub =
     (if prefix sub (c # cs) then Some 0 else map_option Suc (go_index cs sub))"

lemma go_index_Some:
  "go_index s sub = Some i \<Longrightarrow> prefix sub (drop i s) \<and> (\<forall>j < i. \<not> prefix sub (drop j s))"
proof (induction s arbitrary: i)
  case (Cons c cs)
  show ?case
  proof (cases "prefix sub (c # cs)")
    case False
    with Cons.prems obtain i' where i': "go_index cs sub = Some i'" "i = Suc i'" by auto
    from Cons.IH [OF i'(1)] False i'(2) show ?thesis by (auto simp: less_Suc_eq_0_disj)
  qed (use Cons.prems in auto)
qed (auto split: if_splits)

lemma go_index_bound: "go_index s sub = Some i \<Longrightarrow> i + length sub \<le> length s"
proof (induction s arbitrary: i)
  case (Cons c cs)
  then show ?case by (fastforce split: if_splits dest: prefix_length_le)
qed (auto split: if_splits)

lemma go_index_first:
  assumes "prefix sub (drop i s)" and "\<And>j. j < i \<Longrightarrow> \<not> prefix sub (drop j s)" and "i \<le> length s"
  shows "go_index s sub = Some i"
  using assms
proof (induction s arbitrary: i)
  case (Cons c cs)
  show ?case
  proof (cases i)
    case 0
    with Cons.prems show ?thesis by simp
  next
    case (Suc i')
    have "\<not> prefix sub (c # cs)" using Cons.prems(2) [of 0] Suc by simp
    moreover have "\<not> prefix sub (drop j cs)" if "j < i'" for j
      using Cons.prems(2) [of "Suc j"] Suc that by simp
    then have "go_index cs sub = Some i'"
      using Cons.prems(1,3) Suc by (intro Cons.IH) auto
    ultimately show ?thesis using Suc by simp
  qed
qed auto

text \<open>A match stays the first match under everything that starts like the text up to its end.\<close>

lemma prefix_iff_take: "prefix xs ys \<longleftrightarrow> take (length xs) ys = xs"
  by (metis append_eq_conv_conj prefix_def take_is_prefix)

lemma prefix_drop_take:
  assumes "j + length sub \<le> n" and "take n s = take n s'"
  shows "prefix sub (drop j s) \<longleftrightarrow> prefix sub (drop j s')"
proof -
  have "take (length sub) (drop j xs) = take (length sub) (drop j (take n xs))" for xs :: "'a list"
    using assms(1) by (simp add: drop_take)
  then show ?thesis unfolding prefix_iff_take by (metis assms(2))
qed

lemma go_index_stable:
  assumes "go_index s sub = Some i" and "take (i + length sub) s' = take (i + length sub) s"
  shows "go_index s' sub = Some i"
proof (rule go_index_first)
  note st = go_index_Some [OF assms(1)] and bd = go_index_bound [OF assms(1)]
  have eq: "prefix sub (drop j s') \<longleftrightarrow> prefix sub (drop j s)" if "j \<le> i" for j
    by (rule prefix_drop_take [where n = "i + length sub"]) (use that assms(2) in auto)
  show "prefix sub (drop i s')" using st eq by simp
  show "\<not> prefix sub (drop j s')" if "j < i" for j using st eq that by simp
  have "length (take (i + length sub) s') = i + length sub" using assms(2) bd by simp
  then show "i \<le> length s'" by simp
qed

text \<open>
  The functions below work byte by byte. Go's work rune by rune, which is the same on ASCII text, the
  only text the callers compare with (header names, methods, numbers, hosts).
\<close>

definition IndexByte :: "string \<Rightarrow> char \<Rightarrow> nat option" where
  "IndexByte s c = (let i = length (takeWhile (\<lambda>x. x \<noteq> c) s) in if i < length s then Some i else None)"

definition HasPrefix :: "string \<Rightarrow> string \<Rightarrow> bool" where
  "HasPrefix s p = (take (length p) s = p)"

definition HasSuffix :: "string \<Rightarrow> string \<Rightarrow> bool" where
  "HasSuffix s p = (length p \<le> length s \<and> drop (length s - length p) s = p)"

definition Contains :: "string \<Rightarrow> string \<Rightarrow> bool" where
  "Contains s sub = (go_index s sub \<noteq> None)"

lemma IndexByte_append: "c \<notin> set a \<Longrightarrow> IndexByte (a @ c # b) c = Some (length a)"
proof -
  assume "c \<notin> set a"
  then have "takeWhile (\<lambda>x. x \<noteq> c) (a @ c # b) = a"
    by (metis (mono_tags, lifting) append_Nil2 takeWhile.simps(2) takeWhile_append2)
  then show ?thesis by (simp add: IndexByte_def Let_def)
qed

lemma IndexByte_None: "IndexByte s c = None \<longleftrightarrow> c \<notin> set s"
proof
  assume none: "IndexByte s c = None"
  show "c \<notin> set s"
  proof
    assume "c \<in> set s"
    then obtain a b where "s = a @ c # b" "c \<notin> set a" by (metis split_list_first)
    with none IndexByte_append show False by simp
  qed
next
  assume "c \<notin> set s"
  then have "takeWhile (\<lambda>x. x \<noteq> c) s = s" by (auto simp: takeWhile_eq_all_conv)
  then have "length (takeWhile (\<lambda>x. x \<noteq> c) s) = length s" by (rule arg_cong)
  then show "IndexByte s c = None" unfolding IndexByte_def Let_def by (simp only: less_irrefl if_False)
qed

lemma IndexByte_Some:
  assumes "IndexByte s c = Some i"
  shows "s = take i s @ c # drop (Suc i) s" and "c \<notin> set (take i s)" and "i < length s"
proof -
  have "c \<in> set s" using assms IndexByte_None [of s c] by auto
  then obtain a b where ab: "s = a @ c # b" "c \<notin> set a" by (metis split_list_first)
  with assms have "i = length a" by (simp add: IndexByte_append)
  with ab show "s = take i s @ c # drop (Suc i) s" and "c \<notin> set (take i s)" and "i < length s" by auto
qed

section \<open>Trimming and folding\<close>

abbreviation cr :: char where "cr \<equiv> CHR 0x0D"
abbreviation lf :: char where "lf \<equiv> CHR 0x0A"
abbreviation crlf :: string where "crlf \<equiv> [CHR 0x0D, CHR 0x0A]"
abbreviation dquote :: char where "dquote \<equiv> CHR 0x22"

definition space_chars :: "char list" where
  "space_chars = [CHR 0x09, CHR 0x0A, CHR 0x0B, CHR 0x0C, CHR 0x0D, CHR 0x20]"

definition TrimLeft :: "string \<Rightarrow> char list \<Rightarrow> string" where
  "TrimLeft s chs = dropWhile (\<lambda>c. c \<in> set chs) s"

definition TrimRight :: "string \<Rightarrow> char list \<Rightarrow> string" where
  "TrimRight s chs = rev (dropWhile (\<lambda>c. c \<in> set chs) (rev s))"

definition Trim :: "string \<Rightarrow> char list \<Rightarrow> string" where
  "Trim s chs = TrimRight (TrimLeft s chs) chs"

definition TrimSpace :: "string \<Rightarrow> string" where
  "TrimSpace s = Trim s space_chars"

definition TrimPrefix :: "string \<Rightarrow> string \<Rightarrow> string" where
  "TrimPrefix s p = (if HasPrefix s p then drop (length p) s else s)"

definition TrimSuffix :: "string \<Rightarrow> string \<Rightarrow> string" where
  "TrimSuffix s p = (if HasSuffix s p then take (length s - length p) s else s)"

definition lower_char :: "char \<Rightarrow> char" where
  "lower_char c = (if CHR ''A'' \<le> c \<and> c \<le> CHR ''Z'' then char_of (of_char c + 32 :: nat) else c)"

definition upper_char :: "char \<Rightarrow> char" where
  "upper_char c = (if CHR ''a'' \<le> c \<and> c \<le> CHR ''z'' then char_of (of_char c - 32 :: nat) else c)"

definition ToLower :: "string \<Rightarrow> string" where
  "ToLower s = map lower_char s"

definition EqualFold :: "string \<Rightarrow> string \<Rightarrow> bool" where
  "EqualFold s t = (ToLower s = ToLower t)"

lemma TrimLeft_clean: "(\<And>c. c \<in> set s \<Longrightarrow> c \<notin> set chs) \<Longrightarrow> TrimLeft s chs = s"
  by (simp add: TrimLeft_def dropWhile_eq_self_iff)

lemma TrimRight_clean: "(\<And>c. c \<in> set s \<Longrightarrow> c \<notin> set chs) \<Longrightarrow> TrimRight s chs = s"
  using TrimLeft_clean [of "rev s" chs] by (simp add: TrimRight_def TrimLeft_def)

lemma Trim_clean: "(\<And>c. c \<in> set s \<Longrightarrow> c \<notin> set chs) \<Longrightarrow> Trim s chs = s"
  by (simp add: Trim_def TrimLeft_clean TrimRight_clean)

lemma TrimRight_append: "set b \<subseteq> set chs \<Longrightarrow> TrimRight (a @ b) chs = TrimRight a chs"
proof -
  assume "set b \<subseteq> set chs"
  then have "dropWhile (\<lambda>c. c \<in> set chs) (rev b @ rev a) = dropWhile (\<lambda>c. c \<in> set chs) (rev a)"
    by (subst dropWhile_append2) auto
  then show ?thesis by (simp add: TrimRight_def)
qed

section \<open>Splitting and joining\<close>

fun Split :: "char \<Rightarrow> string \<Rightarrow> string list" where
  "Split sep [] = [[]]"
| "Split sep (c # cs) =
     (if c = sep then [] # Split sep cs else (c # hd (Split sep cs)) # tl (Split sep cs))"

text \<open>\<^verbatim>\<open>strings.SplitN(s, sep, 2)\<close>\<close>

definition SplitN2 :: "char \<Rightarrow> string \<Rightarrow> string list" where
  "SplitN2 sep s = (case IndexByte s sep of None \<Rightarrow> [s] | Some i \<Rightarrow> [take i s, drop (Suc i) s])"

fun Join :: "string \<Rightarrow> string list \<Rightarrow> string" where
  "Join sep [] = []"
| "Join sep [s] = s"
| "Join sep (s # ss) = s @ sep @ Join sep ss"

function Fields :: "string \<Rightarrow> string list" where
  "Fields s =
     (let t = TrimLeft s space_chars in
      if t = [] then []
      else takeWhile (\<lambda>c. c \<notin> set space_chars) t # Fields (dropWhile (\<lambda>c. c \<notin> set space_chars) t))"
  by auto
termination
proof (relation "measure length", goal_cases)
  case (2 s t)
  then have ne: "dropWhile (\<lambda>c. c \<in> set space_chars) s \<noteq> []" by (simp add: TrimLeft_def)
  then have "hd (dropWhile (\<lambda>c. c \<in> set space_chars) s) \<notin> set space_chars" by (rule hd_dropWhile)
  then have "hd t \<notin> set space_chars" using 2 by (simp add: TrimLeft_def)
  moreover have "t \<noteq> []" using 2 by simp
  ultimately have "length (dropWhile (\<lambda>c. c \<notin> set space_chars) t) < length t"
    by (cases t) (auto simp: length_dropWhile_le le_imp_less_Suc)
  moreover have "length t \<le> length s" using 2 by (simp add: TrimLeft_def length_dropWhile_le)
  ultimately show ?case by simp
qed simp

declare Fields.simps [simp del]

lemma Split_nonempty: "Split sep s \<noteq> []"
  by (cases s) auto

lemma Split_Join: "Join [sep] (Split sep s) = s"
proof (induction s)
  case (Cons c cs)
  obtain h t where ht: "Split sep cs = h # t" by (metis Split_nonempty neq_Nil_conv)
  with Cons show ?case by (cases t) auto
qed simp

lemma Split_no_sep: "x \<in> set (Split sep s) \<Longrightarrow> sep \<notin> set x"
proof (induction s arbitrary: x)
  case (Cons c cs)
  obtain h t where ht: "Split sep cs = h # t" by (metis Split_nonempty neq_Nil_conv)
  with Cons show ?case by (auto split: if_splits)
qed simp

lemma Split_chars: "x \<in> set (Split sep s) \<Longrightarrow> c \<in> set x \<Longrightarrow> c \<in> set s"
proof (induction s arbitrary: x)
  case (Cons a s)
  obtain h t where ht: "Split sep s = h # t" by (metis Split_nonempty neq_Nil_conv)
  with Cons.IH [of h] Cons.IH [of x] Cons.prems show ?case by (cases "a = sep") auto
qed simp

lemma Split_append: "sep \<notin> set a \<Longrightarrow> Split sep (a @ sep # b) = a # Split sep b"
  by (induction a) auto

lemma Split_single: "sep \<notin> set a \<Longrightarrow> Split sep a = [a]"
  by (induction a) auto

lemma Split_of_Join: "xs \<noteq> [] \<Longrightarrow> (\<And>x. x \<in> set xs \<Longrightarrow> sep \<notin> set x) \<Longrightarrow> Split sep (Join [sep] xs) = xs"
proof (induction xs)
  case (Cons x xs)
  then show ?case by (cases xs) (auto simp: Split_single Split_append)
qed simp

text \<open>A separator that does not occur before it splits a string in one way only.\<close>

lemma first_sep_unique:
  fixes c :: char
  assumes "a @ c # x = b @ c # y" and "c \<notin> set a" and "c \<notin> set b"
  shows "a = b \<and> x = y"
proof -
  have "length a = length b"
    using IndexByte_append [OF assms(2), of x] IndexByte_append [OF assms(3), of y] assms(1) by simp
  with assms(1) show ?thesis by simp
qed

lemma last_sep_unique:
  fixes c :: char
  assumes "x @ c # a = y @ c # b" and "c \<notin> set a" and "c \<notin> set b"
  shows "x = y \<and> a = b"
proof -
  have "rev a @ c # rev x = rev b @ c # rev y" using arg_cong [OF assms(1), of rev] by simp
  from first_sep_unique [OF this] assms(2,3) show ?thesis by simp
qed

section \<open>Numbers\<close>

datatype num_error = ErrSyntax | ErrRange

definition digit_val :: "nat \<Rightarrow> char \<Rightarrow> nat option" where
  "digit_val base c =
     (let v = (if CHR ''0'' \<le> c \<and> c \<le> CHR ''9'' then Some (of_char c - of_char CHR ''0'')
               else if CHR ''a'' \<le> lower_char c \<and> lower_char c \<le> CHR ''z''
               then Some (of_char (lower_char c) - of_char CHR ''a'' + 10) else None)
      in case v of None \<Rightarrow> None | Some d \<Rightarrow> if d < base then Some d else None)"

fun parse_digits :: "nat \<Rightarrow> string \<Rightarrow> nat \<Rightarrow> nat option" where
  "parse_digits base [] acc = Some acc"
| "parse_digits base (c # cs) acc =
     (case digit_val base c of None \<Rightarrow> None | Some d \<Rightarrow> parse_digits base cs (acc * base + d))"

text \<open>
  \<^verbatim>\<open>strconv.ParseInt(s, base, 64)\<close> for an explicit base, and \<^verbatim>\<open>strconv.Atoi\<close> on a 64-bit platform: the
  value and the error; out of range the value is the nearest bound.
\<close>

definition ParseInt :: "nat \<Rightarrow> string \<Rightarrow> int \<times> num_error option" where
  "ParseInt base s =
     (if s = [] then (0, Some ErrSyntax)
      else
        let neg = (hd s = CHR ''-'');
            ds = (if hd s = CHR ''-'' \<or> hd s = CHR ''+'' then tl s else s)
        in if ds = [] then (0, Some ErrSyntax)
           else case parse_digits base ds 0 of
             None \<Rightarrow> (0, Some ErrSyntax)
           | Some n \<Rightarrow>
               if \<not> neg \<and> int n \<ge> 2 ^ 63 then (2 ^ 63 - 1, Some ErrRange)
               else if neg \<and> int n > 2 ^ 63 then (- (2 ^ 63), Some ErrRange)
               else (if neg then - int n else int n, None))"

abbreviation Atoi :: "string \<Rightarrow> int \<times> num_error option" where
  "Atoi \<equiv> ParseInt 10"

definition digit_char :: "nat \<Rightarrow> char" where
  "digit_char d = char_of (if d < 10 then d + 48 else d + 87)"

function format_nat :: "nat \<Rightarrow> nat \<Rightarrow> string" where
  "format_nat base n =
     (if base < 2 \<or> n < base then [digit_char n] else format_nat base (n div base) @ [digit_char (n mod base)])"
  by auto
termination by (relation "measure snd") (auto simp: div_less_dividend)

declare format_nat.simps [simp del]

definition FormatInt :: "int \<Rightarrow> string" where
  "FormatInt i = (if i < 0 then CHR ''-'' # format_nat 10 (nat (- i)) else format_nat 10 (nat i))"

lemma ParseInt_bounds:
  assumes "ParseInt base s = (v, e)"
  shows "- (2 ^ 63) \<le> v" and "v < 2 ^ 63"
  using assms by (auto simp: ParseInt_def Let_def split: if_splits option.splits)

text \<open>Formatting a number and parsing it again.\<close>

definition hex_alphabet :: "char set" where
  "hex_alphabet = set ''0123456789abcdef''"

lemma hex_alphabet_not [simp]:
  "CHR ''-'' \<notin> hex_alphabet" "CHR ''+'' \<notin> hex_alphabet" "CHR '','' \<notin> hex_alphabet"
  "CHR '';'' \<notin> hex_alphabet" "cr \<notin> hex_alphabet" "lf \<notin> hex_alphabet"
  by (simp_all add: hex_alphabet_def)

lemma hex_not_space: "c \<in> hex_alphabet \<Longrightarrow> c \<notin> set space_chars"
  by (auto simp: hex_alphabet_def space_chars_def)

lemma digit_chars_16:
  "list_all (\<lambda>d. digit_val 16 (digit_char d) = Some d \<and> digit_char d \<in> hex_alphabet) [0..<16]"
  unfolding hex_alphabet_def by code_simp

lemma digit_char_val:
  assumes "d < base" and "base \<le> 16"
  shows "digit_val base (digit_char d) = Some d" and "digit_char d \<in> hex_alphabet"
proof -
  have *: "digit_val 16 (digit_char d) = Some d \<and> digit_char d \<in> hex_alphabet"
    using digit_chars_16 assms by (auto simp: list_all_iff)
  then show "digit_char d \<in> hex_alphabet" by simp
  from * show "digit_val base (digit_char d) = Some d"
    using assms by (auto simp: digit_val_def Let_def split: option.splits if_splits)
qed

lemma parse_digits_append:
  "parse_digits base (a @ b) acc = (case parse_digits base a acc of None \<Rightarrow> None | Some v \<Rightarrow> parse_digits base b v)"
  by (induction a arbitrary: acc) (auto split: option.splits)

lemma format_nat_digits:
  assumes "2 \<le> base" and "base \<le> 16"
  shows "parse_digits base (format_nat base n) 0 = Some n" and "format_nat base n \<noteq> []"
    and "set (format_nat base n) \<subseteq> hex_alphabet"
proof (induction n rule: less_induct)
  case (less n)
  {
    case 1
    show ?case
    proof (cases "n < base")
      case False
      then have "n div base < n" using assms(1) by (intro div_less_dividend) auto
      from less(1) [OF this] False assms show ?thesis
        by (subst format_nat.simps) (simp add: parse_digits_append digit_char_val)
    qed (use assms in \<open>subst format_nat.simps, simp add: digit_char_val\<close>)
  next
    case 2
    show ?case by (subst format_nat.simps) simp
  next
    case 3
    show ?case
    proof (cases "n < base")
      case False
      then have "n div base < n" using assms(1) by (intro div_less_dividend) auto
      moreover have "digit_char (n mod base) \<in> hex_alphabet" using assms by (intro digit_char_val(2)) auto
      ultimately show ?thesis using less(3) [of "n div base"] False assms by (subst format_nat.simps) auto
    next
      case True
      then show ?thesis using digit_char_val(2) [OF True assms(2)] by (subst format_nat.simps) auto
    qed
  }
qed

lemma ParseInt_format:
  assumes "2 \<le> base" and "base \<le> 16" and "int n < 2 ^ 63"
  shows "ParseInt base (format_nat base n) = (int n, None)"
proof -
  have "hd (format_nat base n) \<in> hex_alphabet"
    using format_nat_digits(2,3) [OF assms(1,2), of n] by (meson hd_in_set subsetD)
  then have "hd (format_nat base n) \<noteq> CHR ''-'' \<and> hd (format_nat base n) \<noteq> CHR ''+''" by (metis hex_alphabet_not(1,2))
  with format_nat_digits(1,2) [OF assms(1,2), of n] assms(3) show ?thesis by (simp add: ParseInt_def Let_def)
qed

lemma Atoi_FormatInt: "0 \<le> i \<Longrightarrow> i < 2 ^ 63 \<Longrightarrow> Atoi (FormatInt i) = (i, None)"
  using ParseInt_format [of 10 "nat i"] by (simp add: FormatInt_def)

end
