(* ===== verification/Pool.thy ===== *)
theory Pool
  imports GoStrings "HOL-Library.Word" "HOL-Library.Signed_Division" "HOL-Library.Multiset"
begin

text \<open>
  The provider pool, \<^verbatim>\<open>internal/storage/freehost/pool.go\<close>, and the file names of \<^verbatim>\<open>provider.go\<close>: which
  hosts are candidates for a chunk and in what order. The round-robin cursor is a Go \<^verbatim>\<open>int\<close>, kept
  as a 64-bit word, so it wraps as it does in the code.
\<close>

section \<open>Data and operations\<close>

record provider =
  pv_name :: string
  pv_max :: int
  pv_durable :: bool

record pool =
  pl_providers :: "provider list"
  pl_byName :: "string \<rightharpoonup> provider"
  pl_fails :: "string \<Rightarrow> nat"
  pl_rr :: "64 word"

definition failThreshold :: nat where
  "failThreshold = 3"

definition newPool :: "provider list \<Rightarrow> pool" where
  "newPool ps = \<lparr>pl_providers = ps, pl_byName = fold (\<lambda>p m. m(pv_name p \<mapsto> p)) ps Map.empty,
     pl_fails = (\<lambda>_. 0), pl_rr = 0\<rparr>"

definition pool_get :: "pool \<Rightarrow> string \<Rightarrow> provider option" where
  "pool_get p n = pl_byName p n"

definition hasDurable :: "pool \<Rightarrow> bool" where
  "hasDurable p = list_ex pv_durable (pl_providers p)"

definition rotate_left :: "'a list \<Rightarrow> 64 word \<Rightarrow> 'a list" where
  "rotate_left s n =
     (if length s \<le> 1 then s
      else
        let m = sint n smod int (length s);
            m = (if m < 0 then m + int (length s) else m)
        in if m = 0 then s else drop (nat m) s @ take (nat m) s)"

definition candidates :: "int \<Rightarrow> pool \<Rightarrow> provider list \<times> pool" where
  "candidates chunkSize p =
     (let p' = p\<lparr>pl_rr := pl_rr p + 1\<rparr>;
          rot = pl_rr p';
          fits = filter (\<lambda>q. \<not> pv_max q < chunkSize) (pl_providers p);
          healthy = (\<lambda>q. pl_fails p (pv_name q) < failThreshold);
          healthyDur = filter (\<lambda>q. healthy q \<and> pv_durable q) fits;
          healthyTmp = filter (\<lambda>q. healthy q \<and> \<not> pv_durable q) fits;
          coldDur = filter (\<lambda>q. \<not> healthy q \<and> pv_durable q) fits;
          coldTmp = filter (\<lambda>q. \<not> healthy q \<and> \<not> pv_durable q) fits
      in (rotate_left healthyDur rot @ rotate_left healthyTmp rot @ coldDur @ coldTmp, p'))"

definition markHealthy :: "string \<Rightarrow> pool \<Rightarrow> pool" where
  "markHealthy n p = p\<lparr>pl_fails := (pl_fails p)(n := 0)\<rparr>"

definition markFailed :: "string \<Rightarrow> pool \<Rightarrow> pool" where
  "markFailed n p = p\<lparr>pl_fails := (pl_fails p)(n := pl_fails p n + 1)\<rparr>"

text \<open>The file names of a blob: last path segment, benign extension.\<close>

definition trim_right_slash :: "string \<Rightarrow> string" where
  "trim_right_slash s = rev (dropWhile (\<lambda>c. c = CHR ''/'') (rev s))"

definition basename :: "string \<Rightarrow> string" where
  "basename s = rev (takeWhile (\<lambda>c. c \<noteq> CHR ''/'') (rev (trim_right_slash s)))"

definition binName :: "string \<Rightarrow> string" where
  "binName s =
     (let name = basename s in
      if name = [] then ''chunk.bin''
      else if suffix ''.bin'' name then name
      else name @ ''.bin'')"

section \<open>Rotation\<close>

lemma smod_fix:
  assumes "0 < (l :: int)"
  shows "(let m = k smod l in if m < 0 then m + l else m) = k mod l"
proof (cases "0 \<le> k")
  case True
  with assms show ?thesis by (simp add: signed_modulo_int_def sgn_if Let_def not_less pos_mod_sign)
next
  case False
  then have "k smod l = - ((- k) mod l)" using assms by (simp add: signed_modulo_int_def sgn_if)
  moreover have "k mod l = (if (- k) mod l = 0 then 0 else l - (- k) mod l)"
    using zmod_zminus1_eq_if [of "- k" l] by simp
  moreover have "0 \<le> (- k) mod l" using assms by simp
  ultimately show ?thesis by (auto simp: Let_def)
qed

lemma rotate_left_eq: "rotate_left s n = rotate (nat (sint n mod int (length s))) s"
proof (cases "length s \<le> 1")
  case True
  then have "rotate k s = s" for k by (intro rotate_length01) auto
  with True show ?thesis by (simp add: rotate_left_def)
next
  case False
  let ?l = "int (length s)" and ?m = "sint n mod int (length s)"
  have "0 < ?l" using False by auto
  then have m: "0 \<le> ?m" "?m < ?l" by auto
  have "rotate_left s n = (if ?m = 0 then s else drop (nat ?m) s @ take (nat ?m) s)"
    using False smod_fix [OF \<open>0 < ?l\<close>, of "sint n"] by (simp add: rotate_left_def Let_def)
  also have "\<dots> = rotate (nat ?m) s"
    using m by (simp add: rotate_drop_take)
  finally show ?thesis .
qed

lemma mset_rotate: "mset (rotate k xs) = mset xs"
proof (induction k)
  case (Suc k)
  have "mset (rotate1 ys) = mset ys" for ys :: "'a list" by (cases ys) auto
  with Suc show ?case by simp
qed simp

lemma mset_rotate_left [simp]: "mset (rotate_left s n) = mset s"
  by (simp add: rotate_left_eq mset_rotate)

lemma set_rotate_left [simp]: "set (rotate_left s n) = set s"
  by (metis mset_rotate_left set_mset_mset)

lemma rotate_left_Nil [simp]: "rotate_left s n = [] \<longleftrightarrow> s = []"
  by (metis mset_rotate_left mset_zero_iff)

lemma hd_rotate_left:
  assumes "s \<noteq> []"
  shows "hd (rotate_left s n) = s ! nat (sint n mod int (length s))"
proof -
  have "nat (sint n mod int (length s)) < length s" using assms by (simp add: nat_less_iff)
  then show ?thesis using assms by (simp add: rotate_left_eq hd_rotate_conv_nth)
qed

section \<open>The candidates\<close>

definition fitting :: "int \<Rightarrow> pool \<Rightarrow> provider list" where
  "fitting c p = filter (\<lambda>q. c \<le> pv_max q) (pl_providers p)"

definition healthy :: "pool \<Rightarrow> provider \<Rightarrow> bool" where
  "healthy p q \<longleftrightarrow> pl_fails p (pv_name q) < failThreshold"

definition tier :: "pool \<Rightarrow> provider \<Rightarrow> nat" where
  "tier p q = (if healthy p q then (if pv_durable q then 0 else 1) else if pv_durable q then 2 else 3)"

definition anchors :: "int \<Rightarrow> pool \<Rightarrow> provider list" where
  "anchors c p = filter (\<lambda>q. healthy p q \<and> pv_durable q) (fitting c p)"

lemma candidates_fst:
  "fst (candidates c p) = rotate_left (anchors c p) (pl_rr p + 1) @
     rotate_left (filter (\<lambda>q. healthy p q \<and> \<not> pv_durable q) (fitting c p)) (pl_rr p + 1) @
     filter (\<lambda>q. \<not> healthy p q \<and> pv_durable q) (fitting c p) @
     filter (\<lambda>q. \<not> healthy p q \<and> \<not> pv_durable q) (fitting c p)"
  by (simp add: candidates_def Let_def anchors_def fitting_def healthy_def not_less)

lemma candidates_snd [simp]: "snd (candidates c p) = p\<lparr>pl_rr := pl_rr p + 1\<rparr>"
  by (simp add: candidates_def Let_def)

lemma mset_four_way:
  "mset (filter (\<lambda>q. P q \<and> Q q) xs) + mset (filter (\<lambda>q. P q \<and> \<not> Q q) xs) +
   mset (filter (\<lambda>q. \<not> P q \<and> Q q) xs) + mset (filter (\<lambda>q. \<not> P q \<and> \<not> Q q) xs) = mset xs"
  by (induction xs) auto

lemma candidates_mset: "mset (fst (candidates c p)) = mset (fitting c p)"
  using mset_four_way [of "healthy p" pv_durable "fitting c p"]
  by (simp add: candidates_fst anchors_def add.assoc)

lemma candidates_sorted: "sorted (map (tier p) (fst (candidates c p)))"
proof -
  have const: "sorted (map (tier p) xs)" if "\<And>q. q \<in> set xs \<Longrightarrow> tier p q = k" for xs k
    using that by (induction xs) auto
  have "sorted (map (tier p) (rotate_left (anchors c p) n))" for n
    by (rule const [of _ 0]) (simp add: anchors_def tier_def)
  moreover have "sorted (map (tier p) (rotate_left (filter (\<lambda>q. healthy p q \<and> \<not> pv_durable q) xs) n))" for xs n
    by (rule const [of _ 1]) (simp add: tier_def)
  moreover have "sorted (map (tier p) (filter (\<lambda>q. \<not> healthy p q \<and> pv_durable q) xs))" for xs
    by (rule const [of _ 2]) (simp add: tier_def)
  moreover have "sorted (map (tier p) (filter (\<lambda>q. \<not> healthy p q \<and> \<not> pv_durable q) xs))" for xs
    by (rule const [of _ 3]) (simp add: tier_def)
  ultimately show ?thesis
    unfolding candidates_fst by (auto simp: sorted_append tier_def anchors_def)
qed

lemma candidates_names:
  "distinct (map pv_name (pl_providers p)) \<Longrightarrow> distinct (map pv_name (fst (candidates c p)))"
proof -
  assume "distinct (map pv_name (pl_providers p))"
  then have "distinct (map pv_name (fitting c p))" by (simp add: fitting_def distinct_map_filter)
  moreover have "mset (map pv_name (fst (candidates c p))) = mset (map pv_name (fitting c p))"
    by (simp add: candidates_mset)
  ultimately show ?thesis by (metis mset_eq_imp_distinct_iff)
qed

text \<open>The providers that lead the candidate list over a number of calls.\<close>

fun leads :: "int \<Rightarrow> nat \<Rightarrow> pool \<Rightarrow> provider list" where
  "leads c 0 p = []"
| "leads c (Suc k) p = (let (cs, p') = candidates c p in hd cs # leads c k p')"

lemma anchors_rr [simp]: "anchors c (p\<lparr>pl_rr := r\<rparr>) = anchors c p"
  by (simp add: anchors_def fitting_def healthy_def)

lemma sint_plus_one: "0 \<le> sint (w :: 64 word) \<Longrightarrow> sint w + 1 < 2 ^ 63 \<Longrightarrow> sint (w + 1) = sint w + 1"
  by (simp add: sint_word_ariths signed_take_bit_int_eq_self)

lemma leads_anchors:
  assumes "anchors c p \<noteq> []" and "0 \<le> sint (pl_rr p)" and "sint (pl_rr p) + int k < 2 ^ 63"
  shows "leads c k p = map (\<lambda>i. anchors c p ! ((nat (sint (pl_rr p)) + 1 + i) mod length (anchors c p))) [0..<k]"
  using assms
proof (induction k arbitrary: p)
  case (Suc k)
  let ?p = "p\<lparr>pl_rr := pl_rr p + 1\<rparr>" and ?n = "length (anchors c p)"
  have s: "sint (pl_rr p + 1) = sint (pl_rr p) + 1" using Suc.prems by (intro sint_plus_one) auto
  have "hd (fst (candidates c p)) = anchors c p ! nat ((sint (pl_rr p) + 1) mod int ?n)"
    using Suc.prems(1) by (simp add: candidates_fst hd_append hd_rotate_left s)
  also have "nat ((sint (pl_rr p) + 1) mod int ?n) = (nat (sint (pl_rr p)) + 1) mod ?n"
    using Suc.prems(2) by (simp add: nat_mod_distrib nat_add_distrib)
  finally have hd: "hd (fst (candidates c p)) = anchors c p ! ((nat (sint (pl_rr p)) + 1) mod ?n)" .
  have "leads c k ?p = map (\<lambda>i. anchors c p ! ((nat (sint (pl_rr p)) + 2 + i) mod ?n)) [0..<k]"
    using Suc.IH [of ?p] Suc.prems by (simp add: s nat_add_distrib)
  then have "leads c (Suc k) p = anchors c p ! ((nat (sint (pl_rr p)) + 1) mod ?n) #
      map (\<lambda>i. anchors c p ! ((nat (sint (pl_rr p)) + 2 + i) mod ?n)) [0..<k]"
    using hd by (simp add: case_prod_unfold)
  then show ?case
    by (simp add: upt_conv_Cons del: upt_Suc) (simp add: map_Suc_upt [symmetric] del: upt_Suc map_Suc_upt)
qed simp

lemma rotation_permutes:
  assumes "xs \<noteq> []"
  shows "mset (map (\<lambda>i. xs ! ((r + i) mod length xs)) [0..<length xs]) = mset xs"
proof -
  have "map (\<lambda>i. xs ! ((r + i) mod length xs)) [0..<length xs] = rotate r xs"
    by (rule nth_equalityI) (simp_all add: nth_rotate)
  then show ?thesis by (simp add: mset_rotate)
qed

section \<open>Properties\<close>

text \<open>
  C25 (functional). The candidates for a chunk are exactly the providers that can hold it, each
  once, healthy durable ones before healthy temporary ones before failing durable before failing
  temporary; so the first candidate is a healthy durable provider whenever one can hold the chunk.
\<close>

theorem candidates_tiers:
  "mset (fst (candidates c p)) = mset (filter (\<lambda>q. c \<le> pv_max q) (pl_providers p)) \<and>
   sorted (map (tier p) (fst (candidates c p))) \<and>
   (anchors c p \<noteq> [] \<longrightarrow> tier p (hd (fst (candidates c p))) = 0)"
proof -
  have "tier p (hd (fst (candidates c p))) = 0" if "anchors c p \<noteq> []"
  proof -
    have "hd (fst (candidates c p)) = hd (rotate_left (anchors c p) (pl_rr p + 1))"
      using that by (simp add: candidates_fst hd_append)
    also have "\<dots> \<in> set (anchors c p)"
      using hd_in_set [of "rotate_left (anchors c p) (pl_rr p + 1)"] that by simp
    finally show ?thesis by (simp add: anchors_def tier_def)
  qed
  with candidates_mset [of c p] candidates_sorted [of p c] show ?thesis by (simp add: fitting_def)
qed

definition w_pool :: pool where
  "w_pool = newPool [\<lparr>pv_name = ''t'', pv_max = 10, pv_durable = False\<rparr>,
     \<lparr>pv_name = ''d'', pv_max = 10, pv_durable = True\<rparr>, \<lparr>pv_name = ''e'', pv_max = 10, pv_durable = True\<rparr>]"

theorem candidates_tiers_witness:
  "anchors 5 w_pool \<noteq> [] \<and> tier w_pool (hd (fst (candidates 5 w_pool))) = 0"
  using candidates_tiers [of 5 w_pool]
  by (simp add: w_pool_def newPool_def anchors_def fitting_def healthy_def failThreshold_def)

text \<open>
  C26 (functional). Round-robin is fair: over as many selections as there are healthy durable
  providers that can hold the chunk, each of them leads exactly once.
\<close>

theorem round_robin_fair:
  assumes "anchors c p \<noteq> []" and "0 \<le> sint (pl_rr p)"
    and "sint (pl_rr p) + int (length (anchors c p)) < 2 ^ 63"
  shows "mset (leads c (length (anchors c p)) p) = mset (anchors c p)"
  using leads_anchors [OF assms] rotation_permutes [OF assms(1), of "nat (sint (pl_rr p)) + 1"] by simp

theorem round_robin_fair_witness:
  "mset (leads 5 2 w_pool) = {#\<lparr>pv_name = ''d'', pv_max = 10, pv_durable = True\<rparr>,
     \<lparr>pv_name = ''e'', pv_max = 10, pv_durable = True\<rparr>#}"
proof -
  have "anchors 5 w_pool = [\<lparr>pv_name = ''d'', pv_max = 10, pv_durable = True\<rparr>,
     \<lparr>pv_name = ''e'', pv_max = 10, pv_durable = True\<rparr>]"
    by (simp add: w_pool_def newPool_def anchors_def fitting_def healthy_def failThreshold_def)
  with round_robin_fair [of 5 w_pool] show ?thesis by (simp add: w_pool_def newPool_def numeral_2_eq_2)
qed

end
