(* ===== verification/Replicate.thy ===== *)
theory Replicate
  imports Pool
begin

text \<open>
  \<^verbatim>\<open>uploadChunk\<close> of \<^verbatim>\<open>internal/storage/freehost/backend.go\<close>: one chunk is replicated by concurrent
  goroutines that report on a channel. The function and its goroutines are one state with an
  interleaving step relation: an upload goroutine finishes (either way, at any time), the
  caller's loop collects an outcome or sees its context cancelled, the loop ends, the background
  goroutine drains an outcome. What a host answers is not determined by the model.
\<close>

section \<open>Data\<close>

record replica =
  rp_provider :: string
  rp_locator :: string
  rp_token :: string

record chunk =
  ch_seq :: nat
  ch_size :: int
  ch_offset :: int
  ch_replicas :: "replica list"

record chunk_ref =
  cr_size :: int
  cr_replicas :: "replica list"

text \<open>What \<^verbatim>\<open>uploadChunk\<close> is called with: \<^verbatim>\<open>b.replicas\<close>, \<^verbatim>\<open>syncN\<close>, the chunk's place, \<^verbatim>\<open>onExtra != nil\<close>.\<close>

record uc_env =
  e_replicas :: nat
  e_syncN :: int
  e_seq :: nat
  e_offset :: int
  e_size :: int
  e_hasExtra :: bool

datatype phase = Sync | Drain | Done

text \<open>
  An outcome on the channel is \<open>Some\<close> replica or \<open>None\<close> for \<^verbatim>\<open>outcome{}\<close>. \<open>uc_running\<close> are the
  providers whose upload goroutine has not reported; \<open>uc_log\<close> is the two log lines an upload ends
  with; \<open>uc_extras\<close> the calls of \<^verbatim>\<open>onExtra\<close>.
\<close>

record uc =
  uc_cands :: "provider list"
  uc_launched :: nat
  uc_running :: "provider list"
  uc_chan :: "replica option list"
  uc_synced :: "replica list"
  uc_collected :: nat
  uc_inflight :: nat
  uc_phase :: phase
  uc_result :: "(goerr + chunk) option"
  uc_remaining :: nat
  uc_total :: nat
  uc_extras :: "(nat \<times> replica) list"
  uc_log :: "(string \<times> bool) list"
  uc_pool :: pool

section \<open>Operations\<close>

definition launchNext :: "uc \<Rightarrow> bool \<times> uc" where
  "launchNext s =
     (if uc_launched s \<ge> length (uc_cands s) then (False, s)
      else (True, s\<lparr>uc_running := uc_running s @ [uc_cands s ! uc_launched s],
                    uc_launched := uc_launched s + 1\<rparr>))"

function launch_initial :: "nat \<Rightarrow> uc \<Rightarrow> uc" where
  "launch_initial R s =
     (if uc_launched s < R then
        (case launchNext s of (True, s') \<Rightarrow> launch_initial R s' | (False, s') \<Rightarrow> s')
      else s)"
  by auto
termination
  by (relation "measure (\<lambda>(R, s). length (uc_cands s) - uc_launched s)")
     (auto simp: launchNext_def split: if_splits)

declare launch_initial.simps [simp del]

definition effective_sync :: "uc_env \<Rightarrow> nat" where
  "effective_sync E =
     (if e_syncN E < 1 \<or> e_syncN E > int (e_replicas E) then e_replicas E else nat (e_syncN E))"

definition uploadChunk_start :: "uc_env \<Rightarrow> pool \<Rightarrow> goerr + uc" where
  "uploadChunk_start E p =
     (let (cands, p') = candidates (e_size E) p in
      if cands = [] then Inl (ErrMsg ''freehost: no provider can hold the chunk'')
      else
        let s = launch_initial (e_replicas E) \<lparr>uc_cands = cands, uc_launched = 0, uc_running = [],
              uc_chan = [], uc_synced = [], uc_collected = 0, uc_inflight = 0, uc_phase = Sync,
              uc_result = None, uc_remaining = 0, uc_total = 0, uc_extras = [], uc_log = [],
              uc_pool = p'\<rparr>
        in Inr (s\<lparr>uc_inflight := uc_launched s\<rparr>))"

definition sync_guard :: "uc_env \<Rightarrow> uc \<Rightarrow> bool" where
  "sync_guard E s \<longleftrightarrow> length (uc_synced s) < effective_sync E \<and> uc_collected s < uc_inflight s"

text \<open>The end of an upload goroutine: pool health, log line, send on the channel.\<close>

definition report_ok :: "provider \<Rightarrow> string \<Rightarrow> string \<Rightarrow> uc \<Rightarrow> uc" where
  "report_ok q loc tok s = s\<lparr>uc_pool := markHealthy (pv_name q) (uc_pool s),
     uc_log := uc_log s @ [(pv_name q, True)],
     uc_chan := uc_chan s @ [Some \<lparr>rp_provider = pv_name q, rp_locator = loc, rp_token = tok\<rparr>]\<rparr>"

definition report_fail :: "provider \<Rightarrow> uc \<Rightarrow> uc" where
  "report_fail q s = s\<lparr>uc_pool := markFailed (pv_name q) (uc_pool s),
     uc_log := uc_log s @ [(pv_name q, False)], uc_chan := uc_chan s @ [None]\<rparr>"

definition collect :: "replica option \<Rightarrow> uc \<Rightarrow> uc" where
  "collect out s =
     (let s = s\<lparr>uc_collected := uc_collected s + 1\<rparr> in
      case out of
        Some rep \<Rightarrow> s\<lparr>uc_synced := uc_synced s @ [rep]\<rparr>
      | None \<Rightarrow>
          (case launchNext s of
             (True, s') \<Rightarrow> s'\<lparr>uc_inflight := uc_inflight s' + 1\<rparr>
           | (False, s') \<Rightarrow> s'))"

definition leave_sync :: "uc_env \<Rightarrow> uc \<Rightarrow> uc" where
  "leave_sync E s =
     (if uc_synced s = [] then
        s\<lparr>uc_phase := Done, uc_result := Some (Inl (ErrMsg ''freehost: all providers failed''))\<rparr>
      else
        let remaining = uc_inflight s - uc_collected s in
        s\<lparr>uc_phase := (if remaining > 0 then Drain else Done),
          uc_result := Some (Inr \<lparr>ch_seq = e_seq E, ch_size = e_size E, ch_offset = e_offset E,
            ch_replicas = uc_synced s\<rparr>),
          uc_remaining := remaining, uc_total := length (uc_synced s)\<rparr>)"

definition drain_one :: "uc_env \<Rightarrow> replica option \<Rightarrow> uc \<Rightarrow> uc" where
  "drain_one E out s =
     (let s = s\<lparr>uc_remaining := uc_remaining s - 1\<rparr>;
          s = (case out of
             Some rep \<Rightarrow> s\<lparr>uc_total := uc_total s + 1,
               uc_extras := (if e_hasExtra E then uc_extras s @ [(e_seq E, rep)] else uc_extras s)\<rparr>
           | None \<Rightarrow>
               if uc_total s < e_replicas E then
                 (case launchNext s of
                    (True, s') \<Rightarrow> s'\<lparr>uc_remaining := uc_remaining s' + 1\<rparr>
                  | (False, s') \<Rightarrow> s')
               else s)
      in s\<lparr>uc_phase := (if uc_remaining s > 0 then Drain else Done)\<rparr>)"

inductive uc_step :: "uc_env \<Rightarrow> uc \<Rightarrow> uc \<Rightarrow> bool" for E where
  upload_ok:
    "uc_running s = xs @ q # ys \<Longrightarrow> length (uc_chan s) < length (uc_cands s) \<Longrightarrow>
     uc_step E s (report_ok q loc tok (s\<lparr>uc_running := xs @ ys\<rparr>))"
| upload_fail:
    "uc_running s = xs @ q # ys \<Longrightarrow> length (uc_chan s) < length (uc_cands s) \<Longrightarrow>
     uc_step E s (report_fail q (s\<lparr>uc_running := xs @ ys\<rparr>))"
| collected:
    "uc_phase s = Sync \<Longrightarrow> sync_guard E s \<Longrightarrow> uc_chan s = out # rest \<Longrightarrow>
     uc_step E s (collect out (s\<lparr>uc_chan := rest\<rparr>))"
| cancelled:
    "uc_phase s = Sync \<Longrightarrow> sync_guard E s \<Longrightarrow>
     uc_step E s (s\<lparr>uc_phase := Done, uc_result := Some (Inl ErrCtx)\<rparr>)"
| left:
    "uc_phase s = Sync \<Longrightarrow> \<not> sync_guard E s \<Longrightarrow> uc_step E s (leave_sync E s)"
| drained:
    "uc_phase s = Drain \<Longrightarrow> uc_chan s = out # rest \<Longrightarrow>
     uc_step E s (drain_one E out (s\<lparr>uc_chan := rest\<rparr>))"

abbreviation uc_reach :: "uc_env \<Rightarrow> uc \<Rightarrow> uc \<Rightarrow> bool" where
  "uc_reach E \<equiv> (uc_step E)\<^sup>*\<^sup>*"

section \<open>The invariant\<close>

definition chan_oks :: "replica option list \<Rightarrow> replica list" where
  "chan_oks outs = map the (filter (\<lambda>out. out \<noteq> None) outs)"

lemma chan_oks_simps [simp]:
  "chan_oks [] = []" "chan_oks (None # outs) = chan_oks outs" "chan_oks (Some r # outs) = r # chan_oks outs"
  "chan_oks (outs @ outs') = chan_oks outs @ chan_oks outs'"
  by (simp_all add: chan_oks_def)

text \<open>Who was launched, and that every replica in hand is an upload that succeeded.\<close>

definition base_inv :: "uc \<Rightarrow> bool" where
  "base_inv s \<longleftrightarrow>
     uc_launched s \<le> length (uc_cands s) \<and> length (uc_chan s) \<le> length (uc_log s) \<and>
     mset (map pv_name (uc_running s)) + mset (map fst (uc_log s)) =
       mset (map pv_name (take (uc_launched s) (uc_cands s))) \<and>
     mset (map rp_provider (uc_synced s @ map snd (uc_extras s) @ chan_oks (uc_chan s))) \<subseteq>#
       mset (map fst (filter snd (uc_log s)))"

definition pending :: "uc \<Rightarrow> nat" where
  "pending s = length (uc_chan s) + length (uc_running s)"

definition returned_chunk :: "uc_env \<Rightarrow> uc \<Rightarrow> chunk" where
  "returned_chunk E s =
     \<lparr>ch_seq = e_seq E, ch_size = e_size E, ch_offset = e_offset E, ch_replicas = uc_synced s\<rparr>"

text \<open>The books of the loops: what is in flight, and the budget of R replicas.\<close>

definition budget :: "uc_env \<Rightarrow> nat \<Rightarrow> uc \<Rightarrow> bool" where
  "budget E won s \<longleftrightarrow> won + pending s \<le> e_replicas E \<and>
     (won + pending s = e_replicas E \<or> uc_launched s = length (uc_cands s))"

definition sync_inv :: "uc_env \<Rightarrow> uc \<Rightarrow> bool" where
  "sync_inv E s \<longleftrightarrow> uc_inflight s = uc_launched s \<and> uc_collected s + pending s = uc_inflight s \<and>
     budget E (length (uc_synced s)) s \<and>
     length (uc_synced s) + length (chan_oks (uc_chan s)) = length (filter snd (uc_log s)) \<and>
     uc_extras s = [] \<and> uc_result s = None"

definition ok_inv :: "uc_env \<Rightarrow> uc \<Rightarrow> bool" where
  "ok_inv E s \<longleftrightarrow> uc_remaining s = pending s \<and> budget E (uc_total s) s \<and>
     length (uc_synced s) + length (uc_extras s) \<le> uc_total s \<and> uc_synced s \<noteq> [] \<and>
     uc_result s = Some (Inr (returned_chunk E s))"

definition failed_inv :: "uc \<Rightarrow> bool" where
  "failed_inv s \<longleftrightarrow> pending s = 0 \<and> uc_launched s = length (uc_cands s) \<and> filter snd (uc_log s) = []"

definition uc_inv :: "uc_env \<Rightarrow> uc \<Rightarrow> bool" where
  "uc_inv E s \<longleftrightarrow> base_inv s \<and>
     (case uc_phase s of
        Sync \<Rightarrow> sync_inv E s
      | Drain \<Rightarrow> ok_inv E s \<and> 0 < uc_remaining s
      | Done \<Rightarrow>
          (case uc_result s of
             None \<Rightarrow> False
           | Some (Inl e) \<Rightarrow> uc_extras s = [] \<and> (e = ErrCtx \<or> failed_inv s)
           | Some (Inr c) \<Rightarrow> ok_inv E s \<and> uc_remaining s = 0))"

lemmas inv_defs = uc_inv_def sync_inv_def ok_inv_def failed_inv_def budget_def pending_def

lemma launchNext_cases:
  assumes "launchNext s = (b, s')"
  obtains "b = False" "s' = s" "length (uc_cands s) \<le> uc_launched s"
  | "b = True" "uc_launched s < length (uc_cands s)"
    "s' = s\<lparr>uc_running := uc_running s @ [uc_cands s ! uc_launched s], uc_launched := uc_launched s + 1\<rparr>"
  using assms by (auto simp: launchNext_def split: if_splits)

lemma base_launch:
  assumes "base_inv s" and "uc_launched s < length (uc_cands s)"
  shows "base_inv (s\<lparr>uc_running := uc_running s @ [uc_cands s ! uc_launched s], uc_launched := uc_launched s + 1\<rparr>)"
  using assms by (auto simp: base_inv_def take_Suc_conv_app_nth)

lemma base_pending: "base_inv s \<Longrightarrow> pending s \<le> uc_launched s"
proof -
  assume b: "base_inv s"
  then have "size (mset (map pv_name (uc_running s)) + mset (map fst (uc_log s))) = uc_launched s"
    by (simp add: base_inv_def)
  then have "length (uc_running s) + length (uc_log s) = uc_launched s" by simp
  with b show ?thesis by (simp add: base_inv_def pending_def)
qed

section \<open>Every step keeps it\<close>

lemma inv_report:
  assumes "uc_inv E s" and "uc_running s = xs @ q # ys"
  shows "uc_inv E (report_ok q loc tok (s\<lparr>uc_running := xs @ ys\<rparr>))"
    and "uc_inv E (report_fail q (s\<lparr>uc_running := xs @ ys\<rparr>))"
proof -
  let ?t1 = "report_ok q loc tok (s\<lparr>uc_running := xs @ ys\<rparr>)"
  let ?t2 = "report_fail q (s\<lparr>uc_running := xs @ ys\<rparr>)"
  have "base_inv ?t1" and "base_inv ?t2"
    using assms by (auto simp: uc_inv_def base_inv_def report_ok_def report_fail_def subset_mset.add_increasing2)
  then show "uc_inv E ?t1" and "uc_inv E ?t2"
    using assms
    by (auto simp: inv_defs report_ok_def report_fail_def returned_chunk_def
        split: phase.splits option.splits sum.splits)
qed

lemma inv_collect:
  assumes "uc_inv E s" and "uc_phase s = Sync" and "uc_chan s = out # rest"
  shows "uc_inv E (collect out (s\<lparr>uc_chan := rest\<rparr>))"
proof (cases out)
  case (Some rep)
  have "base_inv (collect out (s\<lparr>uc_chan := rest\<rparr>))"
    using assms Some by (auto simp: uc_inv_def base_inv_def collect_def Let_def sync_inv_def)
  then show ?thesis
    using assms Some by (auto simp: inv_defs collect_def Let_def)
next
  case None
  let ?s = "s\<lparr>uc_chan := rest, uc_collected := uc_collected s + 1\<rparr>"
  have b: "base_inv ?s" using assms None by (auto simp: uc_inv_def base_inv_def)
  obtain ok s' where l: "launchNext ?s = (ok, s')" by (cases "launchNext ?s")
  then show ?thesis
  proof (cases rule: launchNext_cases)
    case 1
    with l None have "collect out (s\<lparr>uc_chan := rest\<rparr>) = ?s" by (simp add: collect_def Let_def)
    moreover have "uc_launched s = length (uc_cands s)" using 1 assms(1) by (simp add: uc_inv_def base_inv_def)
    ultimately show ?thesis using b assms None by (auto simp: inv_defs)
  next
    case 2
    let ?t = "s'\<lparr>uc_inflight := uc_inflight s' + 1\<rparr>"
    have "collect out (s\<lparr>uc_chan := rest\<rparr>) = ?t" using 2 l None by (simp add: collect_def Let_def)
    moreover have "base_inv s'" using base_launch [OF b] 2 by simp
    then have "base_inv ?t" by (simp add: base_inv_def)
    ultimately show ?thesis using 2 assms None by (auto simp: inv_defs)
  qed
qed

lemma inv_leave:
  assumes "uc_inv E s" and "uc_phase s = Sync" and "\<not> sync_guard E s" and "0 < e_replicas E"
  shows "uc_inv E (leave_sync E s)"
proof -
  have base: "base_inv (leave_sync E s)"
    using assms(1) by (auto simp: uc_inv_def base_inv_def leave_sync_def Let_def)
  have sync: "sync_inv E s" using assms(1,2) by (simp add: uc_inv_def)
  then have rem: "uc_inflight s - uc_collected s = pending s" unfolding sync_inv_def by linarith
  show ?thesis
  proof (cases "uc_synced s = []")
    case True
    have "0 < effective_sync E" using assms(4) by (auto simp: effective_sync_def)
    then have "pending s = 0" using True assms(3) rem by (simp add: sync_guard_def)
    moreover from this have "uc_launched s = length (uc_cands s)"
      using True sync assms(4) by (simp add: sync_inv_def budget_def)
    moreover have "filter snd (uc_log s) = []"
      using True sync \<open>pending s = 0\<close> by (simp add: sync_inv_def pending_def)
    ultimately show ?thesis using base sync True
      by (simp add: uc_inv_def leave_sync_def failed_inv_def sync_inv_def pending_def)
  next
    case False
    with base sync rem show ?thesis
      by (auto simp: uc_inv_def leave_sync_def Let_def ok_inv_def sync_inv_def budget_def pending_def returned_chunk_def)
  qed
qed

lemma add_mset_subsetD: "add_mset x A \<subseteq># B \<Longrightarrow> A \<subseteq># B"
  by (meson mset_subset_eq_insertD subset_mset.less_imp_le)

lemma inv_drain:
  assumes "uc_inv E s" and "uc_phase s = Drain" and "uc_chan s = out # rest"
  shows "uc_inv E (drain_one E out (s\<lparr>uc_chan := rest\<rparr>))"
proof (cases out)
  case (Some rep)
  have "base_inv (drain_one E out (s\<lparr>uc_chan := rest\<rparr>))"
    using assms Some
    by (auto simp: uc_inv_def base_inv_def drain_one_def Let_def) (rule add_mset_subsetD)
  then show ?thesis
    using assms Some by (auto simp: inv_defs drain_one_def Let_def returned_chunk_def)
next
  case None
  let ?s = "s\<lparr>uc_chan := rest, uc_remaining := uc_remaining s - 1\<rparr>"
  have b: "base_inv ?s" using assms None by (auto simp: uc_inv_def base_inv_def)
  have tot: "uc_total s < e_replicas E" using assms by (auto simp: inv_defs)
  obtain ok s' where l: "launchNext ?s = (ok, s')" by (cases "launchNext ?s")
  then show ?thesis
  proof (cases rule: launchNext_cases)
    case 1
    let ?t = "?s\<lparr>uc_phase := (if uc_remaining ?s > 0 then Drain else Done)\<rparr>"
    have "drain_one E out (s\<lparr>uc_chan := rest\<rparr>) = ?t" using 1 l None tot by (simp add: drain_one_def Let_def)
    moreover have "base_inv ?t" using b by (simp add: base_inv_def)
    moreover have "uc_launched s = length (uc_cands s)" using 1 assms(1) by (simp add: uc_inv_def base_inv_def)
    ultimately show ?thesis using assms None by (auto simp: inv_defs returned_chunk_def)
  next
    case 2
    let ?t = "s'\<lparr>uc_remaining := uc_remaining s' + 1, uc_phase := Drain\<rparr>"
    have "drain_one E out (s\<lparr>uc_chan := rest\<rparr>) = ?t" using 2 l None tot by (simp add: drain_one_def Let_def)
    moreover have "base_inv s'" using base_launch [OF b] 2 by simp
    then have "base_inv ?t" by (simp add: base_inv_def)
    ultimately show ?thesis using 2 assms None by (auto simp: inv_defs returned_chunk_def)
  qed
qed

lemma uc_inv_step:
  assumes "uc_step E s s'" and "uc_inv E s" and "0 < e_replicas E"
  shows "uc_inv E s'"
  using assms(1)
proof cases
  case cancelled
  have "base_inv s'" using assms(2) cancelled by (simp add: uc_inv_def base_inv_def)
  then show ?thesis using cancelled assms(2) by (simp add: inv_defs)
qed (use assms in \<open>simp_all add: inv_report inv_collect inv_leave inv_drain\<close>)

lemma launch_initial_eq:
  assumes "uc_launched s \<le> R" and "uc_launched s \<le> length (uc_cands s)"
    and "uc_running s = take (uc_launched s) (uc_cands s)"
  shows "launch_initial R s = s\<lparr>uc_running := take R (uc_cands s), uc_launched := min R (length (uc_cands s))\<rparr>"
  using assms
proof (induction R s rule: launch_initial.induct)
  case (1 R s)
  show ?case
  proof (cases "uc_launched s < R \<and> uc_launched s < length (uc_cands s)")
    case True
    let ?s = "s\<lparr>uc_running := uc_running s @ [uc_cands s ! uc_launched s], uc_launched := uc_launched s + 1\<rparr>"
    have "launchNext s = (True, ?s)" using True by (simp add: launchNext_def)
    moreover have "launch_initial R ?s =
        ?s\<lparr>uc_running := take R (uc_cands s), uc_launched := min R (length (uc_cands s))\<rparr>"
      using "1.IH" [of True ?s] calculation True "1.prems" by (simp add: take_Suc_conv_app_nth)
    ultimately show ?thesis using True by (subst launch_initial.simps) simp
  next
    case False
    then show ?thesis using "1.prems"
      by (subst launch_initial.simps) (auto simp: launchNext_def min_def)
  qed
qed

lemma inv_start:
  assumes "uploadChunk_start E p = Inr s"
  shows "uc_inv E s" and "uc_cands s = fst (candidates (e_size E) p)" and "uc_phase s = Sync"
proof -
  obtain cands p' where c: "candidates (e_size E) p = (cands, p')" by (cases "candidates (e_size E) p")
  have s: "uc_cands s = cands" "uc_launched s = min (e_replicas E) (length cands)"
    "uc_running s = take (e_replicas E) cands" "uc_chan s = []" "uc_synced s = []" "uc_collected s = 0"
    "uc_inflight s = min (e_replicas E) (length cands)" "uc_phase s = Sync" "uc_result s = None"
    "uc_extras s = []" "uc_log s = []"
    using assms by (auto simp: uploadChunk_start_def c Let_def launch_initial_eq split: if_splits)
  have "mset (map pv_name (take (e_replicas E) cands)) =
      mset (map pv_name (take (min (e_replicas E) (length cands)) cands))"
    by (metis min.commute take_all_iff take_take nle_le min_def)
  then have "base_inv s" by (simp add: base_inv_def s)
  then show "uc_inv E s" by (auto simp: inv_defs s min_def)
  show "uc_cands s = fst (candidates (e_size E) p)" "uc_phase s = Sync" by (simp_all add: s c)
qed

lemma step_cands: "uc_step E s s' \<Longrightarrow> uc_cands s' = uc_cands s"
  by (induction rule: uc_step.induct)
     (auto simp: report_ok_def report_fail_def collect_def leave_sync_def drain_one_def launchNext_def Let_def
       split: option.splits)

lemma uc_reach_inv:
  assumes "uploadChunk_start E p = Inr s0" and "uc_reach E s0 s" and "0 < e_replicas E"
  shows "uc_inv E s \<and> uc_cands s = fst (candidates (e_size E) p)"
  using assms(2)
proof (induction rule: rtranclp_induct)
  case base
  show ?case using inv_start [OF assms(1)] by simp
next
  case (step y z)
  then show ?case using uc_inv_step [OF step.hyps(2) _ assms(3)] step_cands by auto
qed

section \<open>Progress and termination\<close>

fun phase_rank :: "phase \<Rightarrow> nat" where
  "phase_rank Sync = 2"
| "phase_rank Drain = 1"
| "phase_rank Done = 0"

definition uc_measure :: "uc \<Rightarrow> nat" where
  "uc_measure s = 2 * (length (uc_cands s) - uc_launched s) + 2 * length (uc_running s) +
     length (uc_chan s) + phase_rank (uc_phase s)"

lemma step_decreases: "uc_step E s s' \<Longrightarrow> uc_measure s' < uc_measure s"
proof (induction rule: uc_step.induct)
  case (collected s out rest)
  then show ?case
    by (auto simp: uc_measure_def collect_def launchNext_def Let_def split: option.splits)
next
  case (drained s out rest)
  then show ?case
    by (auto simp: uc_measure_def drain_one_def launchNext_def Let_def split: option.splits)
qed (auto simp: uc_measure_def report_ok_def report_fail_def leave_sync_def Let_def)

lemma chan_not_full:
  assumes "base_inv s" and "uc_running s \<noteq> []"
  shows "length (uc_chan s) < length (uc_cands s)"
proof -
  have "pending s \<le> length (uc_cands s)" using base_pending [OF assms(1)] assms(1) by (simp add: base_inv_def)
  moreover have "0 < length (uc_running s)" using assms(2) by simp
  ultimately show ?thesis unfolding pending_def by linarith
qed

lemma collect_result: "uc_result (collect out s) = uc_result s"
  by (simp add: collect_def launchNext_def Let_def split: option.splits)

lemma drain_result: "uc_result (drain_one E out s) = uc_result s"
  by (simp add: drain_one_def launchNext_def Let_def split: option.splits)

lemma can_report:
  assumes "base_inv s" and "uc_running s \<noteq> []"
  shows "\<exists>s'. uc_step E s s' \<and> uc_result s' = uc_result s"
proof -
  obtain q qs where q: "uc_running s = [] @ q # qs" using assms(2) by (cases "uc_running s") auto
  from upload_fail [OF q chan_not_full [OF assms]] have "uc_step E s (report_fail q (s\<lparr>uc_running := qs\<rparr>))"
    by simp
  moreover have "uc_result (report_fail q (s\<lparr>uc_running := qs\<rparr>)) = uc_result s"
    by (simp add: report_fail_def)
  ultimately show ?thesis by blast
qed

lemma progress:
  assumes "uc_inv E s"
  shows "uc_phase s = Done \<and> uc_running s = [] \<or>
    (\<exists>s'. uc_step E s s' \<and> (uc_result s' = uc_result s \<or> uc_result s' \<noteq> Some (Inl ErrCtx)))"
proof (cases "uc_running s = []")
  case False
  with assms can_report show ?thesis unfolding uc_inv_def by blast
next
  case True
  show ?thesis
  proof (cases "uc_phase s")
    case Sync
    show ?thesis
    proof (cases "sync_guard E s")
      case False
      with Sync have "uc_step E s (leave_sync E s)" by (rule left)
      moreover have "uc_result (leave_sync E s) \<noteq> Some (Inl ErrCtx)" by (simp add: leave_sync_def Let_def)
      ultimately show ?thesis by blast
    next
      case g: True
      then obtain out rest where "uc_chan s = out # rest"
        using assms Sync True by (cases "uc_chan s") (auto simp: inv_defs sync_guard_def)
      from collected [OF Sync g this] show ?thesis
        using collect_result [of out "s\<lparr>uc_chan := rest\<rparr>"] by auto
    qed
  next
    case Drain
    then obtain out rest where "uc_chan s = out # rest"
      using assms True by (cases "uc_chan s") (auto simp: inv_defs)
    from drained [OF Drain this] show ?thesis
      using drain_result [of E out "s\<lparr>uc_chan := rest\<rparr>"] by auto
  qed (use True in simp)
qed

lemma distinct_mset_sub:
  assumes "distinct ys" and "mset xs \<subseteq># mset ys"
  shows "distinct xs"
proof -
  have "count (mset ys) a \<le> 1" for a
    by (metis assms(1) distinct_count_atmost_1 le_numeral_extra(4) zero_le)
  then have "count (mset xs) a \<le> 1" for a
    using mset_subset_eq_count [OF assms(2), of a] by (meson le_trans)
  then have "count (mset xs) a = (if a \<in> set xs then 1 else 0)" for a
    by (metis One_nat_def count_mset_0_iff le_SucE le_zero_eq)
  then show ?thesis by (simp add: distinct_count_atmost_1)
qed

lemma all_launched_log:
  assumes "base_inv s" and "uc_running s = []" and "uc_launched s = length (uc_cands s)"
  shows "mset (map fst (uc_log s)) = mset (map pv_name (uc_cands s))"
  using assms by (simp add: base_inv_def)

text \<open>A concrete run for the witnesses: two replicas wanted, one of them synchronously.\<close>

definition w_env :: "int \<Rightarrow> uc_env" where
  "w_env n = \<lparr>e_replicas = 2, e_syncN = n, e_seq = 0, e_offset = 0, e_size = 5, e_hasExtra = True\<rparr>"

definition w_u0 :: "int \<Rightarrow> uc" where
  "w_u0 n = projr (uploadChunk_start (w_env n) w_pool)"

definition w_ok :: "uc \<Rightarrow> uc" where
  "w_ok s = report_ok (hd (uc_running s)) ''L'' [] (s\<lparr>uc_running := tl (uc_running s)\<rparr>)"

definition w_fail :: "uc \<Rightarrow> uc" where
  "w_fail s = report_fail (hd (uc_running s)) (s\<lparr>uc_running := tl (uc_running s)\<rparr>)"

definition w_collect :: "uc \<Rightarrow> uc" where
  "w_collect s = collect (hd (uc_chan s)) (s\<lparr>uc_chan := tl (uc_chan s)\<rparr>)"

lemma w_start: "uploadChunk_start (w_env n) w_pool = Inr (w_u0 n)"
proof -
  have "fst (candidates (e_size (w_env n)) w_pool) \<noteq> []"
    unfolding w_env_def by code_simp
  then show ?thesis
    by (simp add: w_u0_def uploadChunk_start_def case_prod_unfold Let_def)
qed

lemma w_steps:
  "uc_running s \<noteq> [] \<Longrightarrow> length (uc_chan s) < length (uc_cands s) \<Longrightarrow> uc_step E s (w_ok s)"
  "uc_running s \<noteq> [] \<Longrightarrow> length (uc_chan s) < length (uc_cands s) \<Longrightarrow> uc_step E s (w_fail s)"
  "uc_phase s = Sync \<Longrightarrow> sync_guard E s \<Longrightarrow> uc_chan s \<noteq> [] \<Longrightarrow> uc_step E s (w_collect s)"
  unfolding w_ok_def w_fail_def w_collect_def
  by (auto intro!: upload_ok [where xs = "[]", simplified] upload_fail [where xs = "[]", simplified] collected)

definition w_run1 :: uc where
  "w_run1 = leave_sync (w_env 1) (w_collect (w_ok (w_u0 1)))"

lemma w_run1_reach: "uc_reach (w_env 1) (w_u0 1) w_run1"
proof -
  have "uc_reach (w_env 1) (w_u0 1) (w_ok (w_u0 1))" by (rule r_into_rtranclp, rule w_steps(1)) code_simp+
  also have "uc_step (w_env 1) (w_ok (w_u0 1)) (w_collect (w_ok (w_u0 1)))" by (rule w_steps(3)) code_simp+
  also have "uc_step (w_env 1) (w_collect (w_ok (w_u0 1))) w_run1"
    unfolding w_run1_def by (rule left) code_simp+
  finally show ?thesis .
qed

definition w_run2 :: uc where
  "w_run2 = leave_sync (w_env 0) (w_collect (w_collect (w_ok (w_ok (w_u0 0)))))"

lemma w_run2_reach: "uc_reach (w_env 0) (w_u0 0) w_run2"
proof -
  let ?a = "w_ok (w_u0 0)"
  have "uc_reach (w_env 0) (w_u0 0) ?a" by (rule r_into_rtranclp, rule w_steps(1)) code_simp+
  also have "uc_step (w_env 0) ?a (w_ok ?a)" by (rule w_steps(1)) code_simp+
  also have "uc_step (w_env 0) (w_ok ?a) (w_collect (w_ok ?a))" by (rule w_steps(3)) code_simp+
  also have "uc_step (w_env 0) (w_collect (w_ok ?a)) (w_collect (w_collect (w_ok ?a)))" by (rule w_steps(3)) code_simp+
  also have "uc_step (w_env 0) (w_collect (w_collect (w_ok ?a))) w_run2"
    unfolding w_run2_def by (rule left) code_simp+
  finally show ?thesis .
qed

definition w_failing :: "uc \<Rightarrow> uc" where
  "w_failing s = w_collect (w_fail s)"

definition w_run3 :: uc where
  "w_run3 = leave_sync (w_env 1) (w_failing (w_failing (w_failing (w_u0 1))))"

lemma w_run3_reach: "uc_reach (w_env 1) (w_u0 1) w_run3"
proof -
  have two: "uc_reach E s (w_failing s)" if "uc_running s \<noteq> []" "length (uc_chan s) < length (uc_cands s)"
    "uc_phase (w_fail s) = Sync" "sync_guard E (w_fail s)" "uc_chan (w_fail s) \<noteq> []" for E s
    using w_steps(2) [OF that(1,2)] w_steps(3) [OF that(3-5)] unfolding w_failing_def
    by (rule converse_rtranclp_into_rtranclp [OF _ r_into_rtranclp])
  let ?a = "w_failing (w_u0 1)"
  have "uc_reach (w_env 1) (w_u0 1) ?a" by (rule two) code_simp+
  also have "uc_reach (w_env 1) ?a (w_failing ?a)" by (rule two) code_simp+
  also have "uc_reach (w_env 1) (w_failing ?a) (w_failing (w_failing ?a))" by (rule two) code_simp+
  also have "uc_step (w_env 1) (w_failing (w_failing ?a)) w_run3"
    unfolding w_run3_def by (rule left) code_simp+
  finally show ?thesis .
qed

section \<open>Properties\<close>

text \<open>
  C10 (safety). Whatever the hosts answer and however the goroutines interleave: a chunk that
  \<open>uploadChunk\<close> returns has the given number, size and offset and between 1 and R replicas; these
  and the ones delivered later in the background are on pairwise distinct providers, are never
  more than R, and each is an upload that succeeded on a provider that can hold the chunk.
\<close>

theorem uploadChunk_replicas:
  assumes "uploadChunk_start E p = Inr s0" and "uc_reach E s0 s" and "0 < e_replicas E"
    and "distinct (map pv_name (pl_providers p))" and "uc_result s = Some (Inr c)"
  shows "ch_seq c = e_seq E \<and> ch_size c = e_size E \<and> ch_offset c = e_offset E \<and>
    ch_replicas c \<noteq> [] \<and>
    length (ch_replicas c) + length (uc_extras s) \<le> e_replicas E \<and>
    distinct (map rp_provider (ch_replicas c @ map snd (uc_extras s))) \<and>
    (\<forall>r \<in> set (ch_replicas c @ map snd (uc_extras s)). (rp_provider r, True) \<in> set (uc_log s) \<and>
       (\<exists>q \<in> set (pl_providers p). pv_name q = rp_provider r \<and> e_size E \<le> pv_max q))"
proof -
  have inv: "uc_inv E s" and cands: "uc_cands s = fst (candidates (e_size E) p)"
    using uc_reach_inv [OF assms(1-3)] by auto
  have base: "base_inv s" using inv by (simp add: uc_inv_def)
  have ok: "ok_inv E s"
    using inv assms(5) by (auto simp: uc_inv_def sync_inv_def split: phase.splits)
  then have c: "c = returned_chunk E s" using assms(5) by (simp add: ok_inv_def)
  let ?reps = "ch_replicas c @ map snd (uc_extras s)"
  have reps: "?reps = uc_synced s @ map snd (uc_extras s)" by (simp add: c returned_chunk_def)
  have "mset (map rp_provider ?reps) \<subseteq># mset (map rp_provider (uc_synced s @ map snd (uc_extras s) @ chan_oks (uc_chan s)))"
    by (simp add: reps)
  then have sub: "mset (map rp_provider ?reps) \<subseteq># mset (map fst (filter snd (uc_log s)))"
    using base unfolding base_inv_def by (meson subset_mset.order_trans)
  have "mset (map fst (filter snd (uc_log s))) \<subseteq># mset (map fst (uc_log s))"
    by (simp add: image_mset_subseteq_mono)
  also have "\<dots> \<subseteq># mset (map pv_name (take (uc_launched s) (uc_cands s)))"
    using base by (metis base_inv_def mset_subset_eq_add_right)
  also have "\<dots> \<subseteq># mset (map pv_name (uc_cands s))"
    by (metis append_take_drop_id map_append mset_append mset_subset_eq_add_left)
  finally have names: "mset (map fst (filter snd (uc_log s))) \<subseteq># mset (map pv_name (uc_cands s))" .
  have "distinct (map pv_name (uc_cands s))" unfolding cands by (rule candidates_names [OF assms(4)])
  moreover have "mset (map rp_provider ?reps) \<subseteq># mset (map pv_name (uc_cands s))"
    using sub names by (rule subset_mset.order_trans)
  ultimately have dist: "distinct (map rp_provider ?reps)"
    using distinct_mset_sub by blast
  have each: "(rp_provider r, True) \<in> set (uc_log s) \<and>
      (\<exists>q \<in> set (pl_providers p). pv_name q = rp_provider r \<and> e_size E \<le> pv_max q)" if "r \<in> set ?reps" for r
  proof -
    have "rp_provider r \<in># mset (map fst (filter snd (uc_log s)))"
      using that by (intro mset_subset_eqD [OF sub]) auto
    moreover from this have "rp_provider r \<in># mset (map pv_name (uc_cands s))" by (rule mset_subset_eqD [OF names])
    moreover have "set (uc_cands s) = set (fitting (e_size E) p)"
      unfolding cands by (metis candidates_mset set_mset_mset)
    ultimately show ?thesis by (auto simp: fitting_def)
  qed
  have "length (uc_synced s) + length (uc_extras s) \<le> e_replicas E"
    using ok by (simp add: ok_inv_def budget_def)
  then show ?thesis using ok dist each by (simp add: c returned_chunk_def ok_inv_def)
qed

theorem uploadChunk_replicas_witness:
  "map_option (\<lambda>r. map rp_provider (ch_replicas (projr r))) (uc_result w_run1) = Some [''e''] \<and>
   length (ch_replicas (projr (the (uc_result w_run1)))) + length (uc_extras w_run1) \<le> 2"
proof -
  obtain c where c: "uc_result w_run1 = Some (Inr c)" and reps: "map rp_provider (ch_replicas c) = [''e'']"
  proof
    show "uc_result w_run1 = Some (Inr (projr (the (uc_result w_run1))))" by code_simp
    show "map rp_provider (ch_replicas (projr (the (uc_result w_run1)))) = [''e'']" by code_simp
  qed
  have "distinct (map pv_name (pl_providers w_pool))" by code_simp
  from uploadChunk_replicas [OF w_start w_run1_reach _ this c] show ?thesis
    by (simp add: c reps w_env_def)
qed

text \<open>
  C16 (error). Apart from a cancelled request, \<open>uploadChunk\<close> fails only when every provider that
  can hold the chunk was tried, once, and failed.
\<close>

theorem uploadChunk_fails_last:
  assumes "uploadChunk_start E p = Inr s0" and "uc_reach E s0 s" and "0 < e_replicas E"
    and "uc_result s = Some (Inl e)" and "e \<noteq> ErrCtx"
  shows "mset (uc_log s) = mset (map (\<lambda>q. (pv_name q, False)) (filter (\<lambda>q. e_size E \<le> pv_max q) (pl_providers p)))"
proof -
  have inv: "uc_inv E s" and cands: "uc_cands s = fst (candidates (e_size E) p)"
    using uc_reach_inv [OF assms(1-3)] by auto
  then have "failed_inv s" and "base_inv s"
    using assms(4,5) by (auto simp: uc_inv_def sync_inv_def ok_inv_def split: phase.splits)
  then have log: "mset (map fst (uc_log s)) = mset (map pv_name (fitting (e_size E) p))"
    and none: "filter snd (uc_log s) = []"
    using all_launched_log [of s] candidates_mset [of "e_size E" p]
    by (auto simp: failed_inv_def pending_def cands)
  have "x = (fst x, False)" if "x \<in> set (uc_log s)" for x
    using none that by (cases x) (auto simp: filter_empty_conv)
  then have "uc_log s = map (\<lambda>n. (n, False)) (map fst (uc_log s))"
    by (simp add: map_idI)
  then have "mset (uc_log s) = image_mset (\<lambda>n. (n, False)) (mset (map fst (uc_log s)))"
    by (metis mset_map)
  also have "\<dots> = image_mset (\<lambda>n. (n, False)) (mset (map pv_name (fitting (e_size E) p)))" by (simp only: log)
  finally show ?thesis by (simp add: fitting_def multiset.map_comp comp_def)
qed

theorem uploadChunk_fails_last_witness:
  "mset (uc_log w_run3) = {#(''t'', False), (''d'', False), (''e'', False)#}"
proof -
  have r: "uc_result w_run3 = Some (Inl (ErrMsg ''freehost: all providers failed''))" by code_simp
  from uploadChunk_fails_last [OF w_start w_run3_reach _ r] show ?thesis
    by (simp add: w_env_def w_pool_def newPool_def)
qed

text \<open>
  C17 (termination). Every run of \<open>uploadChunk\<close> and its goroutines ends: each step decreases a
  measure, and a state that is not finished has a step that is not a cancellation. When it has
  ended with a chunk, R replicas were made or every provider that can hold the chunk was tried;
  and an upload goroutine never blocks on the results channel.
\<close>

theorem uploadChunk_terminates:
  assumes "uploadChunk_start E p = Inr s0" and "uc_reach E s0 s" and "0 < e_replicas E"
  shows "(\<forall>s'. uc_step E s s' \<longrightarrow> uc_measure s' < uc_measure s) \<and>
    (uc_phase s = Done \<and> uc_running s = [] \<or>
      (\<exists>s'. uc_step E s s' \<and> (uc_result s' = uc_result s \<or> uc_result s' \<noteq> Some (Inl ErrCtx)))) \<and>
    (uc_phase s = Done \<and> (\<exists>c. uc_result s = Some (Inr c)) \<longrightarrow>
      uc_total s = e_replicas E \<or>
      mset (map fst (uc_log s)) = mset (map pv_name (filter (\<lambda>q. e_size E \<le> pv_max q) (pl_providers p)))) \<and>
    (uc_running s \<noteq> [] \<longrightarrow> length (uc_chan s) < length (uc_cands s))"
proof -
  have inv: "uc_inv E s" and cands: "uc_cands s = fst (candidates (e_size E) p)"
    using uc_reach_inv [OF assms] by auto
  then have base: "base_inv s" by (simp add: uc_inv_def)
  have "uc_total s = e_replicas E \<or>
      mset (map fst (uc_log s)) = mset (map pv_name (filter (\<lambda>q. e_size E \<le> pv_max q) (pl_providers p)))"
    if "uc_phase s = Done" "uc_result s = Some (Inr c)" for c
  proof -
    have "pending s = 0" and "uc_total s = e_replicas E \<or> uc_launched s = length (uc_cands s)"
      using inv that by (auto simp: uc_inv_def ok_inv_def budget_def)
    then show ?thesis using all_launched_log [OF base] candidates_mset [of "e_size E" p]
      by (auto simp: pending_def cands fitting_def)
  qed
  then show ?thesis using step_decreases progress [OF inv] chan_not_full [OF base] by blast
qed

theorem uploadChunk_terminates_witness:
  "uc_phase w_run2 = Done \<and> uc_total w_run2 = 2"
proof -
  have "uc_phase w_run2 = Done" and r: "uc_result w_run2 = Some (Inr (projr (the (uc_result w_run2))))"
    and log: "length (uc_log w_run2) = 2"
    by code_simp+
  then have "uc_total w_run2 = 2 \<or> mset (map fst (uc_log w_run2)) =
      mset (map pv_name (filter (\<lambda>q. e_size (w_env 0) \<le> pv_max q) (pl_providers w_pool)))"
    using uploadChunk_terminates [OF w_start w_run2_reach] by (auto simp: w_env_def)
  moreover have "size (mset (map fst (uc_log w_run2))) \<noteq>
      size (mset (map pv_name (filter (\<lambda>q. e_size (w_env 0) \<le> pv_max q) (pl_providers w_pool))))"
    by (simp add: log w_env_def w_pool_def newPool_def)
  ultimately show ?thesis using \<open>uc_phase w_run2 = Done\<close> by metis
qed

text \<open>
  In the synchronous mode (\<open>syncN\<close> zero, R or more) nothing is left to the
  background when the call returns: no upload is running or unread and \<open>onExtra\<close> is never called.
\<close>

theorem synchronous_upload_complete:
  assumes "uploadChunk_start E p = Inr s0" and "uc_reach E s0 s" and "0 < e_replicas E"
    and "e_syncN E < 1 \<or> e_syncN E \<ge> int (e_replicas E)" and "uc_result s = Some (Inr c)"
  shows "uc_phase s = Done \<and> uc_running s = [] \<and> uc_chan s = [] \<and> uc_extras s = []"
proof -
  have eff: "effective_sync E = e_replicas E" using assms(4) by (auto simp: effective_sync_def)
  have "uc_result s \<noteq> None \<longrightarrow> uc_extras s = [] \<and> uc_phase s = Done \<and>
      (\<forall>c. uc_result s = Some (Inr c) \<longrightarrow> pending s = 0)"
    using assms(2)
  proof (induction rule: rtranclp_induct)
    case base
    then show ?case using inv_start [OF assms(1)] by (simp add: uc_inv_def sync_inv_def)
  next
    case (step y z)
    have inv: "uc_inv E y" using uc_reach_inv [OF assms(1) step.hyps(1) assms(3)] by simp
    from step.hyps(2) show ?case
    proof cases
      case left
      then have sync: "sync_inv E y" using inv by (simp add: uc_inv_def)
      then have "uc_inflight y - uc_collected y = pending y" unfolding sync_inv_def by linarith
      moreover have "pending y = 0"
        using left sync eff unfolding sync_inv_def budget_def sync_guard_def by linarith
      ultimately show ?thesis using left sync
        by (auto simp: leave_sync_def Let_def sync_inv_def pending_def)
    next
      case drained
      then show ?thesis using step.IH inv by (auto simp: uc_inv_def ok_inv_def)
    qed (use step.IH inv in \<open>auto simp: uc_inv_def sync_inv_def pending_def report_ok_def report_fail_def
           collect_def launchNext_def Let_def split: option.splits if_splits\<close>)
  qed
  then show ?thesis using assms(5) by (simp add: pending_def)
qed

theorem synchronous_upload_complete_witness:
  "uc_running w_run2 = [] \<and> uc_chan w_run2 = [] \<and> uc_extras w_run2 = []"
proof -
  have "uc_result w_run2 = Some (Inr (projr (the (uc_result w_run2))))" by code_simp
  from synchronous_upload_complete [OF w_start w_run2_reach _ _ this] show ?thesis by (simp add: w_env_def)
qed

end
