(* ===== verification/IOReader.thy ===== *)
theory IOReader
  imports Prelude "HOL-Library.Monad_Syntax"
begin

text \<open>
  Go's \<^verbatim>\<open>io.Reader\<close> as the gateway uses it. A reader is a state with a read function: asked for at
  most \<open>n\<close> bytes it returns some bytes, an error or none, and its next state. \<open>ReadFull\<close> is the
  loop of \<^verbatim>\<open>io.ReadFull\<close>; it returns \<open>None\<close> when a reader makes it loop for ever. The contract of a
  well-behaved reader is the locale \<open>byte_source\<close>: it delivers a fixed byte sequence and then ends
  with a fixed error.
\<close>

type_synonym 'r reader = "'r \<Rightarrow> nat \<Rightarrow> bytes \<times> goerr option \<times> 'r"

partial_function (option) read_at_least ::
  "('r \<Rightarrow> nat \<Rightarrow> bytes \<times> goerr option \<times> 'r) \<Rightarrow> nat \<Rightarrow> bytes \<Rightarrow> 'r \<Rightarrow> (bytes \<times> goerr option \<times> 'r) option" where
  "read_at_least rd n acc r =
     (if n \<le> length acc then Some (acc, None, r)
      else (case rd r (n - length acc) of
        (bs, e, r') \<Rightarrow>
          (case e of
             None \<Rightarrow> read_at_least rd n (acc @ bs) r'
           | Some err \<Rightarrow> Some (acc @ bs, Some err, r'))))"

declare read_at_least.simps [code]

definition ReadFull ::
  "('r \<Rightarrow> nat \<Rightarrow> bytes \<times> goerr option \<times> 'r) \<Rightarrow> nat \<Rightarrow> 'r \<Rightarrow> (bytes \<times> goerr option \<times> 'r) option" where
  "ReadFull rd n r = map_option (\<lambda>(bs, e, r').
     (bs,
      if n \<le> length bs then None
      else if bs \<noteq> [] \<and> e = Some ErrEOF then Some ErrUnexpectedEOF else e,
      r')) (read_at_least rd n [] r)"

locale byte_source =
  fixes rd :: "'r \<Rightarrow> nat \<Rightarrow> bytes \<times> goerr option \<times> 'r"
    and ok :: "'r \<Rightarrow> bool"
    and rest :: "'r \<Rightarrow> bytes"
    and fin :: "'r \<Rightarrow> goerr"
    and rank :: "'r \<Rightarrow> nat"
  assumes rd_ok: "ok r \<Longrightarrow> 0 < n \<Longrightarrow> rd r n = (bs, e, r') \<Longrightarrow> ok r'"
    and rd_rest: "ok r \<Longrightarrow> 0 < n \<Longrightarrow> rd r n = (bs, e, r') \<Longrightarrow> rest r = bs @ rest r' \<and> length bs \<le> n"
    and rd_fin: "ok r \<Longrightarrow> 0 < n \<Longrightarrow> rd r n = (bs, e, r') \<Longrightarrow> fin r' = fin r"
    and rd_rank: "ok r \<Longrightarrow> 0 < n \<Longrightarrow> rd r n = (bs, None, r') \<Longrightarrow> rank r' < rank r"
    and rd_end: "ok r \<Longrightarrow> 0 < n \<Longrightarrow> rd r n = (bs, Some err, r') \<Longrightarrow> rest r' = [] \<and> err = fin r"
begin

lemma read_at_least_spec:
  assumes "ok r" and "length acc \<le> n"
  shows "\<exists>e r'. read_at_least rd n acc r = Some (acc @ take (n - length acc) (rest r), e, r') \<and>
    ok r' \<and> rest r' = drop (n - length acc) (rest r) \<and> fin r' = fin r \<and>
    (length acc + length (rest r) < n \<longrightarrow> e = Some (fin r))"
  using assms
proof (induction "rank r" arbitrary: r acc rule: less_induct)
  case less
  show ?case
  proof (cases "n \<le> length acc")
    case True
    with less.prems show ?thesis by (subst read_at_least.simps) simp
  next
    case False
    then have m: "0 < n - length acc" by simp
    obtain bs e r' where rd: "rd r (n - length acc) = (bs, e, r')" by (metis prod_cases3)
    note law = rd_ok [OF less.prems(1) m rd] rd_rest [OF less.prems(1) m rd] rd_fin [OF less.prems(1) m rd]
    show ?thesis
    proof (cases e)
      case None
      have "rank r' < rank r" using rd_rank [OF less.prems(1) m] rd None by simp
      moreover have "length (acc @ bs) \<le> n" using law(2) False by auto
      ultimately obtain e2 r2 where
        "read_at_least rd n (acc @ bs) r' = Some ((acc @ bs) @ take (n - length (acc @ bs)) (rest r'), e2, r2)"
        "ok r2" "rest r2 = drop (n - length (acc @ bs)) (rest r')" "fin r2 = fin r'"
        "length (acc @ bs) + length (rest r') < n \<longrightarrow> e2 = Some (fin r')"
        using less.hyps [of r' "acc @ bs"] law(1) by blast
      moreover have "rest r = bs @ rest r'" "length bs \<le> n - length acc" using law(2) by auto
      ultimately show ?thesis using False rd None law(3)
        by (subst read_at_least.simps) (simp add: algebra_simps)
    next
      case (Some err)
      have "rest r' = []" "err = fin r" using rd_end [OF less.prems(1) m] rd Some by auto
      then show ?thesis using False rd Some law by (subst read_at_least.simps) simp
    qed
  qed
qed

text \<open>\<open>ReadFull\<close> returns, with the next \<open>n\<close> bytes, and its error tells how the data ended.\<close>

lemma ReadFull_spec:
  assumes "ok r"
  shows "\<exists>r'. ReadFull rd n r = Some (take n (rest r),
      if n \<le> length (rest r) then None
      else if rest r \<noteq> [] \<and> fin r = ErrEOF then Some ErrUnexpectedEOF else Some (fin r), r') \<and>
    ok r' \<and> rest r' = drop n (rest r) \<and> fin r' = fin r"
proof -
  obtain e r' where "read_at_least rd n [] r = Some (take n (rest r), e, r')" "ok r'"
    "rest r' = drop n (rest r)" "fin r' = fin r" "length (rest r) < n \<longrightarrow> e = Some (fin r)"
    using read_at_least_spec [OF assms, of "[]" n] by auto
  then show ?thesis by (auto simp: ReadFull_def not_le)
qed

end

text \<open>
  A reader that never returns nothing without an error, as \<^verbatim>\<open>io.Reader\<close> asks of implementations;
  then the bytes still to come are a bound on the reads.
\<close>

locale eager_source = byte_source rd ok rest fin rank
  for rd :: "'r \<Rightarrow> nat \<Rightarrow> bytes \<times> goerr option \<times> 'r" and ok rest fin rank +
  assumes rd_some: "ok r \<Longrightarrow> 0 < n \<Longrightarrow> rd r n = (bs, None, r') \<Longrightarrow> bs \<noteq> []"

text \<open>
  The simplest reader: a body received in segments of arbitrary sizes, ended by \<^verbatim>\<open>io.EOF\<close> or an
  error. A segment longer than the buffer is delivered in parts.
\<close>

record seg_reader =
  sg_segs :: "bytes list"
  sg_fin :: goerr

fun seg_read :: "seg_reader \<Rightarrow> nat \<Rightarrow> bytes \<times> goerr option \<times> seg_reader" where
  "seg_read r n =
     (case sg_segs r of
        [] \<Rightarrow> ([], Some (sg_fin r), r)
      | s # ss \<Rightarrow>
          (take n s, None, r\<lparr>sg_segs := (if length s \<le> n then ss else drop n s # ss)\<rparr>))"

interpretation seg: byte_source seg_read "\<lambda>_. True" "\<lambda>r. concat (sg_segs r)" sg_fin
  "\<lambda>r. length (concat (sg_segs r)) + length (sg_segs r)"
  by unfold_locales (auto split: list.splits if_splits)

definition segs_ok :: "seg_reader \<Rightarrow> bool" where
  "segs_ok r \<longleftrightarrow> [] \<notin> set (sg_segs r)"

interpretation full_seg: eager_source seg_read segs_ok "\<lambda>r. concat (sg_segs r)" sg_fin
  "\<lambda>r. length (concat (sg_segs r)) + length (sg_segs r)"
  by unfold_locales (auto simp: segs_ok_def split: list.splits if_splits)

end
