(* ===== verification/Backend.thy ===== *)
theory Backend
  imports Replicate IOReader
begin

text \<open>
  The rest of the freehost backend, \<^verbatim>\<open>internal/storage/freehost/backend.go\<close>: construction, the
  chunking upload loop, sequential failover, deletion, verification and repair. The hosts are a
  parameter: a record of the three calls of the \<^verbatim>\<open>Provider\<close> interface, each an action on the state
  of the outside world. What the theorems rely on of them is the predicate \<open>honest\<close>.

  A downloaded body is its bytes and the error that ends it, if any; \<open>None\<close> is a clean end.
\<close>

type_synonym body = "bytes \<times> goerr option"

record 'w hosts =
  h_upload :: "string \<Rightarrow> bytes \<Rightarrow> string \<Rightarrow> string \<Rightarrow> ('w, string \<times> string) act"
  h_download :: "string \<Rightarrow> string \<Rightarrow> int \<Rightarrow> int \<Rightarrow> ('w, body) act"
  h_delete :: "string \<Rightarrow> string \<Rightarrow> string \<Rightarrow> ('w, unit) act"

record bcfg =
  bc_chunkSize :: int
  bc_replicas :: nat
  bc_sync :: int
  bc_conc :: int

record options =
  op_providers :: "provider list"
  op_chunkSize :: int
  op_replication :: int
  op_sync :: int
  op_conc :: int

record 'w bstate =
  bs_pool :: pool
  bs_world :: 'w

section \<open>Construction\<close>

definition NewBackend :: "options \<Rightarrow> goerr + bcfg \<times> pool" where
  "NewBackend opts =
     (if op_providers opts = [] then Inl (ErrMsg ''freehost: no providers enabled'')
      else
        let chunkSize = (if op_chunkSize opts \<le> 0 then 80 * 2 ^ 20 else op_chunkSize opts);
            repl = (if op_replication opts < 1 then 1 else op_replication opts);
            conc = (if op_conc opts < 1 then 6 else op_conc opts);
            sync = (if op_sync opts \<le> 0 \<or> op_sync opts > repl then repl else op_sync opts);
            p = newPool (op_providers opts)
        in if \<not> hasDurable p then Inl (ErrMsg ''freehost: at least one durable provider must be enabled'')
           else Inr (\<lparr>bc_chunkSize = chunkSize, bc_replicas = nat repl, bc_sync = sync,
                      bc_conc = conc\<rparr>, p))"

section \<open>The upload loop\<close>

text \<open>
  \<open>uc seq offset data\<close> is the call of \<open>uploadChunk\<close>. The loop returns its chunks together with its
  error, as the code does on every path.
\<close>

partial_function (option) upload_loop ::
  "('r \<Rightarrow> nat \<Rightarrow> bytes \<times> goerr option \<times> 'r) \<Rightarrow> (nat \<Rightarrow> int \<Rightarrow> bytes \<Rightarrow> ('s, chunk) act) \<Rightarrow> nat \<Rightarrow>
   nat \<Rightarrow> int \<Rightarrow> chunk list \<Rightarrow> 'r \<Rightarrow> 's \<Rightarrow> (chunk list \<times> goerr option \<times> 'r \<times> 's) option" where
  "upload_loop rd uc sz seq offset chunks r s =
     (case ReadFull rd sz r of
        None \<Rightarrow> None
      | Some (data, rerr, r') \<Rightarrow>
          (case (if data \<noteq> []
                 then (case uc seq offset data s of
                    (Inl e, s') \<Rightarrow> (Some e, chunks, offset, s')
                  | (Inr c, s') \<Rightarrow> (None, chunks @ [c], offset + int (length data), s'))
                 else (None, chunks, offset, s)) of
             (Some e, chunks', _, s') \<Rightarrow> Some (chunks', Some e, r', s')
           | (None, chunks', offset', s') \<Rightarrow>
               if rerr = Some ErrEOF \<or> rerr = Some ErrUnexpectedEOF then Some (chunks', None, r', s')
               else if rerr \<noteq> None then Some (chunks', rerr, r', s')
               else upload_loop rd uc sz (seq + 1) offset' chunks' r' s'))"

definition upload :: "('r \<Rightarrow> nat \<Rightarrow> bytes \<times> goerr option \<times> 'r) \<Rightarrow> (nat \<Rightarrow> int \<Rightarrow> bytes \<Rightarrow> ('s, chunk) act) \<Rightarrow>
    bcfg \<Rightarrow> 'r \<Rightarrow> 's \<Rightarrow> (chunk list \<times> goerr option \<times> 'r \<times> 's) option" where
  "upload rd uc cfg r s = upload_loop rd uc (nat (bc_chunkSize cfg)) 0 0 [] r s"

section \<open>Reading a replica\<close>

definition limit_reader :: "int \<Rightarrow> body \<Rightarrow> body" where
  "limit_reader n b = (if n \<le> int (length (fst b)) then (take (nat n) (fst b), None) else b)"

definition ReadAll :: "body \<Rightarrow> goerr + bytes" where
  "ReadAll b = (case snd b of None \<Rightarrow> Inr (fst b) | Some e \<Rightarrow> Inl e)"

definition readReplicaBytes :: "'w hosts \<Rightarrow> string \<Rightarrow> string \<Rightarrow> int \<Rightarrow> int \<Rightarrow> ('w, bytes) act" where
  "readReplicaBytes H prov loc off len =
     bindE (h_download H prov loc off len)
       (\<lambda>rc w. (ReadAll (if len > 0 then limit_reader len rc else rc), w))"

fun openReplica :: "'w hosts \<Rightarrow> pool \<Rightarrow> replica list \<Rightarrow> int \<Rightarrow> int \<Rightarrow> goerr option \<Rightarrow> ('w, body) act" where
  "openReplica H p [] off len lastErr w =
     (Inl (ErrWrap ''freehost: all replicas failed''
        (case lastErr of None \<Rightarrow> ErrMsg ''freehost: chunk has no replicas'' | Some e \<Rightarrow> e)), w)"
| "openReplica H p (rep # reps) off len lastErr w =
     (case pool_get p (rp_provider rep) of
        None \<Rightarrow> openReplica H p reps off len (Some (ErrMsg ''freehost: provider not enabled'')) w
      | Some prov \<Rightarrow>
          (case h_download H (rp_provider rep) (rp_locator rep) off len w of
             (Inl e, w') \<Rightarrow> openReplica H p reps off len (Some e) w'
           | (Inr rc, w') \<Rightarrow> (Inr rc, w')))"

definition Download :: "'w hosts \<Rightarrow> pool \<Rightarrow> chunk_ref \<Rightarrow> ('w, body) act" where
  "Download H p ref = openReplica H p (cr_replicas ref) 0 0 None"

definition DownloadRange :: "'w hosts \<Rightarrow> pool \<Rightarrow> chunk_ref \<Rightarrow> int \<Rightarrow> int \<Rightarrow> ('w, body) act" where
  "DownloadRange H p ref off len = openReplica H p (cr_replicas ref) off len None"

section \<open>Deleting\<close>

fun delete_replicas_loop :: "'w hosts \<Rightarrow> pool \<Rightarrow> replica list \<Rightarrow> goerr option \<Rightarrow> 'w \<Rightarrow> goerr option \<times> 'w" where
  "delete_replicas_loop H p [] firstErr w = (firstErr, w)"
| "delete_replicas_loop H p (rep # reps) firstErr w =
     (case pool_get p (rp_provider rep) of
        None \<Rightarrow> delete_replicas_loop H p reps firstErr w
      | Some prov \<Rightarrow>
          (case h_delete H (rp_provider rep) (rp_locator rep) (rp_token rep) w of
             (Inl e, w') \<Rightarrow> delete_replicas_loop H p reps (if firstErr = None then Some e else firstErr) w'
           | (Inr _, w') \<Rightarrow> delete_replicas_loop H p reps firstErr w'))"

definition DeleteChunk :: "'w hosts \<Rightarrow> pool \<Rightarrow> chunk_ref \<Rightarrow> 'w \<Rightarrow> goerr option \<times> 'w" where
  "DeleteChunk H p ref w = delete_replicas_loop H p (cr_replicas ref) None w"

fun delete_batch_loop :: "'w hosts \<Rightarrow> pool \<Rightarrow> chunk_ref list \<Rightarrow> goerr option \<Rightarrow> 'w \<Rightarrow> goerr option \<times> 'w" where
  "delete_batch_loop H p [] firstErr w = (firstErr, w)"
| "delete_batch_loop H p (ref # refs) firstErr w =
     (case DeleteChunk H p ref w of
        (Some e, w') \<Rightarrow> delete_batch_loop H p refs (if firstErr = None then Some e else firstErr) w'
      | (None, w') \<Rightarrow> delete_batch_loop H p refs firstErr w')"

definition DeleteBatch :: "'w hosts \<Rightarrow> pool \<Rightarrow> chunk_ref list \<Rightarrow> 'w \<Rightarrow> goerr option \<times> 'w" where
  "DeleteBatch H p refs w = delete_batch_loop H p refs None w"

section \<open>Verification and repair\<close>

definition Verify :: "'w hosts \<Rightarrow> pool \<Rightarrow> replica \<Rightarrow> ('w, unit) act" where
  "Verify H p rep w =
     (case pool_get p (rp_provider rep) of
        None \<Rightarrow> (Inl (ErrMsg ''freehost: provider not enabled''), w)
      | Some prov \<Rightarrow>
          (case h_download H (rp_provider rep) (rp_locator rep) 0 1 w of
             (Inl e, w') \<Rightarrow> (Inl e, w')
           | (Inr rc, w') \<Rightarrow> (Inr (), w')))"

definition shortHash :: "(bytes \<Rightarrow> bytes) \<Rightarrow> (bytes \<Rightarrow> string) \<Rightarrow> string \<Rightarrow> string" where
  "shortHash sha256 hex name = hex (take 8 (sha256 name))"

definition anyDurable :: "pool \<Rightarrow> replica list \<Rightarrow> bool" where
  "anyDurable p reps = list_ex (\<lambda>r. case pool_get p (rp_provider r) of
     None \<Rightarrow> False | Some prov \<Rightarrow> pv_durable prov) reps"

fun replicate_loop :: "'w hosts \<Rightarrow> bytes \<Rightarrow> string \<Rightarrow> nat \<Rightarrow> provider list \<Rightarrow> string set \<Rightarrow> replica list \<Rightarrow>
    'w bstate \<Rightarrow> replica list \<times> 'w bstate" where
  "replicate_loop H data filename need [] used out s = (out, s)"
| "replicate_loop H data filename need (prov # provs) used out s =
     (if length out \<ge> need then (out, s)
      else if pv_name prov \<in> used then replicate_loop H data filename need provs used out s
      else
        (case h_upload H (pv_name prov) data filename ''application/octet-stream'' (bs_world s) of
           (Inl e, w') \<Rightarrow> replicate_loop H data filename need provs used out
             (s\<lparr>bs_pool := markFailed (pv_name prov) (bs_pool s), bs_world := w'\<rparr>)
         | (Inr (loc, tok), w') \<Rightarrow> replicate_loop H data filename need provs
             (insert (pv_name prov) used)
             (out @ [\<lparr>rp_provider = pv_name prov, rp_locator = loc, rp_token = tok\<rparr>])
             (s\<lparr>bs_pool := markHealthy (pv_name prov) (bs_pool s), bs_world := w'\<rparr>)))"

definition replicateExtra :: "(string \<Rightarrow> string) \<Rightarrow> 'w hosts \<Rightarrow> bytes \<Rightarrow> string set \<Rightarrow> int \<Rightarrow> 'w bstate \<Rightarrow>
    replica list \<times> 'w bstate" where
  "replicateExtra hash H data used need s =
     (if need \<le> 0 then ([], s)
      else
        let filename = ''repair-'' @ hash (take 64 data) @ ''.bin'';
            (cands, p') = candidates (int (length data)) (bs_pool s)
        in replicate_loop H data filename (nat need) cands used [] (s\<lparr>bs_pool := p'\<rparr>))"

fun live_loop :: "'w hosts \<Rightarrow> pool \<Rightarrow> replica list \<Rightarrow> 'w \<Rightarrow> replica list \<times> bool \<times> 'w" where
  "live_loop H p [] w = ([], False, w)"
| "live_loop H p (rep # reps) w =
     (case Verify H p rep w of
        (Inl e, w') \<Rightarrow> (case live_loop H p reps w' of (live, _, w'') \<Rightarrow> (live, True, w''))
      | (Inr _, w') \<Rightarrow> (case live_loop H p reps w' of (live, dead, w'') \<Rightarrow> (rep # live, dead, w'')))"

definition RepairChunk :: "(string \<Rightarrow> string) \<Rightarrow> 'w hosts \<Rightarrow> bcfg \<Rightarrow> chunk_ref \<Rightarrow> ('w bstate, chunk_ref \<times> bool) act" where
  "RepairChunk hash H cfg ref s =
     (case live_loop H (bs_pool s) (cr_replicas ref) (bs_world s) of
        (live, dead, w1) \<Rightarrow>
          let s1 = s\<lparr>bs_world := w1\<rparr> in
          if live = [] then (Inl (ErrMsg ''freehost: all replicas dead, chunk unrecoverable''), s1)
          else if length live \<ge> bc_replicas cfg \<and> \<not> dead then (Inr (ref, False), s1)
          else if length live < bc_replicas cfg then
            (case openReplica H (bs_pool s1) live 0 0 None (bs_world s1) of
               (Inl e, w2) \<Rightarrow> (Inl e, s1\<lparr>bs_world := w2\<rparr>)
             | (Inr rc, w2) \<Rightarrow>
                 (case ReadAll rc of
                    Inl e \<Rightarrow> (Inl e, s1\<lparr>bs_world := w2\<rparr>)
                  | Inr data \<Rightarrow>
                      (case replicateExtra hash H data (rp_provider ` set live)
                          (int (bc_replicas cfg) - int (length live)) (s1\<lparr>bs_world := w2\<rparr>) of
                         (extra, s2) \<Rightarrow>
                           let newReps = live @ extra in
                           (Inr (\<lparr>cr_size = cr_size ref, cr_replicas = newReps\<rparr>,
                              dead \<or> length newReps \<noteq> length (cr_replicas ref)), s2))))
          else (Inr (\<lparr>cr_size = cr_size ref, cr_replicas = live\<rparr>,
                  dead \<or> length live \<noteq> length (cr_replicas ref)), s1))"

section \<open>The upload loop splits the body\<close>

function pieces :: "nat \<Rightarrow> bytes \<Rightarrow> bytes list" where
  "pieces c bs = (if bs = [] \<or> c = 0 then [] else take c bs # pieces c (drop c bs))"
  by auto
termination by (relation "measure (\<lambda>(c, bs). length bs)") auto

declare pieces.simps [simp del]

lemma pieces_Nil [simp]: "pieces c [] = []"
  by (simp add: pieces.simps)

lemma pieces_step: "0 < c \<Longrightarrow> bs \<noteq> [] \<Longrightarrow> pieces c bs = take c bs # pieces c (drop c bs)"
  by (subst pieces.simps) simp

lemma concat_pieces: "0 < c \<Longrightarrow> concat (pieces c bs) = bs"
  by (induction c bs rule: pieces.induct) (subst pieces.simps, auto)

lemma pieces_sizes:
  "0 < c \<Longrightarrow> p \<in> set (pieces c bs) \<Longrightarrow> p \<noteq> [] \<and> length p \<le> c"
proof (induction c bs rule: pieces.induct)
  case (1 c bs)
  then show ?case by (cases "bs = []") (auto simp: pieces_step)
qed

lemma pieces_full:
  assumes "0 < c" and "Suc i < length (pieces c bs)"
  shows "length (pieces c bs ! i) = c"
  using assms
proof (induction c bs arbitrary: i rule: pieces.induct)
  case (1 c bs)
  then have ne: "bs \<noteq> []" by auto
  show ?case
  proof (cases i)
    case 0
    with 1 ne have "pieces c (drop c bs) \<noteq> []" by (auto simp: pieces_step)
    then have "drop c bs \<noteq> []" by auto
    with 0 1 ne show ?thesis by (simp add: pieces_step)
  next
    case (Suc j)
    with 1 ne show ?thesis by (auto simp: pieces_step)
  qed
qed

fun upload_all :: "(nat \<Rightarrow> int \<Rightarrow> bytes \<Rightarrow> ('s, chunk) act) \<Rightarrow> nat \<Rightarrow> int \<Rightarrow> bytes list \<Rightarrow> chunk list \<Rightarrow> 's \<Rightarrow>
    chunk list \<times> goerr option \<times> 's" where
  "upload_all uc seq off [] chunks s = (chunks, None, s)"
| "upload_all uc seq off (p # ps) chunks s =
     (case uc seq off p s of
        (Inl e, s') \<Rightarrow> (chunks, Some e, s')
      | (Inr c, s') \<Rightarrow> upload_all uc (seq + 1) (off + int (length p)) ps (chunks @ [c]) s')"

context byte_source
begin

text \<open>
  On a body that ends with \<^verbatim>\<open>io.EOF\<close> the loop returns, having uploaded the pieces in order. It does not
  tell \<^verbatim>\<open>io.ErrUnexpectedEOF\<close> of the body from that of \<^verbatim>\<open>io.ReadFull\<close>, and takes it for the end too.
\<close>

lemma upload_loop_pieces:
  assumes "ok r" and "fin r = ErrEOF \<or> fin r = ErrUnexpectedEOF" and "0 < sz"
  shows "\<exists>r'. upload_loop rd uc sz seq off chunks r s =
    (case upload_all uc seq off (pieces sz (rest r)) chunks s of (cs, e, s') \<Rightarrow> Some (cs, e, r', s')) \<and>
    ok r' \<and> (fst (snd (upload_all uc seq off (pieces sz (rest r)) chunks s)) = None \<longrightarrow> rest r' = [])"
  using assms(1,2)
proof (induction "length (rest r)" arbitrary: r seq off chunks s rule: less_induct)
  case less
  obtain r' where rf: "ReadFull rd sz r = Some (take sz (rest r),
      if sz \<le> length (rest r) then None
      else if rest r \<noteq> [] \<and> fin r = ErrEOF then Some ErrUnexpectedEOF else Some (fin r), r')"
    and r': "ok r'" "rest r' = drop sz (rest r)" "fin r' = fin r"
    using ReadFull_spec [OF less.prems(1), of sz] by blast
  show ?case
  proof (cases "rest r = []")
    case True
    with rf r' less.prems assms(3) show ?thesis by (subst upload_loop.simps) simp
  next
    case False
    then have ps: "pieces sz (rest r) = take sz (rest r) # pieces sz (drop sz (rest r))"
      using assms(3) by (rule pieces_step [rotated])
    have ne: "take sz (rest r) \<noteq> []" using False assms(3) by simp
    obtain res s' where u: "uc seq off (take sz (rest r)) s = (res, s')" by (metis surj_pair)
    show ?thesis
    proof (cases res)
      case (Inl e)
      with rf ne u ps r' show ?thesis by (subst upload_loop.simps) simp
    next
      case (Inr c)
      show ?thesis
      proof (cases "sz \<le> length (rest r)")
        case True
        have "length (rest r') < length (rest r)" using r'(2) False assms(3) by simp
        with less.hyps [of r' "seq + 1" "off + int (length (take sz (rest r)))" "chunks @ [c]" s']
        have "\<exists>r''. upload_loop rd uc sz (seq + 1) (off + int (length (take sz (rest r)))) (chunks @ [c]) r' s' =
          (case upload_all uc (seq + 1) (off + int (length (take sz (rest r)))) (pieces sz (rest r')) (chunks @ [c]) s' of
             (cs, e, s') \<Rightarrow> Some (cs, e, r'', s')) \<and> ok r'' \<and>
          (fst (snd (upload_all uc (seq + 1) (off + int (length (take sz (rest r)))) (pieces sz (rest r')) (chunks @ [c]) s')) = None
            \<longrightarrow> rest r'' = [])"
          using r' less.prems by simp
        then show ?thesis using rf ne u ps Inr True r'(2) by (subst upload_loop.simps) simp
      next
        case short: False
        then have "pieces sz (drop sz (rest r)) = []" by simp
        with rf ne u ps Inr short False less.prems r' show ?thesis by (subst upload_loop.simps) auto
      qed
    qed
  qed
qed

lemma upload_loop_fin:
  assumes "ok r" and "0 < sz" and "upload_loop rd uc sz seq off chunks r s = Some (cs, None, r1, s1)"
  shows "fin r = ErrEOF \<or> fin r = ErrUnexpectedEOF"
  using assms(1,3)
proof (induction "length (rest r)" arbitrary: r seq off chunks s rule: less_induct)
  case less
  obtain r' where rf: "ReadFull rd sz r = Some (take sz (rest r),
      if sz \<le> length (rest r) then None
      else if rest r \<noteq> [] \<and> fin r = ErrEOF then Some ErrUnexpectedEOF else Some (fin r), r')"
    and r': "ok r'" "rest r' = drop sz (rest r)" "fin r' = fin r"
    using ReadFull_spec [OF less.prems(1), of sz] by blast
  show ?case
  proof (cases "sz \<le> length (rest r)")
    case True
    then have "rest r \<noteq> []" "length (rest r') < length (rest r)" using assms(2) r'(2) by auto
    moreover obtain seq' off' chunks' s' where "upload_loop rd uc sz seq' off' chunks' r' s' = Some (cs, None, r1, s1)"
      using less.prems(2) rf True by (subst (asm) upload_loop.simps) (auto split: sum.splits if_splits prod.splits)
    ultimately show ?thesis using less.hyps r' by metis
  next
    case False
    with less.prems(2) rf show ?thesis
      by (subst (asm) upload_loop.simps) (auto split: sum.splits if_splits prod.splits)
  qed
qed

end

end
