(* ===== verification/StoreLayout.thy ===== *)
theory StoreLayout
  imports StoreHeal Backend
begin

text \<open>
  The layout of the objects in the metadata store: an object's chunks are numbered from 0, contiguous
  from offset 0, none of them empty, and together as long as the object. The store does not check
  this; it keeps it when what the gateway hands it has it, which is shown here operation by operation.
\<close>

section \<open>Laid-out chunk maps\<close>

fun laid_out :: "int \<Rightarrow> int \<Rightarrow> mchunk list \<Rightarrow> bool" where
  "laid_out seq off [] = True"
| "laid_out seq off (c # cs) \<longleftrightarrow>
     mc_seq c = seq \<and> mc_offset c = off \<and> 0 < mc_size c \<and> laid_out (seq + 1) (off + mc_size c) cs"

abbreviation span :: "mchunk list \<Rightarrow> int" where
  "span cs \<equiv> sum_list (map mc_size cs)"

definition chunk_map_ok :: "mchunk list \<Rightarrow> int \<Rightarrow> bool" where
  "chunk_map_ok cs sz \<longleftrightarrow> laid_out 0 0 cs \<and> sz = span cs"

definition sized :: "mchunk list \<Rightarrow> bool" where
  "sized cs \<longleftrightarrow> list_all (\<lambda>c. 0 < mc_size c) cs"

lemma laid_out_append:
  "laid_out seq off (cs @ cs') \<longleftrightarrow> laid_out seq off cs \<and> laid_out (seq + int (length cs)) (off + span cs) cs'"
  by (induction cs arbitrary: seq off) (auto simp: algebra_simps)

lemma laid_out_sized: "laid_out seq off cs \<Longrightarrow> sized cs"
  by (induction cs arbitrary: seq off) (auto simp: sized_def)

lemma laid_out_seq: "laid_out seq off cs \<Longrightarrow> c \<in> set cs \<Longrightarrow> seq \<le> mc_seq c"
  by (induction cs arbitrary: seq off) fastforce+

lemma laid_out_ascending: "laid_out seq off cs \<Longrightarrow> ascending cs"
proof (induction cs arbitrary: seq off)
  case (Cons c cs)
  then show ?case using laid_out_seq [of "seq + 1" _ cs] by fastforce
qed simp

lemma laid_out_replicas:
  "(\<And>c. mc_seq (f c) = mc_seq c \<and> mc_size (f c) = mc_size c \<and> mc_offset (f c) = mc_offset c) \<Longrightarrow>
   laid_out seq off (map f cs) = laid_out seq off cs"
  by (induction cs arbitrary: seq off) simp_all

lemma chunk_map_ok_replicas:
  "(\<And>c. mc_seq (f c) = mc_seq c \<and> mc_size (f c) = mc_size c \<and> mc_offset (f c) = mc_offset c) \<Longrightarrow>
   chunk_map_ok (map f cs) sz = chunk_map_ok cs sz"
  by (simp add: chunk_map_ok_def laid_out_replicas comp_def)

section \<open>The invariant of the database\<close>

definition layout_ok :: "tables \<Rightarrow> bool" where
  "layout_ok t \<longleftrightarrow>
     (\<forall>p v. lookup t p = Some v \<longrightarrow> chunk_map_ok (st_chunks v) (o_size (st_row v))) \<and>
     (\<forall>r \<in> set (t_pchunks t). 0 < pc_size r)"

definition db_inv :: "db \<Rightarrow> bool" where
  "db_inv d \<longleftrightarrow> wf d \<and> layout_ok (tabs d)"

lemma db_inv_migrate: "db_inv \<lparr>tabs = migrate, faults = fs\<rparr>"
  by (auto simp: db_inv_def layout_ok_def wf_migrate) (auto simp: migrate_def lookup_def live_rows_def)

lemma keeps_db_inv:
  assumes "keeps wf m" and "atomic m"
    and "\<And>d d' x. wf d \<Longrightarrow> layout_ok (tabs d) \<Longrightarrow> m d = (Inr x, d') \<Longrightarrow> layout_ok (tabs d')"
  shows "keeps db_inv m"
proof (rule keepsI)
  fix d assume d: "db_inv d"
  obtain r d' where m: "m d = (r, d')" by (cases "m d")
  have "wf d'" using keepsD' [OF assms(1) _ m] d by (simp add: db_inv_def)
  moreover have "layout_ok (tabs d')"
    using assms(2,3) d m by (cases r) (auto simp: atomic_def db_inv_def)
  ultimately show "db_inv (snd (m d))" by (simp add: db_inv_def m)
qed

lemma keeps_tabs_inv:
  assumes "\<And>d. tabs (snd (m d)) = tabs d"
  shows "keeps db_inv m"
  by (rule keepsI) (simp add: db_inv_def assms)

lemma layout_cong:
  assumes "layout_ok t" and "lookup t' = lookup t" and "set (t_pchunks t') \<subseteq> set (t_pchunks t)"
  shows "layout_ok t'"
  using assms by (auto simp: layout_ok_def)

lemma layout_frame:
  assumes "layout_ok t" and "t_objects t' = t_objects t" and "t_chunks t' = t_chunks t"
    and "t_replicas t' = t_replicas t" and "t_ometa t' = t_ometa t" and "t_pchunks t' = t_pchunks t"
  shows "layout_ok t'"
  by (rule layout_cong [OF assms(1) lookup_cong [OF assms(2-5)]]) (simp only: assms(6) subset_refl)

section \<open>The operations that write\<close>

lemma layout_put:
  assumes "wf_tables t" and "layout_ok t" and "chunk_map_ok chunks (ob_size obj)"
  shows "layout_ok (put_tables obj chunks t)"
proof -
  have "ascending chunks" using assms(3) by (auto simp: chunk_map_ok_def intro: laid_out_ascending)
  with assms(1) have "lookup (put_tables obj chunks t) = (lookup t)((ob_bucket obj, ob_key obj) \<mapsto> stored_of obj chunks t)"
    by (rule lookup_put)
  moreover have "t_pchunks (put_tables obj chunks t) = t_pchunks t" by (simp add: put_tables_def Let_def)
  ultimately show ?thesis
    using assms(2,3) by (auto simp: layout_ok_def stored_of_def upserted_row_def)
qed

lemma inv_PutObject:
  assumes "chunk_map_ok chunks (ob_size obj)"
  shows "keeps db_inv (PutObject now obj chunks)"
proof (rule keeps_db_inv [OF keeps_PutObject])
  show "atomic (PutObject now obj chunks)" by (simp add: PutObject_def Let_def atomic_tx)
  fix d d' x assume "wf d" "layout_ok (tabs d)" "PutObject now obj chunks d = (Inr x, d')"
  then show "layout_ok (tabs d')"
    using layout_put [of "tabs d" chunks "stamp now obj"] assms by (simp add: PutObject_effect)
qed

lemma inv_FinalizeMultipartUpload:
  assumes "chunk_map_ok chunks (ob_size obj)"
  shows "keeps db_inv (FinalizeMultipartUpload now obj chunks uid)"
proof (rule keeps_db_inv [OF keeps_FinalizeMultipartUpload])
  show "atomic (FinalizeMultipartUpload now obj chunks uid)" by (simp add: FinalizeMultipartUpload_def Let_def atomic_tx)
  fix d d' x assume a: "wf d" "layout_ok (tabs d)" "FinalizeMultipartUpload now obj chunks uid d = (Inr x, d')"
  let ?t = "put_tables (stamp now obj) chunks (tabs d)"
  have "layout_ok ?t" using layout_put [of "tabs d" chunks "stamp now obj"] assms a by simp
  then have "layout_ok (drop_upload uid ?t)" by (rule layout_cong) (simp, auto simp: drop_upload_def)
  then show "layout_ok (tabs d')" using a(3) by (simp add: FinalizeMultipartUpload_effect)
qed

lemma inv_DeleteObject: "keeps db_inv (DeleteObject b k)"
proof (rule keeps_db_inv [OF keeps_DeleteObject])
  show "atomic (DeleteObject b k)" by (simp add: DeleteObject_def atomic_tx)
  fix d d' x assume a: "layout_ok (tabs d)" "DeleteObject b k d = (Inr x, d')"
  then have "lookup (tabs d') = (lookup (tabs d))((b, k) := None)" by (simp add: lookup_delete)
  moreover have "t_pchunks (tabs d') = t_pchunks (tabs d)" using a(2) by (simp add: DeleteObject_effect)
  ultimately show "layout_ok (tabs d')" using a(1) by (auto simp: layout_ok_def)
qed

lemma lookup_fewer_objects:
  assumes "lookup (t\<lparr>t_buckets := bs, t_objects := delete_rows P (t_objects t)\<rparr>) p = Some v"
    and "wf_tables t"
  shows "lookup t p = Some v"
proof -
  obtain b k where p: "p = (b, k)" by (cases p)
  let ?t = "t\<lparr>t_buckets := bs, t_objects := delete_rows P (t_objects t)\<rparr>"
  have "uniq pk_object (t_objects t)" using assms(2) by (simp add: wf_tables_def)
  then have u: "length (live_rows t b k) \<le> 1"
  proof -
    have "distinct (map pk_object (live_rows t b k))"
      using \<open>uniq pk_object (t_objects t)\<close> by (simp add: uniq_def live_rows_def distinct_map_filter)
    moreover have "set (map pk_object (live_rows t b k)) \<subseteq> {(b, k)}" by (auto simp: live_rows_def pk_object_def)
    ultimately show ?thesis using card_mono [of "{(b, k)}"] by (metis distinct_card finite.emptyI finite_insert length_map card.empty card_insert_disjoint One_nat_def empty_iff)
  qed
  have s: "set (live_rows ?t b k) \<subseteq> set (live_rows t b k)" by (auto simp: live_rows_def delete_rows_def)
  have same: "read_chunks ?t b k = read_chunks t b k" "read_meta ?t b k = read_meta t b k"
    by (simp_all add: read_chunks_def read_replicas_def read_meta_def)
  obtain r rs where r: "live_rows ?t b k = r # rs" and v: "v = \<lparr>st_row = r, st_chunks = read_chunks t b k, st_meta = read_meta t b k\<rparr>"
    using assms(1) same by (auto simp: p lookup_def split: list.splits)
  have "r \<in> set (live_rows t b k)" using s r by auto
  then have "live_rows t b k = [r]" using u by (cases "live_rows t b k") auto
  then show ?thesis by (simp add: p lookup_def v)
qed

lemma inv_DeleteBucket: "keeps db_inv (DeleteBucket n)"
proof (rule keeps_db_inv [OF keeps_DeleteBucket atomic_DeleteBucket])
  fix d d' x assume a: "wf d" "layout_ok (tabs d)" "DeleteBucket n d = (Inr x, d')"
  let ?P = "\<lambda>r. o_bucket r \<in> b_name ` set (filter (\<lambda>b. b_name b = n) (t_buckets (tabs d)))"
  from a(3) have t: "tabs d' = (tabs d)\<lparr>t_buckets := delete_rows (\<lambda>r. b_name r = n) (t_buckets (tabs d)),
      t_objects := delete_rows ?P (t_objects (tabs d))\<rparr>"
    unfolding DeleteBucket_def by - (erule bindE_InrE, drule stmt_InrD, simp split: if_splits)
  have "lookup (tabs d) p = Some v" if "lookup (tabs d') p = Some v" for p v
    using lookup_fewer_objects [OF _ a(1)] that unfolding t by blast
  moreover have "t_pchunks (tabs d') = t_pchunks (tabs d)" unfolding t by simp
  ultimately show "layout_ok (tabs d')" using a(2) unfolding layout_ok_def by metis
qed

lemma inv_CreateBucket: "keeps db_inv (CreateBucket now n)"
proof (rule keeps_db_inv [OF keeps_CreateBucket])
  show "atomic (CreateBucket now n)" by (simp add: CreateBucket_def insert_bucket_def atomic_stmt)
  fix d d' x assume a: "layout_ok (tabs d)" "CreateBucket now n d = (Inr x, d')"
  then obtain bs where t: "tabs d' = (tabs d)\<lparr>t_buckets := bs\<rparr>"
    by (auto simp: CreateBucket_def insert_bucket_def dest!: stmt_InrD split: option.splits) metis
  show "layout_ok (tabs d')" unfolding t by (rule layout_frame [OF a(1)]) simp_all
qed

text \<open>The operations on replicas leave every chunk its number, size and offset.\<close>

lemma layout_replicas:
  assumes "layout_ok t" and "t' = t\<lparr>t_replicas := rs\<rparr>"
  shows "layout_ok t'"
proof -
  have "chunk_map_ok (read_chunks t' b k) sz = chunk_map_ok (read_chunks t b k) sz" for b k sz
  proof -
    have "read_chunks t' b k = map (\<lambda>c. c\<lparr>mc_replicas := read_replicas t' b k (mc_seq c)\<rparr>) (read_chunks t b k)"
      by (simp add: read_chunks_def assms(2) chunk_of_row_def)
    then show ?thesis by (simp add: chunk_map_ok_replicas)
  qed
  moreover have "live_rows t' = live_rows t" by (simp add: assms(2) live_rows_def fun_eq_iff)
  ultimately show ?thesis
    using assms(1) by (fastforce simp: layout_ok_def lookup_def assms(2) split: list.splits)
qed

lemma inv_UpdateChunkReplicas: "keeps db_inv (UpdateChunkReplicas b k s rs)"
proof (rule keeps_db_inv [OF keeps_UpdateChunkReplicas])
  show "atomic (UpdateChunkReplicas b k s rs)" by (simp add: UpdateChunkReplicas_def atomic_tx)
  fix d d' x assume a: "layout_ok (tabs d)" "UpdateChunkReplicas b k s rs d = (Inr x, d')"
  then show "layout_ok (tabs d')" by (intro layout_replicas [OF a(1)]) (auto dest!: UpdateChunkReplicas_effect)
qed

lemma inv_AppendChunkReplica: "keeps db_inv (AppendChunkReplica b k s r e)"
proof (rule keeps_db_inv [OF keeps_AppendChunkReplica])
  show "atomic (AppendChunkReplica b k s r e)" by (simp add: AppendChunkReplica_def atomic_tx)
  fix d d' x assume a: "layout_ok (tabs d)" "AppendChunkReplica b k s r e d = (Inr x, d')"
  then have "tabs d' = tabs d \<or> (\<exists>rs. tabs d' = (tabs d)\<lparr>t_replicas := rs\<rparr>)"
    by (auto simp: AppendChunkReplica_def insert_replica_def elim!: tx_InrE bindE_InrE thenE_InrE
        dest!: query_InrD stmt_InrD split: list.splits if_splits option.splits) (metis)+
  then show "layout_ok (tabs d')" using a(1) layout_replicas [OF a(1)] by auto
qed

section \<open>The operations on uploads\<close>

lemma inv_insert_upload: "keeps db_inv (insert_upload r)"
proof (rule keeps_db_inv)
  show "keeps wf (insert_upload r)" by (rule keeps_intros)
  show "atomic (insert_upload r)" by (simp add: insert_upload_def atomic_stmt)
  fix d d' x assume a: "layout_ok (tabs d)" "insert_upload r d = (Inr x, d')"
  then obtain us where t: "tabs d' = (tabs d)\<lparr>t_uploads := us\<rparr>"
    by (auto simp: insert_upload_def dest!: stmt_InrD split: option.splits) metis
  show "layout_ok (tabs d')" unfolding t by (rule layout_frame [OF a(1)]) simp_all
qed

lemma inv_insert_umeta: "keeps db_inv (insert_umeta r)"
proof (rule keeps_db_inv)
  show "keeps wf (insert_umeta r)" by (rule keeps_intros)
  show "atomic (insert_umeta r)" by (simp add: insert_umeta_def atomic_stmt)
  fix d d' x assume a: "layout_ok (tabs d)" "insert_umeta r d = (Inr x, d')"
  then obtain us where t: "tabs d' = (tabs d)\<lparr>t_umeta := us\<rparr>"
    by (auto simp: insert_umeta_def dest!: stmt_InrD split: option.splits) metis
  show "layout_ok (tabs d')" unfolding t by (rule layout_frame [OF a(1)]) simp_all
qed

lemma inv_CreateMultipartUpload: "keeps db_inv (CreateMultipartUpload now u b k ct)"
  unfolding CreateMultipartUpload_def by (rule inv_insert_upload)

lemma inv_PutMultipartUploadMetadata: "keeps db_inv (PutMultipartUploadMetadata u kv)"
  unfolding PutMultipartUploadMetadata_def by (rule keeps_forE) (auto intro: inv_insert_umeta)

lemma inv_DeleteMultipartUpload: "keeps db_inv (DeleteMultipartUpload u)"
proof (rule keeps_db_inv)
  show "keeps wf (DeleteMultipartUpload u)" using keeps_run_op [of "OpDeleteMultipartUpload u"] by simp
  show "atomic (DeleteMultipartUpload u)" by (simp add: DeleteMultipartUpload_def atomic_tx)
  fix d d' x assume a: "layout_ok (tabs d)" "DeleteMultipartUpload u d = (Inr x, d')"
  then have t: "tabs d' = drop_upload u (tabs d)"
    by (auto simp: DeleteMultipartUpload_def elim!: tx_InrE thenE_InrE dest!: deleteMultipartTx_effect)
  show "layout_ok (tabs d')" unfolding t by (rule layout_cong [OF a(1) lookup_drop_upload]) (auto simp: drop_upload_def)
qed

text \<open>A part with sized chunks leaves only sized chunk rows, and its chunks read back sized.\<close>

lemma insert_preplica_frame:
  "keeps (\<lambda>d. lookup (tabs d) = L \<and> t_pchunks (tabs d) = Q) (insert_preplica r)"
proof (rule keepsI)
  fix d :: db assume "lookup (tabs d) = L \<and> t_pchunks (tabs d) = Q"
  moreover have "lookup (t\<lparr>t_preplicas := q\<rparr>) = lookup t" for t q by (rule lookup_cong) simp_all
  ultimately show "lookup (tabs (snd (insert_preplica r d))) = L \<and> t_pchunks (tabs (snd (insert_preplica r d))) = Q"
    by (auto simp: insert_preplica_def stmt_def split: list.splits option.splits sum.splits)
qed

lemma insert_pchunk_frame:
  assumes "insert_pchunk r d = (Inr y, d')"
  shows "lookup (tabs d') = lookup (tabs d) \<and> t_pchunks (tabs d') = t_pchunks (tabs d) @ [r]"
proof -
  have t: "tabs d' = (tabs d)\<lparr>t_pchunks := t_pchunks (tabs d) @ [r]\<rparr>"
    using assms unfolding insert_pchunk_def
    by (auto dest!: stmt_InrD simp: insert_row_def split: option.splits if_splits)
  have "lookup (tabs d') = lookup (tabs d)" unfolding t by (rule lookup_cong) simp_all
  with t show ?thesis by simp
qed

lemma inserted_pchunks:
  assumes "forE (\<lambda>c. thenE
             (insert_pchunk \<lparr>pc_upload = u, pc_part = n, pc_seq = mc_seq c, pc_size = mc_size c\<rparr>)
             (forE (\<lambda>(i, r). insert_preplica (f c i r)) (enumerate 0 (mc_replicas c)))) chunks d = (Inr x, d')"
  shows "lookup (tabs d') = lookup (tabs d) \<and>
    pc_size ` set (t_pchunks (tabs d')) = pc_size ` set (t_pchunks (tabs d)) \<union> mc_size ` set chunks"
  using assms
proof (induction chunks arbitrary: d)
  case (Cons c cs)
  let ?r = "\<lparr>pc_upload = u, pc_part = n, pc_seq = mc_seq c, pc_size = mc_size c\<rparr>"
  let ?reps = "forE (\<lambda>(i, r). insert_preplica (f c i r)) (enumerate 0 (mc_replicas c))"
  from Cons.prems obtain y d1 z d2 where one: "insert_pchunk ?r d = (Inr y, d1)" and two: "?reps d1 = (Inr z, d2)"
    and rest: "forE (\<lambda>c. thenE
             (insert_pchunk \<lparr>pc_upload = u, pc_part = n, pc_seq = mc_seq c, pc_size = mc_size c\<rparr>)
             (forE (\<lambda>(i, r). insert_preplica (f c i r)) (enumerate 0 (mc_replicas c)))) cs d2 = (Inr x, d')"
    by (auto elim!: thenE_InrE)
  have "keeps (\<lambda>d. lookup (tabs d) = L \<and> t_pchunks (tabs d) = Q) ?reps" for L Q
    by (rule keeps_forE) (auto intro: insert_preplica_frame)
  from keepsD' [OF this _ two] have "lookup (tabs d2) = lookup (tabs d1) \<and> t_pchunks (tabs d2) = t_pchunks (tabs d1)"
    by blast
  with insert_pchunk_frame [OF one] Cons.IH [OF rest] show ?case by auto
qed (simp add: retE_def)

lemma inv_PutMultipartPart:
  assumes "sized chunks"
  shows "keeps db_inv (PutMultipartPart u n e sz chunks)"
proof (rule keeps_db_inv [OF keeps_PutMultipartPart])
  show "atomic (PutMultipartPart u n e sz chunks)" by (simp add: PutMultipartPart_def atomic_tx)
  fix d d' x assume lay: "layout_ok (tabs d)" and run: "PutMultipartPart u n e sz chunks d = (Inr x, d')"
  obtain d0 d1 d2 d3 d4 a1 a2 a3 a4 where up: "upsert_part \<lparr>p_upload = u, p_num = n, p_etag = e, p_size = sz\<rparr> d0 = (Inr a1, d1)"
    and del: "delete_preplicas (\<lambda>r. pr_upload r = u \<and> pr_part r = n) d1 = (Inr a2, d2)"
      "delete_pchunks (\<lambda>r. pc_upload r = u \<and> pc_part r = n) d2 = (Inr a3, d3)"
    and ins: "forE (\<lambda>c. thenE
             (insert_pchunk \<lparr>pc_upload = u, pc_part = n, pc_seq = mc_seq c, pc_size = mc_size c\<rparr>)
             (forE (\<lambda>(i, r). insert_preplica (preplica_row_of u n (mc_seq c) (int i) r)) (enumerate 0 (mc_replicas c))))
           chunks d3 = (Inr a4, d4)"
    and fin: "tabs d0 = tabs d" "tabs d' = tabs d4"
    using run unfolding PutMultipartPart_def unit_eq [of x] by - (erule tx_InrE, (erule thenE_InrE)+, simp add: retE_def)
  have "lookup (tabs d1) = lookup (tabs d) \<and> t_pchunks (tabs d1) = t_pchunks (tabs d)"
    using up fin(1) unfolding upsert_part_def by (auto dest!: exec_InrD simp: Let_def intro!: lookup_cong)
  moreover have "lookup (tabs d2) = lookup (tabs d1) \<and> t_pchunks (tabs d2) = t_pchunks (tabs d1)"
    using del(1) unfolding delete_preplicas_def by (auto dest!: exec_InrD intro!: lookup_cong)
  moreover have "lookup (tabs d3) = lookup (tabs d2) \<and> set (t_pchunks (tabs d3)) \<subseteq> set (t_pchunks (tabs d2))"
    using del(2) unfolding delete_pchunks_def by (auto dest!: exec_InrD intro!: lookup_cong)
  moreover note inserted_pchunks [OF ins]
  ultimately have l: "lookup (tabs d') = lookup (tabs d)"
    and "pc_size ` set (t_pchunks (tabs d')) \<subseteq> pc_size ` set (t_pchunks (tabs d)) \<union> mc_size ` set chunks"
    using fin by auto
  then show "layout_ok (tabs d')"
    using lay assms by (fastforce simp: layout_ok_def sized_def list_all_iff)
qed

lemma sized_sizes: "map mc_size cs = map mc_size cs' \<Longrightarrow> sized cs = sized cs'"
  unfolding sized_def by (induction cs cs' rule: list_induct2') auto

lemma attach_rows_sizes: "map mc_size (attach_rows key mk qs idx cs) = map mc_size cs"
proof (induction key mk qs idx cs rule: attach_rows.induct)
  case (2 key mk q qs idx chunks)
  have "map mc_size (chunks[i := (chunks ! i)\<lparr>mc_replicas := r\<rparr>]) = map mc_size chunks" for i r
    by (cases "i < length chunks") (simp_all add: map_update list_update_same_conv list_update_beyond)
  with 2 show ?case by (simp split: option.splits)
qed simp

lemmas attach_rows_sized = sized_sizes [OF attach_rows_sizes]

lemma part_chunks_sized:
  assumes "db_inv d" and "GetMultipartPartChunks u n d = (Inr cs, d')"
  shows "sized cs"
proof -
  have "sized (map pchunk_of_row (sort_key pc_seq (filter (\<lambda>r. pc_upload r = u \<and> pc_part r = n) (t_pchunks (tabs d)))))"
    using assms(1) by (auto simp: db_inv_def layout_ok_def sized_def list_all_iff pchunk_of_row_def)
  moreover have "sized []" by (simp add: sized_def)
  ultimately show ?thesis
    using assms(2) scan_rows_fst [of pc_seq pchunk_of_row _ "[]" Map.empty] unfolding GetMultipartPartChunks_def
    by (auto elim!: bindE_InrE dest!: query_InrD simp: retE_def attach_rows_sized Let_def
        split: prod.splits if_splits) (metis append_Nil fst_conv)
qed

end
