(* ===== verification/BackendProps.thy ===== *)
theory BackendProps
  imports Backend
begin

text \<open>
  What the backend's operations achieve, with hosts that are honest: a blob stays what was uploaded
  under its locator, and a download that ends cleanly has delivered the requested range of it.
\<close>

section \<open>The chunk map of an upload\<close>

text \<open>The results \<open>uploadChunk\<close> can return, over all interleavings and host answers.\<close>

definition uploadChunk_result :: "uc_env \<Rightarrow> pool \<Rightarrow> goerr + chunk \<Rightarrow> bool" where
  "uploadChunk_result E p r \<longleftrightarrow>
     (case uploadChunk_start E p of
        Inl e \<Rightarrow> r = Inl e
      | Inr s0 \<Rightarrow> (\<exists>s. uc_reach E s0 s \<and> uc_result s = Some r))"

definition chunk_env :: "bcfg \<Rightarrow> int \<Rightarrow> bool \<Rightarrow> nat \<Rightarrow> int \<Rightarrow> bytes \<Rightarrow> uc_env" where
  "chunk_env cfg syncN extra seq off data = \<lparr>e_replicas = bc_replicas cfg, e_syncN = syncN, e_seq = seq,
     e_offset = off, e_size = int (length data), e_hasExtra = extra\<rparr>"

lemma uploadChunk_result_shape:
  assumes "uploadChunk_result E p (Inr c)" and "0 < e_replicas E"
  shows "ch_seq c = e_seq E \<and> ch_size c = e_size E \<and> ch_offset c = e_offset E \<and>
    ch_replicas c \<noteq> [] \<and> length (ch_replicas c) \<le> e_replicas E"
proof -
  obtain s0 s where s0: "uploadChunk_start E p = Inr s0" and s: "uc_reach E s0 s" "uc_result s = Some (Inr c)"
    using assms(1) by (auto simp: uploadChunk_result_def split: sum.splits)
  have "uc_inv E s" using uc_reach_inv [OF s0 s(1) assms(2)] by simp
  then have "ok_inv E s" using s(2) by (auto simp: uc_inv_def sync_inv_def split: phase.splits)
  then show ?thesis using s(2) by (auto simp: ok_inv_def budget_def returned_chunk_def)
qed

text \<open>A list of chunks lays out a list of byte blocks from a given number and offset on.\<close>

fun lays_out :: "nat \<Rightarrow> nat \<Rightarrow> int \<Rightarrow> chunk list \<Rightarrow> bytes list \<Rightarrow> bool" where
  "lays_out R seq off [] ps = True"
| "lays_out R seq off (c # cs) [] = False"
| "lays_out R seq off (c # cs) (p # ps) =
     (ch_seq c = seq \<and> ch_offset c = off \<and> ch_size c = int (length p) \<and>
      ch_replicas c \<noteq> [] \<and> length (ch_replicas c) \<le> R \<and>
      lays_out R (seq + 1) (off + int (length p)) cs ps)"

lemma upload_all_lays_out:
  assumes "upload_all uc seq off ps chunks s = (cs, e, s')"
    and "\<And>seq off data s c s'. uc seq off data s = (Inr c, s') \<Longrightarrow>
      ch_seq c = seq \<and> ch_offset c = off \<and> ch_size c = int (length data) \<and>
      ch_replicas c \<noteq> [] \<and> length (ch_replicas c) \<le> R"
  shows "\<exists>cs'. cs = chunks @ cs' \<and> lays_out R seq off cs' ps \<and>
    (if e = None then length cs' = length ps else length cs' < length ps)"
  using assms(1)
proof (induction ps arbitrary: seq off chunks s)
  case (Cons p ps)
  obtain res s1 where u: "uc seq off p s = (res, s1)" by (metis surj_pair)
  show ?case
  proof (cases res)
    case (Inl err)
    with Cons.prems u show ?thesis by auto
  next
    case (Inr c)
    with Cons.prems u have "upload_all uc (seq + 1) (off + int (length p)) ps (chunks @ [c]) s1 = (cs, e, s')"
      by simp
    from Cons.IH [OF this] obtain cs' where "cs = (chunks @ [c]) @ cs'"
      "lays_out R (seq + 1) (off + int (length p)) cs' ps"
      "if e = None then length cs' = length ps else length cs' < length ps" by blast
    moreover have "ch_seq c = seq \<and> ch_offset c = off \<and> ch_size c = int (length p) \<and>
      ch_replicas c \<noteq> [] \<and> length (ch_replicas c) \<le> R"
      using assms(2) u Inr by blast
    ultimately show ?thesis by (intro exI [of _ "c # cs'"]) auto
  qed
qed simp

section \<open>Honest hosts\<close>

definition range_of :: "int \<Rightarrow> int \<Rightarrow> bytes \<Rightarrow> bytes" where
  "range_of off len data =
     (if len \<le> 0 then drop (nat off) data else take (nat len) (drop (nat off) data))"

definition honest :: "'w hosts \<Rightarrow> ('w \<Rightarrow> string \<Rightarrow> string \<Rightarrow> bytes option) \<Rightarrow> bool" where
  "honest H blob \<longleftrightarrow>
     (\<forall>n data f ct w r w'. h_upload H n data f ct w = (r, w') \<longrightarrow>
        (case r of
           Inl _ \<Rightarrow> blob w' = blob w
         | Inr (loc, _) \<Rightarrow> blob w' = (blob w)(n := (blob w n)(loc \<mapsto> data)))) \<and>
     (\<forall>n loc off len w r w'. h_download H n loc off len w = (r, w') \<longrightarrow>
        blob w' = blob w \<and>
        (\<forall>bs e. r = Inr (bs, e) \<longrightarrow> (\<exists>data. blob w n loc = Some data \<and>
           prefix bs (range_of off len data) \<and> (e = None \<longrightarrow> bs = range_of off len data))))"

lemma honest_download:
  assumes "honest H blob" and "h_download H n loc off len w = (r, w')"
  shows "blob w' = blob w" and "r = Inr (bs, e) \<Longrightarrow> \<exists>data. blob w n loc = Some data \<and>
    prefix bs (range_of off len data) \<and> (e = None \<longrightarrow> bs = range_of off len data)"
  using assms by (simp_all add: honest_def)

lemma honest_upload:
  "honest H blob \<Longrightarrow> h_upload H n data f ct w = (Inr (loc, tok), w') \<Longrightarrow>
     blob w' = (blob w)(n := (blob w n)(loc \<mapsto> data))"
  "honest H blob \<Longrightarrow> h_upload H n data f ct w = (Inl e, w') \<Longrightarrow> blob w' = blob w"
  by (fastforce simp: honest_def)+

abbreviation holds :: "('w \<Rightarrow> string \<Rightarrow> string \<Rightarrow> bytes option) \<Rightarrow> 'w \<Rightarrow> bytes \<Rightarrow> replica \<Rightarrow> bool" where
  "holds blob w data rep \<equiv> blob w (rp_provider rep) (rp_locator rep) = Some data"

lemma openReplica_honest:
  assumes "honest H blob" and "openReplica H p reps off len lastErr w = (r, w')"
  shows "blob w' = blob w \<and> (\<forall>bs e. r = Inr (bs, e) \<longrightarrow>
    (\<exists>rep \<in> set reps. \<exists>data. holds blob w data rep \<and> prefix bs (range_of off len data) \<and>
       (e = None \<longrightarrow> bs = range_of off len data)))"
  using assms(2)
proof (induction reps arbitrary: lastErr w)
  case (Cons rep reps)
  show ?case
  proof (cases "pool_get p (rp_provider rep)")
    case None
    with Cons show ?thesis by fastforce
  next
    case (Some prov)
    obtain d w1 where d: "h_download H (rp_provider rep) (rp_locator rep) off len w = (d, w1)"
      by (metis surj_pair)
    note hd = honest_download [OF assms(1) d]
    show ?thesis
    proof (cases d)
      case (Inl e)
      with Cons.prems Some d have "openReplica H p reps off len (Some e) w1 = (r, w')" by simp
      from Cons.IH [OF this] hd(1) show ?thesis by auto
    next
      case (Inr rc)
      with Cons.prems Some d have "r = Inr rc" "w' = w1" by auto
      with hd Inr show ?thesis by (cases rc) auto
    qed
  qed
qed auto

definition available :: "'w hosts \<Rightarrow> pool \<Rightarrow> replica \<Rightarrow> bool" where
  "available H p rep \<longleftrightarrow> pool_get p (rp_provider rep) \<noteq> None \<and>
     (\<forall>off len w. \<exists>rc w'. h_download H (rp_provider rep) (rp_locator rep) off len w = (Inr rc, w'))"

lemma openReplica_available:
  assumes "rep \<in> set reps" and "available H p rep"
  shows "\<exists>rc w'. openReplica H p reps off len lastErr w = (Inr rc, w')"
  using assms(1)
proof (induction reps arbitrary: lastErr w)
  case (Cons x reps)
  show ?case
  proof (cases "x = rep")
    case True
    with assms(2) obtain prov rc w' where "pool_get p (rp_provider rep) = Some prov"
      "h_download H (rp_provider rep) (rp_locator rep) off len w = (Inr rc, w')"
      unfolding available_def by blast
    with True show ?thesis by simp
  next
    case False
    with Cons.prems have "rep \<in> set reps" by simp
    with Cons.IH show ?thesis by (auto split: option.splits prod.splits sum.splits)
  qed
qed simp

section \<open>Repair\<close>

lemma live_loop_honest:
  assumes "honest H blob" and "live_loop H p reps w = (live, dead, w')"
  shows "blob w' = blob w \<and> set live \<subseteq> set reps \<and> (\<not> dead \<longrightarrow> live = reps) \<and>
    (\<forall>rep \<in> set live. \<exists>data. holds blob w data rep) \<and>
    (distinct (map rp_provider reps) \<longrightarrow> distinct (map rp_provider live))"
  using assms(2)
proof (induction reps arbitrary: w live dead w')
  case (Cons rep reps)
  obtain v w1 where v: "Verify H p rep w = (v, w1)" by (metis surj_pair)
  obtain live1 dead1 w2 where l: "live_loop H p reps w1 = (live1, dead1, w2)" by (metis prod_cases3)
  have w1: "blob w1 = blob w \<and> (v = Inr () \<longrightarrow> (\<exists>data. holds blob w data rep))"
  proof (cases "pool_get p (rp_provider rep)")
    case (Some prov)
    obtain d w3 where d: "h_download H (rp_provider rep) (rp_locator rep) 0 1 w = (d, w3)" by (metis surj_pair)
    with v Some show ?thesis using honest_download [OF assms(1) d]
      by (cases d) (auto simp: Verify_def)
  qed (use v in \<open>auto simp: Verify_def\<close>)
  show ?case
  proof (cases v)
    case (Inl e)
    with Cons.prems v l have "live = live1" "dead" "w' = w2" by auto
    with Cons.IH [OF l] w1 show ?thesis by auto
  next
    case (Inr u)
    with Cons.prems v l have "live = rep # live1" "dead = dead1" "w' = w2" by auto
    with Cons.IH [OF l] w1 Inr show ?thesis by auto
  qed
qed simp

lemma replicate_loop_honest:
  assumes "honest H blob" and "replicate_loop H data f need provs used out s = (out', s')"
    and "\<forall>rep \<in> set out. rp_provider rep \<in> used" and "distinct (map rp_provider out)" and "length out \<le> need"
    and "base = {rep. holds blob (bs_world s) data rep}" and "set out \<subseteq> base"
  shows "set out' \<subseteq> {rep. holds blob (bs_world s') data rep} \<and> base \<subseteq> {rep. holds blob (bs_world s') data rep} \<and>
    (\<exists>ext. out' = out @ ext \<and> distinct (map rp_provider out') \<and>
      (\<forall>rep \<in> set ext. rp_provider rep \<notin> used)) \<and> length out' \<le> need"
  using assms(2-7)
proof (induction provs arbitrary: used out s base)
  case (Cons prov provs)
  consider (full) "need \<le> length out" | (skip) "length out < need" "pv_name prov \<in> used"
    | (attempt) "length out < need" "pv_name prov \<notin> used" by linarith
  then show ?case
  proof cases
    case full
    with Cons.prems show ?thesis by auto
  next
    case skip
    with Cons.prems show ?thesis by (intro Cons.IH) auto
  next
    case attempt
    obtain res w1 where u: "h_upload H (pv_name prov) data f ''application/octet-stream'' (bs_world s) = (res, w1)"
      by (metis surj_pair)
    show ?thesis
    proof (cases res)
      case (Inl e)
      let ?s = "s\<lparr>bs_pool := markFailed (pv_name prov) (bs_pool s), bs_world := w1\<rparr>"
      have "blob w1 = blob (bs_world s)" using honest_upload(2) [OF assms(1)] u Inl by blast
      with Cons.IH [of used out ?s base] Cons.prems attempt u Inl show ?thesis by simp
    next
      case (Inr lt)
      obtain loc tok where lt: "lt = (loc, tok)" by (cases lt)
      let ?rep = "\<lparr>rp_provider = pv_name prov, rp_locator = loc, rp_token = tok\<rparr>"
      let ?s = "s\<lparr>bs_pool := markHealthy (pv_name prov) (bs_pool s), bs_world := w1\<rparr>"
      let ?base = "{rep. holds blob w1 data rep}"
      have w1: "blob w1 = (blob (bs_world s))(pv_name prov := (blob (bs_world s) (pv_name prov))(loc \<mapsto> data))"
        using honest_upload(1) [OF assms(1)] u Inr lt by blast
      then have mono: "base \<subseteq> ?base" and new: "?rep \<in> ?base" using Cons.prems(5) by auto
      have run: "replicate_loop H data f need provs (insert (pv_name prov) used) (out @ [?rep]) ?s = (out', s')"
        using Cons.prems(1) attempt u Inr lt by simp
      have "pv_name prov \<notin> rp_provider ` set out" using Cons.prems(2) attempt(2) by auto
      then have ih: "set out' \<subseteq> {rep. holds blob (bs_world s') data rep} \<and>
          ?base \<subseteq> {rep. holds blob (bs_world s') data rep} \<and>
          (\<exists>ext. out' = (out @ [?rep]) @ ext \<and> distinct (map rp_provider out') \<and>
            (\<forall>rep \<in> set ext. rp_provider rep \<notin> insert (pv_name prov) used)) \<and> length out' \<le> need"
        using Cons.prems mono new attempt by (intro Cons.IH [OF run]) auto
      then obtain ext where "out' = (out @ [?rep]) @ ext" "distinct (map rp_provider out')"
        "\<forall>rep \<in> set ext. rp_provider rep \<notin> insert (pv_name prov) used" by blast
      then have "\<exists>ext. out' = out @ ext \<and> distinct (map rp_provider out') \<and>
          (\<forall>rep \<in> set ext. rp_provider rep \<notin> used)"
        using attempt(2) by (intro exI [of _ "?rep # ext"]) auto
      with ih mono show ?thesis by blast
    qed
  qed
qed auto

lemma replicateExtra_honest:
  assumes "honest H blob" and "replicateExtra hash H data used need s = (out, s')"
  shows "set out \<subseteq> {rep. holds blob (bs_world s') data rep} \<and>
    {rep. holds blob (bs_world s) data rep} \<subseteq> {rep. holds blob (bs_world s') data rep} \<and>
    distinct (map rp_provider out) \<and> (\<forall>rep \<in> set out. rp_provider rep \<notin> used) \<and> length out \<le> nat need"
proof (cases "need \<le> 0")
  case True
  with assms(2) show ?thesis by (auto simp: replicateExtra_def)
next
  case False
  obtain cands p' where c: "candidates (int (length data)) (bs_pool s) = (cands, p')" by (metis surj_pair)
  with False assms(2) have "replicate_loop H data (''repair-'' @ hash (take 64 data) @ ''.bin'') (nat need)
      cands used [] (s\<lparr>bs_pool := p'\<rparr>) = (out, s')"
    by (simp add: replicateExtra_def)
  from replicate_loop_honest [OF assms(1) this] show ?thesis by simp
qed

lemma holds_inj: "holds blob w data rep \<Longrightarrow> holds blob w data' rep \<Longrightarrow> data' = data"
  by simp

lemma RepairChunk_honest:
  assumes "honest H blob" and "RepairChunk hash H cfg ref s = (Inr (ref', changed), s')"
    and "\<forall>rep \<in> set (cr_replicas ref). \<forall>data'. holds blob (bs_world s) data' rep \<longrightarrow> data' = data"
    and "distinct (map rp_provider (cr_replicas ref))"
  shows "cr_size ref' = cr_size ref \<and> cr_replicas ref' \<noteq> [] \<and>
    (\<forall>rep \<in> set (cr_replicas ref'). holds blob (bs_world s') data rep) \<and>
    distinct (map rp_provider (cr_replicas ref')) \<and> (\<not> changed \<longrightarrow> cr_replicas ref' = cr_replicas ref)"
proof -
  obtain live dead w1 where l: "live_loop H (bs_pool s) (cr_replicas ref) (bs_world s) = (live, dead, w1)"
    by (metis prod_cases3)
  note lv = live_loop_honest [OF assms(1) l]
  have blob: "blob w1 = blob (bs_world s)" and sub: "set live \<subseteq> set (cr_replicas ref)"
    and same: "\<not> dead \<Longrightarrow> live = cr_replicas ref" and dist: "distinct (map rp_provider live)"
    using lv assms(4) by auto
  have held: "holds blob w1 data rep" if "rep \<in> set live" for rep
  proof -
    from lv that obtain data' where d: "holds blob (bs_world s) data' rep" by blast
    moreover have "data' = data" using assms(3) d that sub by blast
    ultimately show ?thesis by (simp add: blob)
  qed
  have ne: "live \<noteq> []" using assms(2) l by (auto simp: RepairChunk_def Let_def)
  consider (healthy) "bc_replicas cfg \<le> length live" "\<not> dead"
    | (refill) "length live < bc_replicas cfg" | (drop) "bc_replicas cfg \<le> length live" "dead"
    by linarith
  then show ?thesis
  proof cases
    case healthy
    then have "ref' = ref" "s' = s\<lparr>bs_world := w1\<rparr>" using assms(2) l ne by (auto simp: RepairChunk_def Let_def)
    with healthy same held ne assms(4) show ?thesis by auto
  next
    case drop
    then have "ref' = \<lparr>cr_size = cr_size ref, cr_replicas = live\<rparr>" "s' = s\<lparr>bs_world := w1\<rparr>" "changed"
      using assms(2) l ne by (auto simp: RepairChunk_def Let_def)
    with held ne dist show ?thesis by auto
  next
    case refill
    obtain o' w2 where o': "openReplica H (bs_pool s) live 0 0 None w1 = (o', w2)" by (metis surj_pair)
    note op = openReplica_honest [OF assms(1) o']
    obtain bs where rc: "o' = Inr (bs, None)"
      using assms(2) l ne refill o'
      by (auto simp: RepairChunk_def Let_def ReadAll_def split: sum.splits option.splits prod.splits)
    with op obtain rep data' where "rep \<in> set live" "holds blob w1 data' rep" "bs = range_of 0 0 data'" by blast
    with held have bs: "bs = data" by (auto simp: range_of_def)
    obtain extra s2 where e: "replicateExtra hash H data (rp_provider ` set live)
        (int (bc_replicas cfg) - int (length live)) (s\<lparr>bs_world := w2\<rparr>) = (extra, s2)"
      by (metis surj_pair)
    note ex = replicateExtra_honest [OF assms(1) e]
    have res: "ref' = \<lparr>cr_size = cr_size ref, cr_replicas = live @ extra\<rparr>" "s' = s2"
      "changed = (dead \<or> length (live @ extra) \<noteq> length (cr_replicas ref))"
      using assms(2) l ne refill o' rc bs e by (auto simp: RepairChunk_def Let_def ReadAll_def)
    have "\<forall>rep \<in> set live. holds blob (bs_world s2) data rep"
      using ex op held by (auto simp: subset_iff)
    moreover have "\<forall>rep \<in> set extra. holds blob (bs_world s2) data rep" using ex by auto
    moreover have "\<forall>rep \<in> set extra. rp_provider rep \<notin> rp_provider ` set live" using ex by simp
    then have "rp_provider ` set live \<inter> rp_provider ` set extra = {}"
      unfolding disjoint_iff by (metis imageE)
    then have "distinct (map rp_provider (live @ extra))" using dist ex by simp
    moreover have "\<not> changed \<longrightarrow> live @ extra = cr_replicas ref" using res(3) same by auto
    ultimately show ?thesis using res ne by auto
  qed
qed

section \<open>Deleting tries everything\<close>

definition enabled :: "pool \<Rightarrow> replica \<Rightarrow> bool" where
  "enabled p rep \<longleftrightarrow> pool_get p (rp_provider rep) \<noteq> None"

definition delete_call :: "'w hosts \<Rightarrow> replica \<Rightarrow> 'w \<Rightarrow> 'w" where
  "delete_call H rep w = snd (h_delete H (rp_provider rep) (rp_locator rep) (rp_token rep) w)"

lemma delete_replicas_loop_world:
  "snd (delete_replicas_loop H p reps e w) = fold (delete_call H) (filter (enabled p) reps) w"
  by (induction reps arbitrary: e w)
     (auto simp: enabled_def delete_call_def split: option.splits prod.splits sum.splits)

lemma delete_batch_loop_world:
  "snd (delete_batch_loop H p refs e w) =
     fold (delete_call H) (filter (enabled p) (concat (map cr_replicas refs))) w"
proof (induction refs arbitrary: e w)
  case (Cons ref refs)
  have "snd (DeleteChunk H p ref w) = fold (delete_call H) (filter (enabled p) (cr_replicas ref)) w"
    by (simp add: DeleteChunk_def delete_replicas_loop_world)
  with Cons show ?case by (auto split: prod.splits option.splits)
qed simp

section \<open>An in-memory host for the witnesses\<close>

type_synonym mem = "((string \<times> string) \<times> bytes) list"

definition mem_hosts :: "mem hosts" where
  "mem_hosts = \<lparr>
     h_upload = (\<lambda>n data f ct w. (Inr (replicate (length w) (CHR ''x''), []),
       ((n, replicate (length w) (CHR ''x'')), data) # w)),
     h_download = (\<lambda>n loc off len w.
       (case map_of w (n, loc) of None \<Rightarrow> Inl (ErrMsg ''404'') | Some d \<Rightarrow> Inr (range_of off len d, None), w)),
     h_delete = (\<lambda>n loc tok w. (Inr (), filter (\<lambda>(k, _). k \<noteq> (n, loc)) w))\<rparr>"

definition mem_blob :: "mem \<Rightarrow> string \<Rightarrow> string \<Rightarrow> bytes option" where
  "mem_blob w n loc = map_of w (n, loc)"

lemma mem_honest: "honest mem_hosts mem_blob"
  by (auto simp: honest_def mem_hosts_def mem_blob_def fun_eq_iff split: option.splits)

definition w_rep :: "string \<Rightarrow> string \<Rightarrow> replica" where
  "w_rep n l = \<lparr>rp_provider = n, rp_locator = l, rp_token = []\<rparr>"

definition w_state :: "mem bstate" where
  "w_state = \<lparr>bs_pool = w_pool, bs_world = [((''d'', ''l''), ''data'')]\<rparr>"

definition w_ref :: chunk_ref where
  "w_ref = \<lparr>cr_size = 4, cr_replicas = [w_rep ''t'' ''gone'', w_rep ''d'' ''l'']\<rparr>"

definition w_cfg :: bcfg where
  "w_cfg = \<lparr>bc_chunkSize = 4, bc_replicas = 2, bc_sync = 1, bc_conc = 6\<rparr>"

section \<open>Properties\<close>

text \<open>
  C19 (functional). Uploading a body that arrives in any segmentation: the loop returns, and the
  chunks it returns describe, in order, numbered from 0 and contiguous from offset 0, blocks of
  the body that are all of the chunk size but the last; all blocks when there is no error, and
  the ones before the failing block when \<open>uploadChunk\<close> failed. Each has 1 to R replicas.
\<close>

theorem upload_lays_out:
  assumes "0 < bc_chunkSize cfg" and "0 < bc_replicas cfg" and "sg_fin r = ErrEOF"
    and "\<And>seq off data s. uploadChunk_result (chunk_env cfg syncN extra seq off data) (pool_of s)
      (fst (uc seq off data s))"
  shows "\<exists>cs e r' s' ps. upload seg_read uc cfg r s = Some (cs, e, r', s') \<and>
    concat ps = concat (sg_segs r) \<and>
    (\<forall>i. Suc i < length ps \<longrightarrow> int (length (ps ! i)) = bc_chunkSize cfg) \<and>
    (\<forall>p \<in> set ps. p \<noteq> [] \<and> int (length p) \<le> bc_chunkSize cfg) \<and>
    lays_out (bc_replicas cfg) 0 0 cs ps \<and>
    (if e = None then length cs = length ps else length cs < length ps)"
proof -
  let ?sz = "nat (bc_chunkSize cfg)"
  let ?ps = "pieces ?sz (concat (sg_segs r))"
  have sz: "0 < ?sz" using assms(1) by simp
  obtain cs e s' where all: "upload_all uc 0 0 ?ps [] s = (cs, e, s')" by (metis prod_cases3)
  obtain r' where "upload_loop seg_read uc ?sz 0 0 [] r s =
      (case upload_all uc 0 0 ?ps [] s of (cs, e, s') \<Rightarrow> Some (cs, e, r', s'))"
    using seg.upload_loop_pieces [OF TrueI disjI1 [OF assms(3)] sz, of uc 0 0 "[]" s] by blast
  then have run: "upload seg_read uc cfg r s = Some (cs, e, r', s')" by (simp add: upload_def all)
  have shape: "ch_seq c = seq \<and> ch_offset c = off \<and> ch_size c = int (length data) \<and>
      ch_replicas c \<noteq> [] \<and> length (ch_replicas c) \<le> bc_replicas cfg"
    if "uc seq off data t = (Inr c, t')" for seq off data t c t'
    using uploadChunk_result_shape [of "chunk_env cfg syncN extra seq off data" "pool_of t" c]
      assms(4) [of seq off data t] that assms(2) by (simp add: chunk_env_def)
  from upload_all_lays_out [OF all, of "bc_replicas cfg"] shape
  have "lays_out (bc_replicas cfg) 0 0 cs ?ps \<and> (if e = None then length cs = length ?ps else length cs < length ?ps)"
    by (metis append_Nil)
  moreover have "\<forall>i. Suc i < length ?ps \<longrightarrow> int (length (?ps ! i)) = bc_chunkSize cfg"
    using pieces_full [OF sz] assms(1) by simp
  moreover have "\<forall>p \<in> set ?ps. p \<noteq> [] \<and> int (length p) \<le> bc_chunkSize cfg"
    using pieces_sizes [OF sz, of _ "concat (sg_segs r)"] assms(1) by (auto simp: le_nat_iff)
  ultimately show ?thesis using run concat_pieces [OF sz] by blast
qed

theorem upload_lays_out_witness:
  "\<exists>cs e r' s' ps. upload seg_read (\<lambda>seq off data s. (Inl (ErrMsg ''freehost: no provider can hold the chunk''), s))
      w_cfg \<lparr>sg_segs = [''hel'', ''lo''], sg_fin = ErrEOF\<rparr> () = Some (cs, e, r', s') \<and>
    concat ps = ''hello'' \<and> length cs < length ps"
proof -
  let ?uc = "\<lambda>(seq::nat) (off::int) (data::bytes) (s::unit).
    (Inl (ErrMsg ''freehost: no provider can hold the chunk'') :: goerr + chunk, s)"
  have res: "uploadChunk_result (chunk_env w_cfg 1 False seq off data) (newPool []) (fst (?uc seq off data s))" for seq off data s
    by (simp add: uploadChunk_result_def uploadChunk_start_def candidates_def newPool_def Let_def rotate_left_def)
  obtain cs e r' s' ps where run: "upload seg_read ?uc w_cfg \<lparr>sg_segs = [''hel'', ''lo''], sg_fin = ErrEOF\<rparr> () = Some (cs, e, r', s')"
    and ps: "concat ps = ''hello''" "if e = None then length cs = length ps else length cs < length ps"
    using upload_lays_out [of w_cfg "\<lparr>sg_segs = [''hel'', ''lo''], sg_fin = ErrEOF\<rparr>" 1 False "\<lambda>_. newPool []" ?uc "()"] res
    by (auto simp: w_cfg_def)
  have "e \<noteq> None"
  proof -
    have "ReadFull seg_read 4 \<lparr>sg_segs = [''hel'', ''lo''], sg_fin = ErrEOF\<rparr> =
        Some (''hell'', None, \<lparr>sg_segs = [''o''], sg_fin = ErrEOF\<rparr>)"
      by (simp add: ReadFull_def read_at_least.simps)
    then show ?thesis using run by (auto simp: upload_def w_cfg_def upload_loop.simps)
  qed
  with run ps show ?thesis by (auto split: if_splits)
qed

text \<open>
  Sequential failover: with honest hosts, a range read returns a prefix of that
  range of a blob some replica of the chunk holds, and exactly the range when the body ends
  cleanly; and it succeeds whenever one replica of the list is available.
\<close>

lemma download_failover:
  assumes "honest H blob" and "DownloadRange H p ref off len w = (r, w')"
  shows "(\<forall>bs e. r = Inr (bs, e) \<longrightarrow>
      (\<exists>rep \<in> set (cr_replicas ref). \<exists>data. blob w (rp_provider rep) (rp_locator rep) = Some data \<and>
         prefix bs (range_of off len data) \<and> (e = None \<longrightarrow> bs = range_of off len data))) \<and>
    ((\<exists>rep \<in> set (cr_replicas ref). available H p rep) \<longrightarrow> (\<exists>rc. r = Inr rc))"
proof -
  have o: "openReplica H p (cr_replicas ref) off len None w = (r, w')"
    using assms(2) by (simp add: DownloadRange_def)
  moreover have "\<exists>rc. r = Inr rc" if "rep \<in> set (cr_replicas ref)" "available H p rep" for rep
    using openReplica_available [OF that, of off len None w] o by auto
  ultimately show ?thesis using openReplica_honest [OF assms(1) o] by blast
qed

text \<open>
  C20 (safety). Repair never changes what a chunk is: with honest hosts, if every replica of the
  chunk that still exists holds the chunk's data, then every replica of the repaired chunk holds
  it, on pairwise distinct providers, and an unchanged result is the old replica list.
\<close>

theorem repair_keeps_content:
  assumes "honest H blob" and "RepairChunk hash H cfg ref s = (Inr (ref', changed), s')"
    and "\<forall>rep \<in> set (cr_replicas ref). blob (bs_world s) (rp_provider rep) (rp_locator rep) \<in> {None, Some data}"
    and "distinct (map rp_provider (cr_replicas ref))"
  shows "cr_size ref' = cr_size ref \<and> cr_replicas ref' \<noteq> [] \<and>
    (\<forall>rep \<in> set (cr_replicas ref'). blob (bs_world s') (rp_provider rep) (rp_locator rep) = Some data) \<and>
    distinct (map rp_provider (cr_replicas ref')) \<and> (\<not> changed \<longrightarrow> cr_replicas ref' = cr_replicas ref)"
proof -
  have "\<forall>rep \<in> set (cr_replicas ref). \<forall>data'. holds blob (bs_world s) data' rep \<longrightarrow> data' = data"
    using assms(3) by auto
  from RepairChunk_honest [OF assms(1,2) this assms(4)] show ?thesis by blast
qed

theorem repair_keeps_content_witness:
  "let (r, s') = RepairChunk (\<lambda>_. ''h'') mem_hosts w_cfg w_ref w_state in
   \<forall>rep \<in> set (cr_replicas (fst (projr r))). mem_blob (bs_world s') (rp_provider rep) (rp_locator rep) = Some ''data''"
proof -
  let ?r = "RepairChunk (\<lambda>_. ''h'') mem_hosts w_cfg w_ref w_state"
  have "fst ?r = Inr (fst (projr (fst ?r)), snd (projr (fst ?r)))" by code_simp
  then have run: "?r = (Inr (fst (projr (fst ?r)), snd (projr (fst ?r))), snd ?r)" by (metis prod.collapse)
  have "\<forall>rep \<in> set (cr_replicas w_ref). mem_blob (bs_world w_state) (rp_provider rep) (rp_locator rep) \<in> {None, Some ''data''}"
    and "distinct (map rp_provider (cr_replicas w_ref))"
    by (simp_all add: w_ref_def w_rep_def w_state_def mem_blob_def)
  from repair_keeps_content [OF mem_honest run this] show ?thesis by (simp add: case_prod_unfold Let_def)
qed

text \<open>
  Deleting many chunks calls the host of every replica whose provider is enabled,
  in order, whatever the earlier calls returned, and nothing else.
\<close>

lemma delete_batch_tries_all:
  "snd (DeleteBatch H p refs w) =
     fold (\<lambda>rep w. snd (h_delete H (rp_provider rep) (rp_locator rep) (rp_token rep) w))
       (filter (\<lambda>rep. pool_get p (rp_provider rep) \<noteq> None) (concat (map cr_replicas refs))) w"
proof -
  have "delete_call H = (\<lambda>rep w. snd (h_delete H (rp_provider rep) (rp_locator rep) (rp_token rep) w))"
    by (simp add: delete_call_def fun_eq_iff)
  moreover have "enabled p = (\<lambda>rep. pool_get p (rp_provider rep) \<noteq> None)"
    by (simp add: enabled_def fun_eq_iff)
  ultimately show ?thesis unfolding DeleteBatch_def delete_batch_loop_world by simp
qed

text \<open>
  A backend that \<open>New\<close> accepts has a positive chunk size, at least one replica per
  chunk, a synchronous count between 1 and the replication factor and a durable provider; and it
  refuses exactly the configurations without a durable provider.
\<close>

lemma new_backend_bounds:
  "case NewBackend opts of
     Inl e \<Rightarrow> \<not> list_ex pv_durable (op_providers opts)
   | Inr (cfg, p) \<Rightarrow> list_ex pv_durable (op_providers opts) \<and> pl_providers p = op_providers opts \<and>
       0 < bc_chunkSize cfg \<and> 0 < bc_replicas cfg \<and> 1 \<le> bc_sync cfg \<and> bc_sync cfg \<le> int (bc_replicas cfg) \<and>
       0 < bc_conc cfg"
  by (auto simp: NewBackend_def Let_def hasDurable_def newPool_def)

end
