(* ===== verification/HttpTypes.thy ===== *)
theory HttpTypes
  imports GoStrings IOReader
begin

text \<open>
  The parts of \<^verbatim>\<open>net/http\<close> and \<^verbatim>\<open>net/url\<close> that the gateway's handlers read: a request as the server
  hands it over (the decoded path, the parsed query, headers under their canonical names, the body as
  it arrives in segments), \<^verbatim>\<open>Header.Get\<close>, \<^verbatim>\<open>Values.Get\<close>, and percent decoding.
\<close>

section \<open>Requests\<close>

type_synonym url_values = "(string \<times> string list) list"

record request =
  rq_method :: string
  rq_host :: string
  rq_path :: string
  rq_query :: url_values
  rq_header :: url_values
  rq_body :: seg_reader

definition token_chars :: "char list" where
  "token_chars = ''!#$%&*+-.^_|~0123456789ABCDEFGHIJKLMNOPQRSTUVWXYZabcdefghijklmnopqrstuvwxyz'' @
     [CHR 0x27, CHR 0x60]"

text \<open>\<^verbatim>\<open>textproto.CanonicalMIMEHeaderKey\<close>: a key with a byte outside the token alphabet stays as it is.\<close>

fun canon_bytes :: "bool \<Rightarrow> string \<Rightarrow> string" where
  "canon_bytes up [] = []"
| "canon_bytes up (c # cs) = (if up then upper_char c else lower_char c) # canon_bytes (c = CHR ''-'') cs"

definition CanonicalKey :: "string \<Rightarrow> string" where
  "CanonicalKey k = (if list_all (\<lambda>c. c \<in> set token_chars) k then canon_bytes True k else k)"

definition values_get :: "url_values \<Rightarrow> string \<Rightarrow> string" where
  "values_get vs k = (case map_of vs k of None \<Rightarrow> [] | Some [] \<Rightarrow> [] | Some (v # _) \<Rightarrow> v)"

definition values_has :: "url_values \<Rightarrow> string \<Rightarrow> bool" where
  "values_has vs k = (map_of vs k \<noteq> None)"

definition header_get :: "url_values \<Rightarrow> string \<Rightarrow> string" where
  "header_get h k = values_get h (CanonicalKey k)"

abbreviation hdr :: "request \<Rightarrow> string \<Rightarrow> string" where
  "hdr r k \<equiv> header_get (rq_header r) k"

text \<open>The headers of a message that is being built: \<^verbatim>\<open>http.Header.Set\<close> and \<^verbatim>\<open>Get\<close>.\<close>

definition header_set :: "string \<Rightarrow> string \<Rightarrow> (string \<times> string) list \<Rightarrow> (string \<times> string) list" where
  "header_set k v h = filter (\<lambda>(k', _). k' \<noteq> CanonicalKey k) h @ [(CanonicalKey k, v)]"

definition header_value :: "(string \<times> string) list \<Rightarrow> string \<Rightarrow> string" where
  "header_value h k = (case map_of h (CanonicalKey k) of None \<Rightarrow> [] | Some v \<Rightarrow> v)"

section \<open>Percent encoding\<close>

definition unhex :: "char \<Rightarrow> nat option" where
  "unhex c = digit_val 16 c"

text \<open>\<^verbatim>\<open>url.PathUnescape\<close>: \<open>None\<close> is its error, with which it returns the empty string.\<close>

fun PathUnescape :: "string \<Rightarrow> string option" where
  "PathUnescape [] = Some []"
| "PathUnescape (c # cs) =
     (if c \<noteq> CHR 0x25 then map_option ((#) c) (PathUnescape cs)
      else case cs of
        a # b # rest \<Rightarrow>
          (case (unhex a, unhex b) of
             (Some x, Some y) \<Rightarrow> map_option ((#) (char_of (16 * x + y))) (PathUnescape rest)
           | _ \<Rightarrow> None)
      | _ \<Rightarrow> None)"

lemma PathUnescape_plain: "CHR 0x25 \<notin> set s \<Longrightarrow> PathUnescape s = Some s"
  by (induction s) auto

section \<open>Base64\<close>

text \<open>\<^verbatim>\<open>base64.StdEncoding\<close>.\<close>

definition b64_alphabet :: string where
  "b64_alphabet = ''ABCDEFGHIJKLMNOPQRSTUVWXYZabcdefghijklmnopqrstuvwxyz0123456789+/''"

fun b64_encode :: "bytes \<Rightarrow> string" where
  "b64_encode [] = []"
| "b64_encode [a] =
     (let x = of_char a :: nat
      in [b64_alphabet ! (x div 4), b64_alphabet ! (x mod 4 * 16), CHR ''='', CHR ''=''])"
| "b64_encode [a, b] =
     (let x = of_char a :: nat; y = of_char b
      in [b64_alphabet ! (x div 4), b64_alphabet ! (x mod 4 * 16 + y div 16), b64_alphabet ! (y mod 16 * 4), CHR ''=''])"
| "b64_encode (a # b # c # rest) =
     (let x = of_char a :: nat; y = of_char b; z = of_char c
      in [b64_alphabet ! (x div 4), b64_alphabet ! (x mod 4 * 16 + y div 16), b64_alphabet ! (y mod 16 * 4 + z div 64),
          b64_alphabet ! (z mod 64)] @ b64_encode rest)"

text \<open>\<^verbatim>\<open>base64.StdEncoding.DecodeString\<close> skips line breaks and wants the padding.\<close>

definition b64_value :: "char \<Rightarrow> nat option" where
  "b64_value c = IndexByte b64_alphabet c"

fun b64_quads :: "string \<Rightarrow> bytes option" where
  "b64_quads [] = Some []"
| "b64_quads (a # b # c # d # rest) =
     (case (b64_value a, b64_value b) of
        (Some x, Some y) \<Rightarrow>
          if c = CHR ''='' then
            (if d = CHR ''='' \<and> rest = [] then Some [char_of (x * 4 + y div 16)] else None)
          else (case b64_value c of
             None \<Rightarrow> None
           | Some z \<Rightarrow>
               if d = CHR ''='' then
                 (if rest = [] then Some [char_of (x * 4 + y div 16), char_of (y mod 16 * 16 + z div 4)] else None)
               else (case b64_value d of
                  None \<Rightarrow> None
                | Some v \<Rightarrow>
                    map_option ((@) [char_of (x * 4 + y div 16), char_of (y mod 16 * 16 + z div 4), char_of (z mod 4 * 64 + v)])
                      (b64_quads rest)))
      | _ \<Rightarrow> None)"
| "b64_quads _ = None"

end
