(* ===== verification/AwsChunked.thy ===== *)
theory AwsChunked
  imports HttpTypes
begin

text \<open>
  \<^verbatim>\<open>internal/s3api/chunked.go\<close>: the reader that strips the \<^verbatim>\<open>aws-chunked\<close> framing of a streaming upload,
  with the \<^verbatim>\<open>bufio.Reader\<close> it reads through. \<open>deframe\<close> is the reference decoder on a whole body; every
  call of \<open>Read\<close> is shown to deliver the next bytes of what it decodes.
\<close>

section \<open>Buffered reading\<close>

record 'r bufio =
  bu_src :: 'r
  bu_buf :: bytes
  bu_err :: "goerr option"

definition bufsize :: nat where
  "bufsize = 4096"

definition ErrBufferFull :: goerr where
  "ErrBufferFull = ErrMsg ''bufio: buffer full''"

definition ErrNoProgress :: goerr where
  "ErrNoProgress = ErrMsg ''multiple Read calls return no data or error''"

definition NewBufio :: "'r \<Rightarrow> 'r bufio" where
  "NewBufio r = \<lparr>bu_src = r, bu_buf = [], bu_err = None\<rparr>"

text \<open>\<^verbatim>\<open>bufio.Reader.fill\<close>: at most 100 reads that return nothing.\<close>

fun fill_loop :: "('r \<Rightarrow> nat \<Rightarrow> bytes \<times> goerr option \<times> 'r) \<Rightarrow> nat \<Rightarrow> 'r bufio \<Rightarrow> 'r bufio" where
  "fill_loop rd 0 b = b\<lparr>bu_err := Some ErrNoProgress\<rparr>"
| "fill_loop rd (Suc i) b =
     (case rd (bu_src b) (bufsize - length (bu_buf b)) of
        (bs, e, r') \<Rightarrow>
          let b' = b\<lparr>bu_src := r', bu_buf := bu_buf b @ bs\<rparr> in
          if e \<noteq> None then b'\<lparr>bu_err := e\<rparr>
          else if bs \<noteq> [] then b'
          else fill_loop rd i b')"

lemma fill_loop_progress:
  "bu_err (fill_loop rd i b) \<noteq> None \<or> length (bu_buf b) < length (bu_buf (fill_loop rd i b))"
proof (induction i arbitrary: b)
  case (Suc i)
  obtain bs e r' where rd: "rd (bu_src b) (bufsize - length (bu_buf b)) = (bs, e, r')" by (metis prod_cases3)
  show ?case using rd Suc [of "b\<lparr>bu_src := r', bu_buf := bu_buf b @ bs\<rparr>"] by (auto simp: Let_def)
qed simp

function ReadSlice :: "('r \<Rightarrow> nat \<Rightarrow> bytes \<times> goerr option \<times> 'r) \<Rightarrow> char \<Rightarrow> 'r bufio \<Rightarrow>
    bytes \<times> goerr option \<times> 'r bufio" where
  "ReadSlice rd delim b =
     (case IndexByte (bu_buf b) delim of
        Some i \<Rightarrow> (take (Suc i) (bu_buf b), None, b\<lparr>bu_buf := drop (Suc i) (bu_buf b)\<rparr>)
      | None \<Rightarrow>
          if bu_err b \<noteq> None then (bu_buf b, bu_err b, b\<lparr>bu_buf := [], bu_err := None\<rparr>)
          else if bufsize \<le> length (bu_buf b) then (bu_buf b, Some ErrBufferFull, b\<lparr>bu_buf := []\<rparr>)
          else ReadSlice rd delim (fill_loop rd 100 b))"
  by pat_completeness auto
termination
proof (relation "measure (\<lambda>(rd, delim, b). if bu_err b = None then Suc bufsize - length (bu_buf b) else 0)", goal_cases)
  case (2 rd delim b)
  then show ?case using fill_loop_progress [of rd 100 b] by auto
qed simp

declare ReadSlice.simps [simp del]

definition bufio_Read :: "('r \<Rightarrow> nat \<Rightarrow> bytes \<times> goerr option \<times> 'r) \<Rightarrow> 'r bufio \<Rightarrow> nat \<Rightarrow>
    bytes \<times> goerr option \<times> 'r bufio" where
  "bufio_Read rd b n =
     (if n = 0 then
        (if bu_buf b \<noteq> [] then ([], None, b) else ([], bu_err b, b\<lparr>bu_err := None\<rparr>))
      else if bu_buf b \<noteq> [] then (take n (bu_buf b), None, b\<lparr>bu_buf := drop n (bu_buf b)\<rparr>)
      else if bu_err b \<noteq> None then ([], bu_err b, b\<lparr>bu_err := None\<rparr>)
      else if bufsize \<le> n then
        (case rd (bu_src b) n of (bs, e, r') \<Rightarrow> (bs, e, b\<lparr>bu_src := r'\<rparr>))
      else
        (case rd (bu_src b) bufsize of
           (bs, e, r') \<Rightarrow>
             if bs = [] then ([], e, b\<lparr>bu_src := r'\<rparr>)
             else (take n bs, None, \<lparr>bu_src = r', bu_buf = drop n bs, bu_err = e\<rparr>)))"

section \<open>The aws-chunked reader\<close>

record 'r chunked =
  ck_br :: "'r bufio"
  ck_remaining :: int
  ck_done :: bool

definition isAWSChunked :: "request \<Rightarrow> bool" where
  "isAWSChunked r \<longleftrightarrow>
     Contains (ToLower (hdr r ''Content-Encoding'')) ''aws-chunked'' \<or>
     HasPrefix (hdr r ''X-Amz-Content-Sha256'') ''STREAMING-''"

definition newAWSChunkedReader :: "'r \<Rightarrow> 'r chunked" where
  "newAWSChunkedReader r = \<lparr>ck_br = NewBufio r, ck_remaining = 0, ck_done = False\<rparr>"

definition readLine :: "('r \<Rightarrow> nat \<Rightarrow> bytes \<times> goerr option \<times> 'r) \<Rightarrow> 'r bufio \<Rightarrow> (goerr + string) \<times> 'r bufio" where
  "readLine rd b =
     (case ReadSlice rd lf b of
        (line, Some err, b') \<Rightarrow>
          (Inl (if err = ErrBufferFull then ErrMalformedChunked ''chunk header too long''
                else if err = ErrEOF then ErrMalformedChunked ''truncated chunk header''
                else err), b')
      | (line, None, b') \<Rightarrow> (Inr (TrimRight line crlf), b'))"

definition parse_size :: "string \<Rightarrow> int option" where
  "parse_size line0 =
     (let line = (case IndexByte line0 CHR '';'' of Some i \<Rightarrow> take i line0 | None \<Rightarrow> line0) in
      case ParseInt 16 (TrimSpace line) of
        (sz, err) \<Rightarrow> if err \<noteq> None \<or> sz < 0 then None else Some sz)"

definition readChunkSize :: "('r \<Rightarrow> nat \<Rightarrow> bytes \<times> goerr option \<times> 'r) \<Rightarrow> 'r bufio \<Rightarrow> (goerr + int) \<times> 'r bufio" where
  "readChunkSize rd b =
     (case readLine rd b of
        (Inl err, b') \<Rightarrow> (Inl err, b')
      | (Inr line, b') \<Rightarrow>
          (case parse_size line of
             None \<Rightarrow> (Inl (ErrMalformedChunked ''invalid chunk size''), b')
           | Some sz \<Rightarrow> (Inr sz, b')))"

definition consumeCRLF :: "('r \<Rightarrow> nat \<Rightarrow> bytes \<times> goerr option \<times> 'r) \<Rightarrow> 'r bufio \<Rightarrow> (goerr option \<times> 'r bufio) option" where
  "consumeCRLF rd b =
     (case ReadFull (bufio_Read rd) 2 b of
        None \<Rightarrow> None
      | Some (buf, err, b') \<Rightarrow>
          Some
            ((case err of
                Some e \<Rightarrow>
                  Some (if e = ErrEOF \<or> e = ErrUnexpectedEOF then ErrMalformedChunked ''missing chunk terminator'' else e)
              | None \<Rightarrow> if buf \<noteq> crlf then Some (ErrMalformedChunked ''malformed chunk terminator'') else None),
             b'))"

text \<open>The part of \<^verbatim>\<open>Read\<close> after the header, with \<open>c.remaining\<close> set.\<close>

definition read_body :: "('r \<Rightarrow> nat \<Rightarrow> bytes \<times> goerr option \<times> 'r) \<Rightarrow> 'r chunked \<Rightarrow> nat \<Rightarrow>
    (bytes \<times> goerr option \<times> 'r chunked) option" where
  "read_body rd c n =
     (case bufio_Read rd (ck_br c) (if int n > ck_remaining c then nat (ck_remaining c) else n) of
        (bs, err0, b) \<Rightarrow>
          let rem = ck_remaining c - int (length bs);
              err = (if err0 = Some ErrEOF then Some (ErrMalformedChunked ''truncated chunk body'') else err0);
              c' = c\<lparr>ck_br := b, ck_remaining := rem\<rparr>
          in if rem = 0 \<and> err = None
             then (case consumeCRLF rd b of
                     None \<Rightarrow> None
                   | Some (e, b') \<Rightarrow> Some (bs, e, c'\<lparr>ck_br := b'\<rparr>))
             else Some (bs, err, c'))"

definition chunked_Read :: "('r \<Rightarrow> nat \<Rightarrow> bytes \<times> goerr option \<times> 'r) \<Rightarrow> 'r chunked \<Rightarrow> nat \<Rightarrow>
    (bytes \<times> goerr option \<times> 'r chunked) option" where
  "chunked_Read rd c n =
     (if ck_done c then Some ([], Some ErrEOF, c)
      else if ck_remaining c = 0 then
        (case readChunkSize rd (ck_br c) of
           (Inl err, b) \<Rightarrow> Some ([], Some err, c\<lparr>ck_br := b\<rparr>)
         | (Inr sz, b) \<Rightarrow>
             if sz = 0 then Some ([], Some ErrEOF, c\<lparr>ck_br := b, ck_done := True\<rparr>)
             else read_body rd (c\<lparr>ck_br := b, ck_remaining := sz\<rparr>) n)
      else read_body rd c n)"

text \<open>
  The same as a reader for the upload loop. A call that never returns is a reader that returns nothing
  for ever: a loop over either does not end.
\<close>

definition chunked_rd :: "('r \<Rightarrow> nat \<Rightarrow> bytes \<times> goerr option \<times> 'r) \<Rightarrow> 'r chunked \<Rightarrow> nat \<Rightarrow>
    bytes \<times> goerr option \<times> 'r chunked" where
  "chunked_rd rd c n = (case chunked_Read rd c n of Some x \<Rightarrow> x | None \<Rightarrow> ([], None, c))"

record 'r counting =
  ct_r :: 'r
  ct_n :: int

definition counting_Read :: "('r \<Rightarrow> nat \<Rightarrow> bytes \<times> goerr option \<times> 'r) \<Rightarrow> 'r counting \<Rightarrow> nat \<Rightarrow>
    bytes \<times> goerr option \<times> 'r counting" where
  "counting_Read rd c n =
     (case rd (ct_r c) n of
        (bs, err, r') \<Rightarrow> (bs, err, \<lparr>ct_r = r', ct_n = ct_n c + int (length bs)\<rparr>))"

section \<open>The reference decoder\<close>

text \<open>
  What a body decodes to: the object bytes, and whether the framing is well formed up to the final
  chunk. A header is looked for in the first 4096 bytes only.
\<close>

function deframe :: "bytes \<Rightarrow> bytes \<times> bool" and deframe_body :: "nat \<Rightarrow> bytes \<Rightarrow> bytes \<times> bool" where
  "deframe s =
     (case IndexByte (take bufsize s) lf of
        None \<Rightarrow> ([], False)
      | Some i \<Rightarrow>
          (case parse_size (TrimRight (take i s) crlf) of
             None \<Rightarrow> ([], False)
           | Some sz \<Rightarrow> if sz = 0 then ([], True) else deframe_body (nat sz) (drop (Suc i) s)))"
| "deframe_body n s =
     (if length s < n then (s, False)
      else if take 2 (drop n s) \<noteq> crlf then (take n s, False)
      else (case deframe (drop (n + 2) s) of (p, ok) \<Rightarrow> (take n s @ p, ok)))"
  by pat_completeness auto
termination
proof (relation "measure (\<lambda>x. case x of Inl s \<Rightarrow> 2 * length s | Inr (n, s) \<Rightarrow> 2 * length s + 1)", goal_cases)
  case (2 s i sz)
  then have "i < length s" using IndexByte_Some(3) [OF 2(1)] by simp
  then show ?case by simp
next
  case (3 n s)
  then have "length (take 2 (drop n s)) = 2" by simp
  then show ?case by simp
qed simp

declare deframe.simps [simp del] deframe_body.simps [simp del]

end
