(* ===== verification/HttpRange.thy ===== *)
theory HttpRange
  imports HttpTypes MetaStore
begin

text \<open>
  Byte ranges and preconditions: \<^verbatim>\<open>parseByteRange\<close> and \<^verbatim>\<open>ifRangeAllows\<close> of
  \<^verbatim>\<open>internal/s3api/handler.go\<close>, and \<^verbatim>\<open>etagMatches\<close> and \<^verbatim>\<open>conditionalStatus\<close> of \<^verbatim>\<open>objectmeta.go\<close>. Parsing an
  HTTP date, \<^verbatim>\<open>http.ParseTime\<close>, is the parameter \<open>parseTime\<close>.
\<close>

section \<open>Ranges\<close>

record http_range =
  hr_start :: int
  hr_end :: int

definition range_length :: "http_range \<Rightarrow> int" where
  "range_length r = hr_end r - hr_start r + 1"

text \<open>The result is the range, whether it is satisfiable, and whether the header is a range at all.\<close>

definition parseByteRange :: "string \<Rightarrow> int \<Rightarrow> http_range \<times> bool \<times> bool" where
  "parseByteRange s sz =
     (let none = \<lparr>hr_start = 0, hr_end = 0\<rparr> in
      if \<not> HasPrefix s ''bytes='' then (none, False, False)
      else
        let spec = TrimSpace (drop (length ''bytes='') s) in
        if spec = [] \<or> Contains spec '','' then (none, False, False)
        else (case IndexByte spec CHR ''-'' of
           None \<Rightarrow> (none, False, False)
         | Some dash \<Rightarrow>
             let startStr = TrimSpace (take dash spec);
                 endStr = TrimSpace (drop (dash + 1) spec)
             in if startStr = [] then
                  (case ParseInt 10 endStr of
                     (n, err) \<Rightarrow>
                       if err \<noteq> None \<or> n \<le> 0 then (none, False, False)
                       else if sz = 0 then (none, False, True)
                       else
                         let n = (if n > sz then sz else n)
                         in (\<lparr>hr_start = sz - n, hr_end = sz - 1\<rparr>, True, True))
                else (case ParseInt 10 startStr of
                   (start, err) \<Rightarrow>
                     if err \<noteq> None \<or> start < 0 then (none, False, False)
                     else
                       let (en, bad) =
                         (if endStr \<noteq> []
                          then (case ParseInt 10 endStr of (en, err) \<Rightarrow> (en, err \<noteq> None \<or> en < start))
                          else (sz - 1, False))
                       in if bad then (none, False, False)
                          else if sz = 0 \<or> start \<ge> sz then (none, False, True)
                          else (\<lparr>hr_start = start, hr_end = (if en \<ge> sz then sz - 1 else en)\<rparr>, True, True))))"

section \<open>Preconditions\<close>

definition truncate_second :: "time \<Rightarrow> time" where
  "truncate_second t = t - t mod 1000000000"

definition ifRangeAllows :: "(string \<Rightarrow> time option) \<Rightarrow> request \<Rightarrow> object \<Rightarrow> bool" where
  "ifRangeAllows parseTime r obj =
     (let ir = TrimSpace (hdr r ''If-Range'') in
      if ir = [] then True
      else if HasPrefix ir [dquote] \<or> HasPrefix ir ''W/''
      then Trim (TrimPrefix ir ''W/'') [dquote] = ob_etag obj
      else (case parseTime ir of
         None \<Rightarrow> False
       | Some t \<Rightarrow> \<not> truncate_second (ob_updated obj) > t))"

definition etagMatches :: "string \<Rightarrow> string \<Rightarrow> bool" where
  "etagMatches headerVal etag =
     list_ex (\<lambda>tok0. let tok = TrimSpace tok0 in
        tok = ''*'' \<or> Trim (TrimPrefix tok ''W/'') [dquote] = etag) (Split CHR '','' headerVal)"

definition conditionalStatus :: "(string \<Rightarrow> time option) \<Rightarrow> request \<Rightarrow> object \<Rightarrow> int" where
  "conditionalStatus parseTime r obj =
     (let lastMod = truncate_second (ob_updated obj);
          im = hdr r ''If-Match''; ius = hdr r ''If-Unmodified-Since'';
          inm = hdr r ''If-None-Match''; ims = hdr r ''If-Modified-Since''
      in if (if im \<noteq> [] then \<not> etagMatches im (ob_etag obj)
             else if ius \<noteq> [] then (case parseTime ius of Some t \<Rightarrow> lastMod > t | None \<Rightarrow> False)
             else False) then 412
         else if (if inm \<noteq> [] then etagMatches inm (ob_etag obj)
             else if ims \<noteq> [] then (case parseTime ims of Some t \<Rightarrow> \<not> lastMod > t | None \<Rightarrow> False)
             else False) then 304
         else 0)"

section \<open>Properties\<close>

text \<open>
  The range a header denotes on an object of a given size, written as the standard has it: the last
  \<open>n\<close> bytes, or from a first to a last position, or from a first position on.
\<close>

datatype byte_range = Suffix nat | FromTo nat nat | From nat

fun range_text :: "byte_range \<Rightarrow> string" where
  "range_text (Suffix n) = ''bytes=-'' @ format_nat 10 n"
| "range_text (FromTo a b) = ''bytes='' @ format_nat 10 a @ ''-'' @ format_nat 10 b"
| "range_text (From a) = ''bytes='' @ format_nat 10 a @ ''-''"

fun range_denotes :: "byte_range \<Rightarrow> nat \<Rightarrow> nat set" where
  "range_denotes (Suffix n) sz = {i. i < sz \<and> sz \<le> i + n}"
| "range_denotes (FromTo a b) sz = {i. i < sz \<and> a \<le> i \<and> i \<le> b}"
| "range_denotes (From a) sz = {i. i < sz \<and> a \<le> i}"

fun range_valid :: "byte_range \<Rightarrow> bool" where
  "range_valid (Suffix n) = (0 < n \<and> int n < 2 ^ 63)"
| "range_valid (FromTo a b) = (a \<le> b \<and> int b < 2 ^ 63)"
| "range_valid (From a) = (int a < 2 ^ 63)"

lemma decimal_chars: "set (format_nat 10 n) \<subseteq> hex_alphabet"
  using format_nat_digits(3) [of 10 n] by simp

lemma decimal_ne [simp]: "format_nat 10 n \<noteq> []"
  using format_nat_digits(2) [of 10 n] by simp

definition range_alphabet :: "char set" where
  "range_alphabet = insert CHR ''-'' hex_alphabet"

lemma TrimSpace_clean:
  assumes "set s \<subseteq> range_alphabet"
  shows "TrimSpace s = s"
  unfolding TrimSpace_def
proof (rule Trim_clean)
  fix c assume "c \<in> set s"
  with assms have "c = CHR ''-'' \<or> c \<in> hex_alphabet" by (auto simp: range_alphabet_def)
  then show "c \<notin> set space_chars" using hex_not_space by (auto simp: space_chars_def)
qed

lemma no_comma: "CHR '','' \<notin> set s \<Longrightarrow> \<not> Contains s '',''"
  by (induction s) (auto simp: Contains_def)

lemma parseByteRange_split:
  assumes "set a \<subseteq> hex_alphabet" and "set b \<subseteq> hex_alphabet"
  shows "HasPrefix (''bytes='' @ a @ ''-'' @ b) ''bytes=''"
    and "TrimSpace (drop (length ''bytes='') (''bytes='' @ a @ ''-'' @ b)) = a @ ''-'' @ b"
    and "\<not> (a @ ''-'' @ b = [] \<or> Contains (a @ ''-'' @ b) '','')"
    and "IndexByte (a @ ''-'' @ b) CHR ''-'' = Some (length a)"
    and "TrimSpace (take (length a) (a @ ''-'' @ b)) = a" and "TrimSpace (drop (length a + 1) (a @ ''-'' @ b)) = b"
proof -
  have ab: "set (a @ ''-'' @ b) \<subseteq> range_alphabet" using assms by (auto simp: range_alphabet_def)
  show "HasPrefix (''bytes='' @ a @ ''-'' @ b) ''bytes=''" by (simp add: HasPrefix_def)
  show "TrimSpace (drop (length ''bytes='') (''bytes='' @ a @ ''-'' @ b)) = a @ ''-'' @ b"
    using TrimSpace_clean [OF ab] by simp
  have "CHR '','' \<notin> set a" "CHR '','' \<notin> set b" "CHR ''-'' \<notin> set a"
    using assms hex_alphabet_not by blast+
  then show "\<not> (a @ ''-'' @ b = [] \<or> Contains (a @ ''-'' @ b) '','')"
    and "IndexByte (a @ ''-'' @ b) CHR ''-'' = Some (length a)"
    using no_comma [of "a @ ''-'' @ b"] IndexByte_append by auto
  show "TrimSpace (take (length a) (a @ ''-'' @ b)) = a" and "TrimSpace (drop (length a + 1) (a @ ''-'' @ b)) = b"
    using assms TrimSpace_clean [of a] TrimSpace_clean [of b] by (auto simp: range_alphabet_def)
qed

lemma parseByteRange_eq:
  assumes "set a \<subseteq> hex_alphabet" and "set b \<subseteq> hex_alphabet"
  shows "parseByteRange (''bytes='' @ a @ ''-'' @ b) sz =
    (let none = \<lparr>hr_start = 0, hr_end = 0\<rparr> in
     if a = [] then
       (case ParseInt 10 b of
          (n, err) \<Rightarrow>
            if err \<noteq> None \<or> n \<le> 0 then (none, False, False)
            else if sz = 0 then (none, False, True)
            else (\<lparr>hr_start = sz - (if n > sz then sz else n), hr_end = sz - 1\<rparr>, True, True))
     else (case ParseInt 10 a of
        (start, err) \<Rightarrow>
          if err \<noteq> None \<or> start < 0 then (none, False, False)
          else
            let (en, bad) =
              (if b \<noteq> [] then (case ParseInt 10 b of (en, err) \<Rightarrow> (en, err \<noteq> None \<or> en < start))
               else (sz - 1, False))
            in if bad then (none, False, False)
               else if sz = 0 \<or> start \<ge> sz then (none, False, True)
               else (\<lparr>hr_start = start, hr_end = (if en \<ge> sz then sz - 1 else en)\<rparr>, True, True)))"
proof -
  note sp = parseByteRange_split [OF assms]
  show ?thesis
    unfolding parseByteRange_def Let_def sp(2)
    by (simp only: sp if_True if_False not_True_eq_False option.case Let_def)
qed

lemma parse_suffix:
  assumes "0 < n" and "int n < 2 ^ 63"
  shows "parseByteRange (range_text (Suffix n)) (int sz) =
    (if sz = 0 then (\<lparr>hr_start = 0, hr_end = 0\<rparr>, False, True)
     else (\<lparr>hr_start = int (sz - n), hr_end = int sz - 1\<rparr>, True, True))"
  using parseByteRange_eq [of "[]" "format_nat 10 n" "int sz"] decimal_chars [of n] assms
  by (simp add: ParseInt_format Let_def of_nat_diff)

lemma parse_from_to:
  assumes "a \<le> b" and "int b < 2 ^ 63"
  shows "parseByteRange (range_text (FromTo a b)) (int sz) =
    (if sz \<le> a then (\<lparr>hr_start = 0, hr_end = 0\<rparr>, False, True)
     else (\<lparr>hr_start = int a, hr_end = (if sz \<le> b then int sz - 1 else int b)\<rparr>, True, True))"
  using parseByteRange_eq [of "format_nat 10 a" "format_nat 10 b" "int sz"] decimal_chars assms
  by (simp add: ParseInt_format Let_def)

lemma parse_from:
  assumes "int a < 2 ^ 63"
  shows "parseByteRange (range_text (From a)) (int sz) =
    (if sz \<le> a then (\<lparr>hr_start = 0, hr_end = 0\<rparr>, False, True)
     else (\<lparr>hr_start = int a, hr_end = int sz - 1\<rparr>, True, True))"
  using parseByteRange_eq [of "format_nat 10 a" "[]" "int sz"] decimal_chars assms
  by (simp add: ParseInt_format Let_def)

text \<open>
  C29 (functional). A single byte range on an object is satisfiable exactly when it denotes some byte
  of the object, and then the resolved bounds are the first and the last byte it denotes: they lie in
  the object and select precisely the denoted bytes.
\<close>

theorem byte_range_resolved:
  assumes "range_valid br"
  shows "\<exists>r sat. parseByteRange (range_text br) (int sz) = (r, sat, True) \<and>
    sat = (range_denotes br sz \<noteq> {}) \<and>
    (sat \<longrightarrow> 0 \<le> hr_start r \<and> hr_start r \<le> hr_end r \<and> hr_end r < int sz \<and>
      range_denotes br sz = {i. hr_start r \<le> int i \<and> int i \<le> hr_end r})"
proof (cases br)
  case (Suffix n)
  have "range_denotes br sz \<noteq> {} \<longleftrightarrow> sz \<noteq> 0" using Suffix assms by (auto intro!: exI [of _ "sz - 1"])
  with Suffix assms show ?thesis by (auto simp: parse_suffix simp del: range_text.simps)
next
  case (FromTo a b)
  have "range_denotes br sz \<noteq> {} \<longleftrightarrow> a < sz" using FromTo assms by (auto intro!: exI [of _ a])
  with FromTo assms show ?thesis by (auto simp: parse_from_to simp del: range_text.simps)
next
  case (From a)
  have "range_denotes br sz \<noteq> {} \<longleftrightarrow> a < sz" using From by (auto intro!: exI [of _ a])
  with From assms show ?thesis by (auto simp: parse_from simp del: range_text.simps)
qed

theorem byte_range_resolved_witness:
  "\<exists>r sat. parseByteRange (range_text (FromTo 2 9)) 5 = (r, sat, True) \<and> sat \<and>
    {i. i < 5 \<and> 2 \<le> i \<and> i \<le> 9} = {i. hr_start r \<le> int i \<and> int i \<le> hr_end r}"
proof -
  have "2 \<in> range_denotes (FromTo 2 9) 5" by simp
  then have ne: "range_denotes (FromTo 2 9) 5 \<noteq> {}" by blast
  have "range_valid (FromTo 2 9)" by simp
  from byte_range_resolved [OF this, of 5] ne obtain r where
    "parseByteRange (range_text (FromTo 2 9)) 5 = (r, True, True)"
    "range_denotes (FromTo 2 9) 5 = {i. hr_start r \<le> int i \<and> int i \<le> hr_end r}" by auto
  then show ?thesis by (auto simp del: range_text.simps)
qed

end
