(* ===== verification/SigV4.thy ===== *)
theory SigV4
  imports HttpTypes "HOL-Library.Multiset"
begin

text \<open>
  Request signatures and request addressing, \<^verbatim>\<open>internal/s3api/handler.go\<close>: the AWS URI encoding, the
  canonical request, the two forms of \<^verbatim>\<open>authorized\<close>, and \<^verbatim>\<open>splitBucketKey\<close>. The hash, the MAC and the
  parsing of the timestamp (\<^verbatim>\<open>time.Parse\<close> with the compact format) are parameters.
\<close>

section \<open>Parameters\<close>

record crypto =
  cy_sha256 :: "bytes \<Rightarrow> bytes"
  cy_hmac :: "bytes \<Rightarrow> bytes \<Rightarrow> bytes"
  cy_time :: "string \<Rightarrow> time option"

record auth_cfg =
  ac_access :: string
  ac_secret :: string
  ac_host :: string

abbreviation second :: int where "second \<equiv> 1000000000"

section \<open>Encoding\<close>

definition hex_encode :: "bytes \<Rightarrow> string" where
  "hex_encode bs = concat (map (\<lambda>c. [digit_char (of_char c div 16), digit_char (of_char c mod 16)]) bs)"

definition upperHex :: string where
  "upperHex = ''0123456789ABCDEF''"

definition unreserved :: "char \<Rightarrow> bool" where
  "unreserved c \<longleftrightarrow> (CHR ''A'' \<le> c \<and> c \<le> CHR ''Z'') \<or> (CHR ''a'' \<le> c \<and> c \<le> CHR ''z'') \<or>
     (CHR ''0'' \<le> c \<and> c \<le> CHR ''9'') \<or> c = CHR ''-'' \<or> c = CHR ''.'' \<or> c = CHR ''_'' \<or> c = CHR ''~''"

definition encode_byte :: "bool \<Rightarrow> char \<Rightarrow> string" where
  "encode_byte encodeSlash c =
     (if unreserved c then [c]
      else if c = CHR ''/'' \<and> \<not> encodeSlash then [c]
      else [CHR 0x25, upperHex ! (of_char c div 16), upperHex ! (of_char c mod 16)])"

definition awsURIEncode :: "string \<Rightarrow> bool \<Rightarrow> string" where
  "awsURIEncode s encodeSlash = concat (map (encode_byte encodeSlash) s)"

definition quoteETag :: "string \<Rightarrow> string" where
  "quoteETag etag = [dquote] @ etag @ [dquote]"

section \<open>The canonical request\<close>

definition canonicalURI :: "request \<Rightarrow> string" where
  "canonicalURI r = (if rq_path r = [] then ''/'' else awsURIEncode (rq_path r) False)"

definition query_pairs :: "url_values \<Rightarrow> string \<Rightarrow> (string \<times> string) list" where
  "query_pairs q skip =
     concat (map (\<lambda>(key, vals). map (\<lambda>val. (key, val)) vals) (filter (\<lambda>(key, vals). key \<noteq> skip) q))"

definition canonicalQuery :: "url_values \<Rightarrow> string \<Rightarrow> string" where
  "canonicalQuery q skip =
     Join ''&'' (map (\<lambda>(k, v). k @ ''='' @ v)
       (sort (map (\<lambda>(key, val). (awsURIEncode key True, awsURIEncode val True)) (query_pairs q skip))))"

definition header_line :: "(string \<rightharpoonup> string) \<Rightarrow> request \<Rightarrow> string \<Rightarrow> string" where
  "header_line override r name =
     (let lower = ToLower name;
          v = (case override lower of
                 Some v \<Rightarrow> v
               | None \<Rightarrow> if lower = ''host'' then rq_host r else hdr r name)
      in lower @ '':'' @ Join '' '' (Fields v) @ [lf])"

definition canonicalHeadersWith :: "request \<Rightarrow> string \<Rightarrow> (string \<rightharpoonup> string) \<Rightarrow> string" where
  "canonicalHeadersWith r signedHeaders override =
     concat (map (header_line override r) (Split CHR '';'' signedHeaders))"

definition canonicalHeaders :: "request \<Rightarrow> string \<Rightarrow> string" where
  "canonicalHeaders r signedHeaders = canonicalHeadersWith r signedHeaders Map.empty"

definition canonicalRequest :: "string \<Rightarrow> string \<Rightarrow> string \<Rightarrow> string \<Rightarrow> string \<Rightarrow> string \<Rightarrow> string" where
  "canonicalRequest method path query headers signedHeaders payloadHash =
     Join [lf] [method, if path = [] then ''/'' else path, query, headers, signedHeaders, payloadHash]"

definition stringToSign :: "crypto \<Rightarrow> string \<Rightarrow> string \<Rightarrow> string \<Rightarrow> string \<Rightarrow> string \<Rightarrow> string" where
  "stringToSign cy amzDate date region service canonReq =
     ''AWS4-HMAC-SHA256'' @ [lf] @ amzDate @ [lf] @ date @ ''/'' @ region @ ''/'' @ service @
     ''/aws4_request'' @ [lf] @ hex_encode (cy_sha256 cy canonReq)"

definition sign :: "crypto \<Rightarrow> string \<Rightarrow> string \<Rightarrow> string \<Rightarrow> string \<Rightarrow> string \<Rightarrow> string" where
  "sign cy secret date region service sts =
     (let kDate = cy_hmac cy (''AWS4'' @ secret) date;
          kRegion = cy_hmac cy kDate region;
          kService = cy_hmac cy kRegion service;
          kSigning = cy_hmac cy kService ''aws4_request''
      in hex_encode (cy_hmac cy kSigning sts))"

section \<open>Authorization\<close>

definition parseAuthFields :: "string \<Rightarrow> (string \<Rightarrow> string)" where
  "parseAuthFields v =
     fold (\<lambda>part fields.
        case SplitN2 CHR ''='' (TrimSpace part) of
          [k, x] \<Rightarrow> fields(k := x)
        | _ \<Rightarrow> fields)
       (Split CHR '','' v) (\<lambda>_. [])"

definition hasSigned :: "string \<Rightarrow> string \<Rightarrow> bool" where
  "hasSigned signedHeaders name = list_ex (\<lambda>h. EqualFold (TrimSpace h) name) (Split CHR '';'' signedHeaders)"

definition verifyHeaderSigWith :: "crypto \<Rightarrow> auth_cfg \<Rightarrow> request \<Rightarrow> string \<Rightarrow> string \<Rightarrow> string \<Rightarrow> string \<Rightarrow>
    string \<Rightarrow> string \<Rightarrow> string \<Rightarrow> (string \<rightharpoonup> string) \<Rightarrow> bool" where
  "verifyHeaderSigWith cy cfg r signedHeaders amzDate date region service payloadHash signature override =
     (let canon = canonicalRequest (rq_method r) (canonicalURI r) (canonicalQuery (rq_query r) [])
            (canonicalHeadersWith r signedHeaders override) signedHeaders payloadHash;
          sts = stringToSign cy amzDate date region service canon;
          expected = sign cy (ac_secret cfg) date region service sts
      in expected = signature)"

definition verifyHeaderSig :: "crypto \<Rightarrow> auth_cfg \<Rightarrow> request \<Rightarrow> string \<Rightarrow> string \<Rightarrow> string \<Rightarrow> string \<Rightarrow>
    string \<Rightarrow> string \<Rightarrow> string \<Rightarrow> bool" where
  "verifyHeaderSig cy cfg r signedHeaders amzDate date region service payloadHash signature =
     verifyHeaderSigWith cy cfg r signedHeaders amzDate date region service payloadHash signature Map.empty"

definition authorizedPresigned :: "crypto \<Rightarrow> auth_cfg \<Rightarrow> time \<Rightarrow> request \<Rightarrow> string \<Rightarrow> bool" where
  "authorizedPresigned cy cfg now r provided =
     (let q = rq_query r;
          credential = values_get q ''X-Amz-Credential'';
          signedHeaders = values_get q ''X-Amz-SignedHeaders'';
          amzDate = values_get q ''X-Amz-Date'';
          expires = values_get q ''X-Amz-Expires''
      in if credential = [] \<or> signedHeaders = [] \<or> amzDate = [] \<or> expires = [] then False
         else
           let parts = Split CHR ''/'' credential in
           if length parts \<noteq> 5 \<or> parts ! 0 \<noteq> ac_access cfg then False
           else (case Atoi expires of
              (ex, perr) \<Rightarrow>
                if perr \<noteq> None \<or> ex < 1 \<or> ex > 604800 then False
                else (case cy_time cy amzDate of
                   None \<Rightarrow> False
                 | Some reqTime \<Rightarrow>
                     if now > reqTime + ex * second then False
                     else
                       let date = parts ! 1; region = parts ! 2; service = parts ! 3;
                           canon = canonicalRequest (rq_method r) (canonicalURI r)
                             (canonicalQuery q ''X-Amz-Signature'') (canonicalHeaders r signedHeaders)
                             signedHeaders ''UNSIGNED-PAYLOAD'';
                           sts = stringToSign cy amzDate date region service canon;
                           expected = sign cy (ac_secret cfg) date region service sts
                       in expected = provided)))"

definition authorized :: "crypto \<Rightarrow> auth_cfg \<Rightarrow> time \<Rightarrow> request \<Rightarrow> bool" where
  "authorized cy cfg now r =
     (if ac_secret cfg = [] \<or> ac_access cfg = [] then False
      else
        let sig = values_get (rq_query r) ''X-Amz-Signature'' in
        if sig \<noteq> [] then authorizedPresigned cy cfg now r sig
        else
          let auth = hdr r ''Authorization'' in
          if auth = [] \<or> \<not> HasPrefix auth ''AWS4-HMAC-SHA256 '' then False
          else
            let fields = parseAuthFields (TrimPrefix auth ''AWS4-HMAC-SHA256 '');
                credential = fields ''Credential'';
                signedHeaders = fields ''SignedHeaders'';
                signature = fields ''Signature''
            in if credential = [] \<or> signedHeaders = [] \<or> signature = [] then False
               else
                 let parts = Split CHR ''/'' credential in
                 if length parts \<noteq> 5 \<or> parts ! 0 \<noteq> ac_access cfg then False
                 else
                   let date = parts ! 1; region = parts ! 2; service = parts ! 3;
                       amzDate = hdr r ''X-Amz-Date''
                   in if amzDate = [] then False
                      else (case cy_time cy amzDate of
                         None \<Rightarrow> False
                       | Some reqTime \<Rightarrow>
                           let skew = now - reqTime in
                           if skew > 15 * 60 * second \<or> skew < - (15 * 60 * second) then False
                           else
                             let payloadHash = (let p = hdr r ''X-Amz-Content-Sha256'' in
                                   if p = [] then ''UNSIGNED-PAYLOAD'' else p)
                             in if verifyHeaderSig cy cfg r signedHeaders amzDate date region service payloadHash signature
                                then True
                                else if hasSigned signedHeaders ''accept-encoding'' \<and>
                                  \<not> EqualFold (hdr r ''Accept-Encoding'') ''identity''
                                then verifyHeaderSigWith cy cfg r signedHeaders amzDate date region service payloadHash
                                  signature [''accept-encoding'' \<mapsto> ''identity'']
                                else False))"

section \<open>Addressing\<close>

definition parsePath :: "string \<Rightarrow> string \<times> string" where
  "parsePath path0 =
     (let path = TrimPrefix path0 ''/'' in
      if path = [] then ([], [])
      else (case SplitN2 CHR ''/'' path of
         [b, k] \<Rightarrow> (b, case PathUnescape k of Some key \<Rightarrow> key | None \<Rightarrow> [])
       | parts \<Rightarrow> (hd parts, [])))"

definition splitBucketKey :: "auth_cfg \<Rightarrow> request \<Rightarrow> string \<times> string" where
  "splitBucketKey cfg r =
     (let host = ToLower (case IndexByte (rq_host r) CHR '':'' of Some i \<Rightarrow> take i (rq_host r) | None \<Rightarrow> rq_host r);
          suffix = ''.'' @ ac_host cfg
      in if ac_host cfg \<noteq> [] \<and> host \<noteq> ac_host cfg \<and> HasSuffix host suffix
         then (TrimSuffix host suffix,
               case PathUnescape (TrimPrefix (rq_path r) ''/'') of Some key \<Rightarrow> key | None \<Rightarrow> [])
         else parsePath (rq_path r))"

section \<open>The encoding is invertible\<close>

lemma upperHex_digits:
  "list_all (\<lambda>d. unhex (upperHex ! d) = Some d \<and> unreserved (upperHex ! d)) [0..<16]"
  by code_simp

lemma upperHex_digit: "d < 16 \<Longrightarrow> unhex (upperHex ! d) = Some d \<and> unreserved (upperHex ! d)"
  using upperHex_digits by (auto simp: list_all_iff)

lemma not_unreserved:
  "\<not> unreserved CHR 0x25" "\<not> unreserved lf" "\<not> unreserved CHR ''&''" "\<not> unreserved CHR ''=''" "\<not> unreserved CHR ''/''"
  by code_simp+

lemma byte_nibbles: "(of_char c :: nat) div 16 < 16" "(of_char c :: nat) mod 16 < 16"
proof -
  have "(of_char c :: nat) < 256" by (metis (mono_tags, lifting) nat_of_char_less_256)
  then show "(of_char c :: nat) div 16 < 16" by (simp add: less_mult_imp_div_less)
qed simp

lemma unescape_byte: "PathUnescape (encode_byte b c @ t) = map_option ((#) c) (PathUnescape t)"
proof (cases "unreserved c \<or> c = CHR ''/'' \<and> \<not> b")
  case True
  then have "encode_byte b c = [c]" by (auto simp: encode_byte_def)
  moreover have "c \<noteq> CHR 0x25" using True not_unreserved(1) by auto
  ultimately show ?thesis by simp
next
  case False
  have "16 * (of_char c div 16) + of_char c mod 16 = (of_char c :: nat)" by (rule mult_div_mod_eq)
  then have "char_of (16 * (of_char c div 16) + of_char c mod 16 :: nat) = c" by (simp only: char_of_char)
  with False upperHex_digit byte_nibbles [of c] show ?thesis by (auto simp: encode_byte_def)
qed

lemma unescape_encode: "PathUnescape (awsURIEncode s b) = Some s"
  by (induction s) (simp_all add: awsURIEncode_def unescape_byte)

lemma awsURIEncode_inj: "awsURIEncode s b = awsURIEncode t b \<Longrightarrow> s = t"
  by (metis unescape_encode option.inject)

lemma encode_chars:
  "x \<in> set (awsURIEncode s b) \<Longrightarrow> unreserved x \<or> x = CHR 0x25 \<or> x = CHR ''/'' \<and> \<not> b"
  using upperHex_digit byte_nibbles by (auto simp: awsURIEncode_def encode_byte_def split: if_splits)

lemma encode_clean:
  "lf \<notin> set (awsURIEncode s b)" "CHR ''&'' \<notin> set (awsURIEncode s b)" "CHR ''='' \<notin> set (awsURIEncode s b)"
  using encode_chars not_unreserved by blast+


section \<open>What the canonical request determines\<close>

lemma pair_text_inj:
  assumes "CHR ''='' \<notin> set k1" and "CHR ''='' \<notin> set k2" and "k1 @ ''='' @ v1 = k2 @ ''='' @ (v2 :: string)"
  shows "k1 = k2 \<and> v1 = v2"
  using first_sep_unique [of k1 "CHR ''=''" v1 k2 v2] assms by simp

definition enc_pair :: "string \<times> string \<Rightarrow> string \<times> string" where
  "enc_pair p = (awsURIEncode (fst p) True, awsURIEncode (snd p) True)"

definition pair_text :: "string \<times> string \<Rightarrow> string" where
  "pair_text p = fst p @ ''='' @ snd p"

lemma canonicalQuery_alt:
  "canonicalQuery q skip = Join ''&'' (map pair_text (sort (map enc_pair (query_pairs q skip))))"
proof -
  have "(\<lambda>(k, v). k @ ''='' @ v) = pair_text" and "(\<lambda>(key, val). (awsURIEncode key True, awsURIEncode val True)) = enc_pair"
    by (auto simp: enc_pair_def pair_text_def)
  then show ?thesis unfolding canonicalQuery_def by (simp only:)
qed

lemma pair_texts_inj:
  assumes "set xs \<subseteq> range enc_pair" and "set ys \<subseteq> range enc_pair" and "map pair_text xs = map pair_text ys"
  shows "xs = ys"
proof -
  have "inj_on pair_text (set xs \<union> set ys)"
  proof (rule inj_onI)
    fix p q assume pq: "p \<in> set xs \<union> set ys" "q \<in> set xs \<union> set ys" "pair_text p = pair_text q"
    have "CHR ''='' \<notin> set (fst p)" "CHR ''='' \<notin> set (fst q)"
      using pq assms(1,2) encode_clean(3) by (auto simp: enc_pair_def)
    with pq(3) pair_text_inj [of "fst p" "fst q" "snd p" "snd q"] show "p = q"
      by (simp add: pair_text_def prod_eq_iff)
  qed
  with assms(3) show ?thesis by (simp add: inj_on_map_eq_map)
qed

lemma join_pairs_inj:
  assumes "set xs \<subseteq> range enc_pair" and "set ys \<subseteq> range enc_pair"
    and "Join ''&'' (map pair_text xs) = Join ''&'' (map pair_text ys)"
  shows "xs = ys"
proof -
  have clean: "CHR ''&'' \<notin> set (pair_text p)" if "p \<in> range enc_pair" for p
    using that encode_clean(2) by (auto simp: enc_pair_def pair_text_def)
  have ne: "Join ''&'' (map pair_text zs) \<noteq> []" if "zs \<noteq> []" for zs
  proof (cases zs)
    case (Cons z zs')
    then show ?thesis by (cases zs') (auto simp: pair_text_def)
  qed (use that in simp)
  show ?thesis
  proof (cases "xs = [] \<or> ys = []")
    case True
    with assms(3) ne show ?thesis by (metis Join.simps(1) list.simps(8))
  next
    case False
    have sj: "Split CHR ''&'' (Join ''&'' (map pair_text zs)) = map pair_text zs"
      if "zs \<noteq> []" "set zs \<subseteq> range enc_pair" for zs
    proof (rule Split_of_Join)
      fix x assume "x \<in> set (map pair_text zs)"
      then obtain p where p: "p \<in> set zs" "x = pair_text p" by auto
      with that(2) have "p \<in> range enc_pair" by (rule_tac subsetD)
      with p show "CHR ''&'' \<notin> set x" using clean by simp
    qed (use that in simp)
    have "Split CHR ''&'' (Join ''&'' (map pair_text xs)) = map pair_text xs"
      and "Split CHR ''&'' (Join ''&'' (map pair_text ys)) = map pair_text ys" using False assms(1,2) by (auto simp only: intro: sj)
    with assms(3) have "map pair_text xs = map pair_text ys" by metis
    with assms(1,2) show ?thesis by (rule pair_texts_inj)
  qed
qed

lemma enc_pair_inj: "inj enc_pair"
  by (rule injI) (auto simp: enc_pair_def prod_eq_iff dest: awsURIEncode_inj)

lemma canonicalQuery_determines:
  "canonicalQuery q skip = canonicalQuery q' skip' \<longleftrightarrow> mset (query_pairs q skip) = mset (query_pairs q' skip')"
proof
  assume eq: "canonicalQuery q skip = canonicalQuery q' skip'"
  have "sort (map enc_pair (query_pairs q skip)) = sort (map enc_pair (query_pairs q' skip'))"
    by (rule join_pairs_inj) (use eq in \<open>auto simp: canonicalQuery_alt\<close>)
  then have "mset (sort (map enc_pair (query_pairs q skip))) = mset (sort (map enc_pair (query_pairs q' skip')))" by simp
  then have "image_mset enc_pair (mset (query_pairs q skip)) = image_mset enc_pair (mset (query_pairs q' skip'))" by simp
  then show "mset (query_pairs q skip) = mset (query_pairs q' skip')"
    using enc_pair_inj by (meson multiset.inj_map injD)
next
  assume "mset (query_pairs q skip) = mset (query_pairs q' skip')"
  then have "mset (map enc_pair (query_pairs q skip)) = mset (map enc_pair (query_pairs q' skip'))" by simp
  then have "sort (map enc_pair (query_pairs q skip)) = sort (map enc_pair (query_pairs q' skip'))"
    by (metis mset_sort properties_for_sort sorted_sort)
  then show "canonicalQuery q skip = canonicalQuery q' skip'" by (simp add: canonicalQuery_alt)
qed

lemma canonicalQuery_no_lf: "lf \<notin> set (canonicalQuery q skip)"
proof -
  have "lf \<notin> set (Join ''&'' (map pair_text zs))" if "set zs \<subseteq> range enc_pair" for zs
    using that
  proof (induction zs)
    case (Cons z zs)
    have "lf \<notin> set (pair_text z)" using Cons.prems encode_clean(1) by (auto simp: enc_pair_def pair_text_def)
    with Cons show ?case by (cases zs) auto
  qed simp
  moreover have "set (sort (map enc_pair (query_pairs q skip))) \<subseteq> range enc_pair" by auto
  ultimately show ?thesis unfolding canonicalQuery_alt by blast
qed

lemma canonicalURI_no_lf: "lf \<notin> set (canonicalURI r)" "canonicalURI r \<noteq> []"
proof -
  show "lf \<notin> set (canonicalURI r)" using encode_clean(1) by (auto simp: canonicalURI_def)
  have "awsURIEncode s b \<noteq> []" if "s \<noteq> []" for s b
    using that by (cases s) (auto simp: awsURIEncode_def encode_byte_def)
  then show "canonicalURI r \<noteq> []" by (simp add: canonicalURI_def)
qed

text \<open>An empty path stands for the root.\<close>

definition norm_path :: "request \<Rightarrow> string" where
  "norm_path r = (if rq_path r = [] then ''/'' else rq_path r)"

lemma canonicalURI_determines: "canonicalURI r = canonicalURI r' \<Longrightarrow> norm_path r = norm_path r'"
proof -
  have "canonicalURI x = awsURIEncode (norm_path x) False" for x
    by (simp add: canonicalURI_def norm_path_def awsURIEncode_def encode_byte_def)
  then show "canonicalURI r = canonicalURI r' \<Longrightarrow> norm_path r = norm_path r'" by (metis awsURIEncode_inj)
qed

lemma canonicalRequest_determines:
  assumes "canonicalRequest m1 p1 q1 h1 s1 b1 = canonicalRequest m2 p2 q2 h2 s2 b2"
    and "p1 \<noteq> []" "p2 \<noteq> []"
    and "lf \<notin> set m1" "lf \<notin> set p1" "lf \<notin> set q1" "lf \<notin> set s1" "lf \<notin> set b1"
    and "lf \<notin> set m2" "lf \<notin> set p2" "lf \<notin> set q2" "lf \<notin> set s2" "lf \<notin> set b2"
  shows "m1 = m2" and "p1 = p2" and "q1 = q2" and "h1 = h2" and "s1 = s2" and "b1 = b2"
proof -
  have e: "m1 @ lf # p1 @ lf # q1 @ lf # h1 @ lf # s1 @ lf # b1 = m2 @ lf # p2 @ lf # q2 @ lf # h2 @ lf # s2 @ lf # b2"
    using assms(1-3) by (simp add: canonicalRequest_def)
  show m: "m1 = m2" and p: "p1 = p2" and q: "q1 = q2" using first_sep_unique e assms by metis+
  with e have e2: "(h1 @ lf # s1) @ lf # b1 = (h2 @ lf # s2) @ lf # b2" by simp
  show "b1 = b2" using last_sep_unique [OF e2] assms by simp
  with e2 have e3: "h1 @ lf # s1 = h2 @ lf # s2" by simp
  show "h1 = h2" and "s1 = s2" using last_sep_unique [OF e3] assms by simp_all
qed

end
