(* ===== verification/Listing.thy ===== *)
theory Listing
  imports StoreSpec GoStrings
begin

text \<open>
  Object listing, \<open>ListObjectsPage\<close> and \<open>prefixUpperBound\<close> of \<^verbatim>\<open>internal/metadata/store.go\<close>: the
  half-open key range is exactly the keys with the prefix, and a client that follows the
  continuation points through all pages sees every object and every common prefix once.
\<close>

section \<open>The prefix range\<close>

text \<open>The loop runs from the last byte to the first; the argument is the prefix reversed.\<close>

fun upper_loop :: "string \<Rightarrow> string" where
  "upper_loop [] = []"
| "upper_loop (c # cs) =
     (if c \<noteq> char_of (255 :: nat) then rev cs @ [char_of (of_char c + 1 :: nat)] else upper_loop cs)"

definition prefixUpperBound :: "string \<Rightarrow> string" where
  "prefixUpperBound p = upper_loop (rev p)"

section \<open>A page\<close>

record list_params =
  lp_bucket :: string
  lp_prefix :: string
  lp_delim :: string
  lp_after :: string
  lp_max :: int

record list_page =
  pg_objects :: "object list"
  pg_prefixes :: "string list"
  pg_truncated :: bool
  pg_next :: string

definition page_limit :: "int \<Rightarrow> nat" where
  "page_limit m = (if m \<le> 0 \<or> m > 1000 then 1000 else nat m)"

text \<open>The rows of the query, with the conditions the code appends to its \<^verbatim>\<open>WHERE\<close>.\<close>

definition list_rows :: "list_params \<Rightarrow> tables \<Rightarrow> object_row list" where
  "list_rows p t = sort_key o_key (filter (\<lambda>r.
     o_bucket r = lp_bucket p \<and> o_deleted r = None \<and>
     (lp_after p \<noteq> [] \<longrightarrow> lp_after p < o_key r) \<and>
     (lp_prefix p \<noteq> [] \<longrightarrow> lp_prefix p \<le> o_key r \<and>
        (let hi = prefixUpperBound (lp_prefix p) in hi \<noteq> [] \<longrightarrow> o_key r < hi))) (t_objects t))"

definition rolled :: "string \<Rightarrow> string \<Rightarrow> string \<Rightarrow> string option" where
  "rolled pre delim key =
     (if delim = [] then None
      else let rel = drop (length pre) key in
        (case go_index rel delim of
           None \<Rightarrow> None
         | Some i \<Rightarrow> Some (pre @ take (i + length delim) rel)))"

fun page_loop :: "string \<Rightarrow> string \<Rightarrow> nat \<Rightarrow> object_row list \<Rightarrow> list_page \<Rightarrow> string set \<Rightarrow> nat \<Rightarrow>
    list_page" where
  "page_loop pre delim maxKeys [] page seen count = page\<lparr>pg_next := []\<rparr>"
| "page_loop pre delim maxKeys (r # rs) page seen count =
     (case rolled pre delim (o_key r) of
        Some cp \<Rightarrow>
          if cp \<in> seen then page_loop pre delim maxKeys rs (page\<lparr>pg_next := o_key r\<rparr>) seen count
          else if count = maxKeys then page\<lparr>pg_truncated := True\<rparr>
          else page_loop pre delim maxKeys rs
            (page\<lparr>pg_prefixes := pg_prefixes page @ [cp], pg_next := o_key r\<rparr>)
            (insert cp seen) (count + 1)
      | None \<Rightarrow>
          if count = maxKeys then page\<lparr>pg_truncated := True\<rparr>
          else page_loop pre delim maxKeys rs
            (page\<lparr>pg_objects := pg_objects page @ [object_of_row r], pg_next := o_key r\<rparr>)
            seen (count + 1))"

definition empty_page :: list_page where
  "empty_page = \<lparr>pg_objects = [], pg_prefixes = [], pg_truncated = False, pg_next = []\<rparr>"

definition ListObjectsPage :: "list_params \<Rightarrow> (db, list_page) act" where
  "ListObjectsPage p =
     bindE (query (list_rows p))
       (\<lambda>rows. retE (page_loop (lp_prefix p) (lp_delim p) (page_limit (lp_max p)) rows
          empty_page {} 0))"

text \<open>A client that follows the continuation points.\<close>

fun all_pages :: "nat \<Rightarrow> list_params \<Rightarrow> db \<Rightarrow> list_page list option" where
  "all_pages 0 p d = None"
| "all_pages (Suc n) p d =
     (case ListObjectsPage p d of
        (Inl e, _) \<Rightarrow> None
      | (Inr page, d') \<Rightarrow>
          if pg_truncated page
          then map_option (Cons page) (all_pages n (p\<lparr>lp_after := pg_next page\<rparr>) d')
          else Some [page])"

section \<open>The range is the prefix\<close>

lemma of_char_le: "of_char c \<le> (255 :: nat)"
proof -
  have "of_char c < (256 :: nat)" by (metis of_char_mod_256 mod_less_divisor zero_less_numeral)
  then show ?thesis by linarith
qed

lemma char_of_255: "c \<noteq> char_of (255 :: nat) \<longleftrightarrow> of_char c < (255 :: nat)"
proof -
  have "c = char_of (255 :: nat) \<longleftrightarrow> of_char c = (255 :: nat)"
    by (metis char_of_char char_of_mod_256 of_char_of of_char_mod_256 mod_less numeral_less_iff semiring_norm(68,69,76,78,79,80,81))
  then show ?thesis using of_char_le [of c] by linarith
qed

lemma less_char_succ:
  assumes "c \<noteq> char_of (255 :: nat)"
  shows "x < char_of (of_char c + 1 :: nat) \<longleftrightarrow> x \<le> c"
  using assms unfolding char_of_255 less_char_def less_eq_char_def by (simp add: less_Suc_eq_le)

lemma max_char: "x \<le> char_of (255 :: nat)"
  using of_char_le [of x] by (simp add: less_eq_char_def)

lemma upper_loop_snoc:
  "upper_loop (xs @ [c]) =
     (if upper_loop xs \<noteq> [] then c # upper_loop xs
      else if c \<noteq> char_of (255 :: nat) then [char_of (of_char c + 1 :: nat)] else [])"
  by (induction xs) auto

lemma prefixUpperBound_Cons:
  "prefixUpperBound (c # p) =
     (if prefixUpperBound p \<noteq> [] then c # prefixUpperBound p
      else if c \<noteq> char_of (255 :: nat) then [char_of (of_char c + 1 :: nat)] else [])"
  by (simp add: prefixUpperBound_def upper_loop_snoc)

lemma prefix_range:
  "p \<le> k \<and> (prefixUpperBound p \<noteq> [] \<longrightarrow> k < prefixUpperBound p) \<longleftrightarrow> prefix p k"
proof (induction p arbitrary: k)
  case (Cons c p)
  show ?case
  proof (cases k)
    case (Cons x k')
    have sq: "x < char_of (of_char c + 1 :: nat) \<longleftrightarrow> x \<le> c" if "c \<noteq> char_of (255 :: nat)"
      using that by (rule less_char_succ)
    show ?thesis
    proof (cases "prefixUpperBound p = [] \<and> c = char_of (255 :: nat)")
      case True
      then show ?thesis using Cons.IH [of k'] max_char [of x]
        by (auto simp: prefixUpperBound_Cons Cons)
    next
      case False
      then show ?thesis using Cons.IH [of k'] sq
        by (auto simp: prefixUpperBound_Cons Cons)
    qed
  qed simp
qed (simp add: prefixUpperBound_def)

text \<open>What a listing is meant to enumerate: the live rows with the prefix, beyond the marker.\<close>

definition listed :: "list_params \<Rightarrow> tables \<Rightarrow> object_row list" where
  "listed p t = sort_key o_key (filter (\<lambda>r.
     o_bucket r = lp_bucket p \<and> o_deleted r = None \<and>
     (lp_after p \<noteq> [] \<longrightarrow> lp_after p < o_key r) \<and> prefix (lp_prefix p) (o_key r)) (t_objects t))"

lemma list_rows_listed: "list_rows p t = listed p t"
proof -
  have "(lp_prefix p \<noteq> [] \<longrightarrow> lp_prefix p \<le> k \<and>
      (let hi = prefixUpperBound (lp_prefix p) in hi \<noteq> [] \<longrightarrow> k < hi)) \<longleftrightarrow> prefix (lp_prefix p) k" for k
    using prefix_range [of "lp_prefix p" k] by (cases "lp_prefix p = []") (auto simp: Let_def)
  then show ?thesis by (simp add: list_rows_def listed_def)
qed

lemma listed_strict:
  assumes "uniq pk_object (t_objects t)"
  shows "sorted_wrt (<) (map o_key (listed p t))"
proof -
  let ?rows = "filter (\<lambda>r. o_bucket r = lp_bucket p \<and> o_deleted r = None \<and>
     (lp_after p \<noteq> [] \<longrightarrow> lp_after p < o_key r) \<and> prefix (lp_prefix p) (o_key r)) (t_objects t)"
  have "distinct (map pk_object ?rows)"
    using assms by (simp add: uniq_def distinct_map_filter)
  then have "distinct (map o_key ?rows)"
    by (auto simp: distinct_map inj_on_def pk_object_def)
  then show ?thesis
    by (simp add: sorted_wrt_less_distinct listed_def distinct_map)
qed

lemma strict_filter_above:
  assumes "sorted_wrt (<) (map f (us @ vs))" and "us \<noteq> []"
  shows "filter (\<lambda>r. f (last us) < (f r :: 'k :: linorder)) (us @ vs) = vs"
proof -
  have "\<not> f (last us) < f r" if "r \<in> set us" for r
    using assms that by (cases us rule: rev_cases) (auto simp: sorted_wrt_append)
  then have "filter (\<lambda>r. f (last us) < f r) us = []" by (auto simp: filter_empty_conv)
  moreover have "f (last us) < f r" if "r \<in> set vs" for r
    using assms that by (auto simp: sorted_wrt_append)
  then have "filter (\<lambda>r. f (last us) < f r) vs = vs" by (auto intro: filter_True)
  ultimately show ?thesis by simp
qed

lemma listed_resume:
  assumes "uniq pk_object (t_objects t)" and "listed p t = us @ vs" and "us \<noteq> []"
    and "o_key (last us) \<noteq> []"
  shows "listed (p\<lparr>lp_after := o_key (last us)\<rparr>) t = vs"
proof -
  have "last us \<in> set (listed p t)" using assms(2,3) by simp
  then have after: "lp_after p \<noteq> [] \<Longrightarrow> lp_after p < o_key (last us)"
    by (simp add: listed_def)
  have "listed (p\<lparr>lp_after := o_key (last us)\<rparr>) t = filter (\<lambda>r. o_key (last us) < o_key r) (listed p t)"
    using after assms(4) unfolding listed_def filter_sort
    by (auto intro!: arg_cong [where f = "sort_key o_key"] filter_cong dest: less_trans)
  then show ?thesis
    using strict_filter_above [of o_key us vs] listed_strict [OF assms(1), of p] assms(2,3) by simp
qed

section \<open>Common prefixes\<close>

lemma rolled_prefix:
  assumes "prefix pre k" and "rolled pre delim k = Some cp"
  shows "prefix cp k"
proof -
  from assms(2) obtain i where cp: "cp = pre @ take (i + length delim) (drop (length pre) k)"
    by (auto simp: rolled_def Let_def split: if_splits option.splits)
  moreover have "k = pre @ drop (length pre) k"
    using assms(1) by (metis append_eq_conv_conj prefix_def)
  ultimately show ?thesis by (metis same_prefix_prefix take_is_prefix)
qed

lemma rolled_stable:
  assumes "prefix pre k" and "rolled pre delim k = Some cp" and "prefix cp k'"
  shows "rolled pre delim k' = Some cp"
proof -
  let ?rel = "drop (length pre) k"
  from assms(2) obtain i where i: "go_index ?rel delim = Some i" and delim: "delim \<noteq> []"
    and cp: "cp = pre @ take (i + length delim) ?rel"
    by (auto simp: rolled_def Let_def split: if_splits option.splits)
  have len: "length (take (i + length delim) ?rel) = i + length delim"
    using go_index_bound [OF i] by simp
  from assms(3) obtain rest where k': "k' = cp @ rest" by (auto simp: prefix_def)
  then have same: "take (i + length delim) (drop (length pre) k') = take (i + length delim) ?rel"
    using len by (simp add: cp)
  have "go_index (drop (length pre) k') delim = Some i"
    using i same by (rule go_index_stable)
  then show ?thesis using delim same by (simp add: rolled_def Let_def cp)
qed

lemma prefix_between:
  assumes "prefix c a" and "prefix c b" and "a \<le> x" and "x \<le> b"
  shows "prefix (c :: 'a :: linorder list) x"
  using assms
proof (induction c arbitrary: a x b)
  case (Cons y c)
  obtain a' where a: "a = y # a'" "prefix c a'" using Cons.prems(1) by (cases a) simp_all
  obtain b' where b: "b = y # b'" "prefix c b'" using Cons.prems(2) by (cases b) simp_all
  obtain x' where "x = y # x'" "a' \<le> x'" "x' \<le> b'"
    using Cons.prems(3,4) a b by (cases x) auto
  with Cons.IH [OF a(2) b(2)] show ?case by simp
qed simp

lemma rolled_between:
  assumes "prefix pre a" and "rolled pre delim a = Some cp" and "prefix pre b"
    and "rolled pre delim b = Some cp" and "a \<le> x" and "x \<le> b"
  shows "rolled pre delim x = Some cp"
  using assms rolled_prefix rolled_stable prefix_between by metis

section \<open>One page\<close>

fun new_cps :: "string \<Rightarrow> string \<Rightarrow> string set \<Rightarrow> object_row list \<Rightarrow> string list" where
  "new_cps pre delim seen [] = []"
| "new_cps pre delim seen (r # rs) =
     (case rolled pre delim (o_key r) of
        None \<Rightarrow> new_cps pre delim seen rs
      | Some cp \<Rightarrow> if cp \<in> seen then new_cps pre delim seen rs
          else cp # new_cps pre delim (insert cp seen) rs)"

definition cps :: "string \<Rightarrow> string \<Rightarrow> object_row list \<Rightarrow> string set" where
  "cps pre delim rs = {cp. \<exists>r \<in> set rs. rolled pre delim (o_key r) = Some cp}"

definition plain :: "string \<Rightarrow> string \<Rightarrow> object_row list \<Rightarrow> object list" where
  "plain pre delim rs = map object_of_row (filter (\<lambda>r. rolled pre delim (o_key r) = None) rs)"

lemma cps_simps [simp]:
  "cps pre delim [] = {}"
  "cps pre delim (r # rs) = set_option (rolled pre delim (o_key r)) \<union> cps pre delim rs"
  "cps pre delim (rs @ rs') = cps pre delim rs \<union> cps pre delim rs'"
  by (auto simp: cps_def)

lemma plain_append [simp]: "plain pre delim (us @ vs) = plain pre delim us @ plain pre delim vs"
  by (simp add: plain_def)

lemma new_cps_append:
  "new_cps pre delim S (us @ vs) = new_cps pre delim S us @ new_cps pre delim (S \<union> cps pre delim us) vs"
  by (induction us arbitrary: S) (auto split: option.splits simp: insert_absorb)

lemma new_cps_disjoint:
  "S \<inter> cps pre delim vs = {} \<Longrightarrow> new_cps pre delim (S \<union> T) vs = new_cps pre delim T vs"
proof (induction vs arbitrary: T)
  case (Cons v vs)
  then have "new_cps pre delim (S \<union> T') vs = new_cps pre delim T' vs" for T' by auto
  from this [of T] this [of "insert _ T"] Cons.prems show ?case by (auto split: option.splits)
qed simp

lemma new_cps_set: "distinct (new_cps pre delim S rs) \<and> set (new_cps pre delim S rs) = cps pre delim rs - S"
  by (induction rs arbitrary: S) (auto split: option.splits)

definition fresh_row :: "string \<Rightarrow> string \<Rightarrow> string set \<Rightarrow> object_row \<Rightarrow> bool" where
  "fresh_row pre delim S r \<longleftrightarrow> set_option (rolled pre delim (o_key r)) \<inter> S = {}"

definition page_of :: "string \<Rightarrow> string \<Rightarrow> string set \<Rightarrow> object_row list \<Rightarrow> list_page \<Rightarrow> list_page \<Rightarrow> bool" where
  "page_of pre delim S us page page' \<longleftrightarrow>
     pg_objects page' = pg_objects page @ plain pre delim us \<and>
     pg_prefixes page' = pg_prefixes page @ new_cps pre delim S us"

lemma page_loop_split:
  assumes "page_loop pre delim m rs page S count = page'" and "count \<le> m" and "\<not> pg_truncated page"
    and "count = length (pg_objects page) + length (pg_prefixes page)"
  shows "\<exists>us vs. rs = us @ vs \<and> page_of pre delim S us page page' \<and>
    length (pg_objects page') + length (pg_prefixes page') \<le> m \<and>
    (if pg_truncated page'
     then vs \<noteq> [] \<and> length (pg_objects page') + length (pg_prefixes page') = m \<and>
       pg_next page' = (if us = [] then pg_next page else o_key (last us)) \<and>
       fresh_row pre delim (S \<union> cps pre delim us) (hd vs)
     else vs = [])"
  using assms
proof (induction rs arbitrary: page S count)
  case Nil
  then show ?case by (auto simp: page_of_def plain_def)
next
  case (Cons r rs)
  let ?ro = "rolled pre delim (o_key r)"
  have stop: ?case if "page' = page\<lparr>pg_truncated := True\<rparr>" "count = m" "fresh_row pre delim S r"
    using that Cons.prems by (intro exI [of _ "[]"] exI [of _ "r # rs"]) (simp add: page_of_def plain_def)
  have go: ?case if run: "page_loop pre delim m rs page1 S1 count1 = page'"
      and c1: "count1 \<le> m" "count1 = length (pg_objects page1) + length (pg_prefixes page1)"
      and p1: "\<not> pg_truncated page1" "pg_next page1 = o_key r"
      and of1: "page_of pre delim S [r] page page1" "S1 = S \<union> set_option ?ro"
    for page1 S1 count1
  proof -
    from Cons.IH [OF run c1(1) p1(1) c1(2)] obtain us vs where
      ih: "rs = us @ vs" "page_of pre delim S1 us page1 page'"
        "length (pg_objects page') + length (pg_prefixes page') \<le> m"
        "if pg_truncated page' then vs \<noteq> [] \<and> length (pg_objects page') + length (pg_prefixes page') = m \<and>
           pg_next page' = (if us = [] then pg_next page1 else o_key (last us)) \<and>
           fresh_row pre delim (S1 \<union> cps pre delim us) (hd vs)
         else vs = []"
      by blast
    have "page_of pre delim S (r # us) page page'"
      using ih(2) of1 new_cps_append [of pre delim S "[r]" us] by (simp add: page_of_def plain_def)
    then show ?thesis using ih p1(2) of1(2)
      by (intro exI [of _ "r # us"] exI [of _ vs]) (auto simp: Un_assoc split: if_splits)
  qed
  show ?case
  proof (cases ?ro)
    case None
    show ?thesis
    proof (cases "count = m")
      case True
      with None Cons.prems show ?thesis by (intro stop) (auto simp: fresh_row_def)
    next
      case False
      with None Cons.prems show ?thesis
        by (intro go [of "page\<lparr>pg_objects := pg_objects page @ [object_of_row r], pg_next := o_key r\<rparr>" S "count + 1"])
           (auto simp: page_of_def plain_def)
    qed
  next
    case (Some cp)
    consider "cp \<in> S" | "cp \<notin> S" "count = m" | "cp \<notin> S" "count \<noteq> m" by blast
    then show ?thesis
    proof cases
      case 1
      with Some Cons.prems show ?thesis
        by (intro go [of "page\<lparr>pg_next := o_key r\<rparr>" S count]) (auto simp: page_of_def plain_def)
    next
      case 2
      with Some Cons.prems show ?thesis by (intro stop) (auto simp: fresh_row_def)
    next
      case 3
      with Some Cons.prems show ?thesis
        by (intro go [of "page\<lparr>pg_prefixes := pg_prefixes page @ [cp], pg_next := o_key r\<rparr>" "insert cp S" "count + 1"])
           (auto simp: page_of_def plain_def)
    qed
  qed
qed

section \<open>All pages\<close>

lemma page_limit_pos: "0 < page_limit m"
  by (auto simp: page_limit_def)

lemma ListObjectsPage_nofault:
  "nofault d \<Longrightarrow> ListObjectsPage p d = (Inr (page_loop (lp_prefix p) (lp_delim p) (page_limit (lp_max p))
     (listed p (tabs d)) empty_page {} 0), d)"
  by (simp add: ListObjectsPage_def list_rows_listed bindE_def)

text \<open>
  A page cut before a fresh row leaves no common prefix half returned: the rows that roll into
  one prefix are neighbours.
\<close>

lemma cut_disjoint:
  assumes "sorted_wrt (<) (map o_key (us @ vs))" and "\<forall>r \<in> set (us @ vs). prefix pre (o_key r)"
    and "vs \<noteq> []" and "fresh_row pre delim (cps pre delim us) (hd vs)"
  shows "cps pre delim us \<inter> cps pre delim vs = {}"
proof (rule ccontr)
  assume "cps pre delim us \<inter> cps pre delim vs \<noteq> {}"
  then obtain cp u v where u: "u \<in> set us" "rolled pre delim (o_key u) = Some cp"
    and v: "v \<in> set vs" "rolled pre delim (o_key v) = Some cp"
    by (auto simp: cps_def)
  obtain w ws where vs: "vs = w # ws" using assms(3) by (cases vs) auto
  have "o_key u < o_key w"
    using assms(1) u(1) by (simp add: vs sorted_wrt_append)
  moreover have "o_key w \<le> o_key v"
    using assms(1) v(1) by (auto simp: vs sorted_wrt_append intro: less_imp_le)
  moreover have "prefix pre (o_key u)" and "prefix pre (o_key v)"
    using assms(2) u(1) v(1) by simp_all
  ultimately have "rolled pre delim (o_key w) = Some cp"
    using rolled_between [of pre "o_key u" delim cp "o_key v" "o_key w"] u(2) v(2) by simp
  moreover have "cp \<in> cps pre delim us" using u by (auto simp: cps_def)
  ultimately show False using assms(4) by (simp add: fresh_row_def vs)
qed

definition page_size :: "list_page \<Rightarrow> nat" where
  "page_size page = length (pg_objects page) + length (pg_prefixes page)"

definition pages_of :: "list_params \<Rightarrow> object_row list \<Rightarrow> list_page list \<Rightarrow> bool" where
  "pages_of p rows pages \<longleftrightarrow>
     concat (map pg_objects pages) = plain (lp_prefix p) (lp_delim p) rows \<and>
     concat (map pg_prefixes pages) = new_cps (lp_prefix p) (lp_delim p) {} rows \<and>
     list_all (\<lambda>page. page_size page \<le> page_limit (lp_max p)) pages"

lemma all_pages_complete:
  assumes "nofault d" and "uniq pk_object (t_objects (tabs d))"
    and "\<forall>r \<in> set (t_objects (tabs d)). o_key r \<noteq> []" and "length (listed p (tabs d)) < n"
  shows "\<exists>pages. all_pages n p d = Some pages \<and> pages_of p (listed p (tabs d)) pages"
  using assms(4)
proof (induction n arbitrary: p)
  case (Suc n)
  let ?t = "tabs d" and ?pre = "lp_prefix p" and ?del = "lp_delim p"
  define page where "page = page_loop ?pre ?del (page_limit (lp_max p)) (listed p ?t) empty_page {} 0"
  have run: "ListObjectsPage p d = (Inr page, d)"
    using ListObjectsPage_nofault [OF assms(1)] by (simp add: page_def)
  have "\<not> pg_truncated empty_page" and "0 = page_size empty_page"
    by (simp_all add: empty_page_def page_size_def)
  from page_loop_split [OF page_def [symmetric] le0, folded page_size_def, OF this] obtain us vs where
    rows: "listed p ?t = us @ vs" and pg: "page_of ?pre ?del {} us empty_page page"
    and sz: "page_size page \<le> page_limit (lp_max p)"
    and cut: "if pg_truncated page then vs \<noteq> [] \<and> page_size page = page_limit (lp_max p) \<and>
        pg_next page = (if us = [] then pg_next empty_page else o_key (last us)) \<and>
        fresh_row ?pre ?del ({} \<union> cps ?pre ?del us) (hd vs) else vs = []"
    by blast
  show ?case
  proof (cases "pg_truncated page")
    case False
    with run cut rows pg sz show ?thesis by (simp add: pages_of_def page_of_def empty_page_def)
  next
    case True
    have "us \<noteq> []"
      using True cut pg page_limit_pos [of "lp_max p"]
      by (auto simp: page_of_def empty_page_def plain_def page_size_def)
    then have "last us \<in> set (listed p ?t)" by (simp add: rows)
    then have "o_key (last us) \<noteq> []" using assms(3) by (simp add: listed_def)
    let ?q = "p\<lparr>lp_after := o_key (last us)\<rparr>"
    have q: "listed ?q ?t = vs"
      using listed_resume [OF assms(2) rows \<open>us \<noteq> []\<close> \<open>o_key (last us) \<noteq> []\<close>] .
    have "0 < length us" using \<open>us \<noteq> []\<close> by simp
    then have "length (listed ?q ?t) < n" using Suc.prems unfolding q rows length_append by linarith
    from Suc.IH [OF this] obtain pages where
      pages: "all_pages n ?q d = Some pages" "pages_of ?q vs pages" by (auto simp: q)
    have "\<forall>r \<in> set (us @ vs). prefix ?pre (o_key r)"
      unfolding rows [symmetric] by (simp add: listed_def)
    then have "cps ?pre ?del us \<inter> cps ?pre ?del vs = {}"
      using listed_strict [OF assms(2), of p] cut True unfolding rows by (intro cut_disjoint) auto
    then have "new_cps ?pre ?del (cps ?pre ?del us) vs = new_cps ?pre ?del {} vs"
      using new_cps_disjoint [of "cps ?pre ?del us" ?pre ?del vs "{}"] by simp
    then have "pages_of p (us @ vs) (page # pages)"
      using pages(2) pg sz by (simp add: pages_of_def page_of_def empty_page_def new_cps_append)
    with True run pages(1) cut \<open>us \<noteq> []\<close> rows show ?thesis by simp
  qed
qed simp

section \<open>Properties\<close>

text \<open>
  The half-open range the listing scans is exactly the keys that start with the
  prefix, also where the prefix ends in bytes 0xFF and where no upper bound exists.
\<close>

theorem prefix_range_exact:
  "p \<le> k \<and> (prefixUpperBound p = [] \<or> k < prefixUpperBound p) \<longleftrightarrow> prefix p k"
  using prefix_range [of p k] by blast

text \<open>
  C14 (functional). Following the continuation points from the first page, a client gets after at
  most one page per listed row a page that is not truncated. The pages together hold every listed
  object that does not roll up, in key order and once, and every common prefix once; and no page
  holds more than the page limit.
\<close>

theorem listing_complete:
  assumes "nofault d" and "wf d" and "\<forall>r \<in> set (t_objects (tabs d)). o_key r \<noteq> []"
    and "length (listed p (tabs d)) < n"
  shows "\<exists>pages. all_pages n p d = Some pages \<and>
    concat (map pg_objects pages) = map object_of_row
      (filter (\<lambda>r. rolled (lp_prefix p) (lp_delim p) (o_key r) = None) (listed p (tabs d))) \<and>
    distinct (concat (map pg_prefixes pages)) \<and>
    set (concat (map pg_prefixes pages)) =
      {cp. \<exists>r \<in> set (listed p (tabs d)). rolled (lp_prefix p) (lp_delim p) (o_key r) = Some cp} \<and>
    (\<forall>page \<in> set pages. length (pg_objects page) + length (pg_prefixes page) \<le> page_limit (lp_max p))"
proof -
  have "uniq pk_object (t_objects (tabs d))" using assms(2) by (simp add: wf_tables_def)
  from all_pages_complete [OF assms(1) this assms(3,4)] obtain pages where
    "all_pages n p d = Some pages" and "pages_of p (listed p (tabs d)) pages" by blast
  then show ?thesis
    using new_cps_set [of "lp_prefix p" "lp_delim p" "{}" "listed p (tabs d)"]
    by (intro exI [of _ pages]) (simp add: pages_of_def plain_def cps_def page_size_def list_all_iff)
qed

definition w_row :: "string \<Rightarrow> object_row" where
  "w_row k = \<lparr>o_bucket = ''b'', o_key = k, o_size = 0, o_etag = [], o_ctype = [], o_created = 0,
     o_updated = 0, o_deleted = None\<rparr>"

definition w_list_db :: db where
  "w_list_db = \<lparr>tabs = migrate\<lparr>t_buckets := [\<lparr>b_name = ''b'', b_created = 1\<rparr>],
     t_objects := map w_row [''a/2'', ''z'', ''a/1'', ''a'', ''b/1'']\<rparr>, faults = []\<rparr>"

definition w_params :: list_params where
  "w_params = \<lparr>lp_bucket = ''b'', lp_prefix = [], lp_delim = ''/'', lp_after = [], lp_max = 1\<rparr>"

lemma w_params_simps: "lp_prefix w_params = []" "lp_delim w_params = ''/''"
  by (simp_all add: w_params_def)

theorem listing_complete_witness:
  "\<exists>pages. all_pages 6 w_params w_list_db = Some pages \<and>
    concat (map pg_objects pages) = map object_of_row [w_row ''a'', w_row ''z''] \<and>
    set (concat (map pg_prefixes pages)) = {''a/'', ''b/''}"
proof -
  have rows: "listed w_params (tabs w_list_db) = map w_row [''a'', ''a/1'', ''a/2'', ''b/1'', ''z'']"
    by (simp add: listed_def w_list_db_def w_params_def migrate_def w_row_def)
  have "wf w_list_db"
    by (simp add: w_list_db_def wf_tables_def migrate_def uniq_def w_row_def pk_object_def)
  moreover have "\<forall>r \<in> set (t_objects (tabs w_list_db)). o_key r \<noteq> []"
    by (simp add: w_list_db_def w_row_def)
  ultimately obtain pages where "all_pages 6 w_params w_list_db = Some pages"
    and "concat (map pg_objects pages) = map object_of_row
      (filter (\<lambda>r. rolled [] ''/'' (o_key r) = None) (listed w_params (tabs w_list_db)))"
    and "set (concat (map pg_prefixes pages)) =
      {cp. \<exists>r \<in> set (listed w_params (tabs w_list_db)). rolled [] ''/'' (o_key r) = Some cp}"
    using listing_complete [of w_list_db w_params 6]
    by (auto simp: rows w_params_simps) (auto simp: w_list_db_def)
  moreover have "rolled [] ''/'' ''a'' = None" "rolled [] ''/'' ''z'' = None"
      "rolled [] ''/'' ''a/1'' = Some ''a/''" "rolled [] ''/'' ''a/2'' = Some ''a/''"
      "rolled [] ''/'' ''b/1'' = Some ''b/''"
    by (simp_all add: rolled_def)
  ultimately show ?thesis unfolding rows by (intro exI [of _ pages]) (auto simp: w_row_def)
qed

end
