(* ===== verification/HedgedRead.thy ===== *)
theory HedgedRead
  imports BackendProps
begin

text \<open>
  \<^verbatim>\<open>DownloadRangeBytes\<close> of \<^verbatim>\<open>internal/storage/freehost/backend.go\<close>: the hedged read of one window. The
  caller's \<^verbatim>\<open>select\<close> loop, the read goroutines and the hedge timer are one state with an
  interleaving step relation. A goroutine may report at any time whatever a read of its replica
  can answer, in any of the states of the world during the call.
\<close>

section \<open>State and operations\<close>

record hr =
  hr_cands :: "replica list"
  hr_next :: nat
  hr_inflight :: nat
  hr_running :: "replica list"
  hr_chan :: "(replica \<times> (goerr + bytes)) list"
  hr_armed :: bool
  hr_lastErr :: "goerr option"
  hr_result :: "(goerr + bytes) option"
  hr_log :: "(replica \<times> goerr) list"

text \<open>The channel carries the replica with its answer; \<^verbatim>\<open>res.name\<close> is that replica's provider.\<close>

definition hr_launch :: "hr \<Rightarrow> hr" where
  "hr_launch s = s\<lparr>hr_running := hr_running s @ [hr_cands s ! hr_next s],
     hr_next := hr_next s + 1, hr_inflight := hr_inflight s + 1\<rparr>"

definition armHedge :: "int \<Rightarrow> hr \<Rightarrow> hr" where
  "armHedge hedgeDelay s = s\<lparr>hr_armed := (hr_next s < length (hr_cands s) \<and> hedgeDelay > 0)\<rparr>"

definition DownloadRangeBytes_start :: "int \<Rightarrow> pool \<Rightarrow> chunk_ref \<Rightarrow> goerr + hr" where
  "DownloadRangeBytes_start hedgeDelay p ref =
     (let cands = filter (\<lambda>rep. pool_get p (rp_provider rep) \<noteq> None) (cr_replicas ref) in
      if cands = [] then Inl (ErrMsg ''freehost: chunk has no enabled replicas'')
      else Inr (armHedge hedgeDelay (hr_launch \<lparr>hr_cands = cands, hr_next = 0, hr_inflight = 0,
        hr_running = [], hr_chan = [], hr_armed = False, hr_lastErr = None, hr_result = None,
        hr_log = []\<rparr>)))"

definition hr_hedge :: "int \<Rightarrow> hr \<Rightarrow> hr" where
  "hr_hedge hedgeDelay s =
     armHedge hedgeDelay (if hr_next s < length (hr_cands s) then hr_launch s else s)"

definition hr_receive :: "int \<Rightarrow> replica \<times> (goerr + bytes) \<Rightarrow> hr \<Rightarrow> hr" where
  "hr_receive hedgeDelay r s =
     (let s = s\<lparr>hr_inflight := hr_inflight s - 1\<rparr> in
      case snd r of
        Inr buf \<Rightarrow> s\<lparr>hr_result := Some (Inr buf)\<rparr>
      | Inl e \<Rightarrow>
          let s = s\<lparr>hr_lastErr := Some e, hr_log := hr_log s @ [(fst r, e)]\<rparr> in
          if hr_next s < length (hr_cands s) then armHedge hedgeDelay (hr_launch s) else s)"

definition hr_exhausted :: "hr \<Rightarrow> hr" where
  "hr_exhausted s = s\<lparr>hr_result := Some (Inl (ErrWrap ''freehost: all replicas failed''
     (case hr_lastErr s of None \<Rightarrow> ErrMsg ''freehost: chunk has no replicas'' | Some e \<Rightarrow> e)))\<rparr>"

definition answers :: "'w hosts \<Rightarrow> ('w \<Rightarrow> bool) \<Rightarrow> int \<Rightarrow> int \<Rightarrow> replica \<Rightarrow> goerr + bytes \<Rightarrow> bool" where
  "answers H W off len rep res \<longleftrightarrow>
     (\<exists>w. W w \<and> fst (readReplicaBytes H (rp_provider rep) (rp_locator rep) off len w) = res)"

inductive hr_step :: "(replica \<Rightarrow> goerr + bytes \<Rightarrow> bool) \<Rightarrow> int \<Rightarrow> hr \<Rightarrow> hr \<Rightarrow> bool" for ans hedgeDelay where
  reported:
    "hr_running s = xs @ rep # ys \<Longrightarrow> ans rep res \<Longrightarrow> length (hr_chan s) < length (hr_cands s) \<Longrightarrow>
     hr_step ans hedgeDelay s (s\<lparr>hr_running := xs @ ys, hr_chan := hr_chan s @ [(rep, res)]\<rparr>)"
| hedged:
    "hr_result s = None \<Longrightarrow> 0 < hr_inflight s \<Longrightarrow> hr_armed s \<Longrightarrow>
     hr_step ans hedgeDelay s (hr_hedge hedgeDelay s)"
| cancelled:
    "hr_result s = None \<Longrightarrow> 0 < hr_inflight s \<Longrightarrow>
     hr_step ans hedgeDelay s (s\<lparr>hr_result := Some (Inl ErrCtx)\<rparr>)"
| received:
    "hr_result s = None \<Longrightarrow> 0 < hr_inflight s \<Longrightarrow> hr_chan s = r # rest \<Longrightarrow>
     hr_step ans hedgeDelay s (hr_receive hedgeDelay r (s\<lparr>hr_chan := rest\<rparr>))"
| exhausted:
    "hr_result s = None \<Longrightarrow> hr_inflight s = 0 \<Longrightarrow> hr_step ans hedgeDelay s (hr_exhausted s)"

abbreviation hr_reach :: "(replica \<Rightarrow> goerr + bytes \<Rightarrow> bool) \<Rightarrow> int \<Rightarrow> hr \<Rightarrow> hr \<Rightarrow> bool" where
  "hr_reach ans hedgeDelay \<equiv> (hr_step ans hedgeDelay)\<^sup>*\<^sup>*"

section \<open>The invariant\<close>

text \<open>
  Every replica launched is running, reported or logged as failed; no replica is launched twice.
  The replica whose answer was returned is the one that is in none of the three.
\<close>

definition hr_inv :: "(replica \<Rightarrow> goerr + bytes \<Rightarrow> bool) \<Rightarrow> hr \<Rightarrow> bool" where
  "hr_inv ans s \<longleftrightarrow>
     hr_next s \<le> length (hr_cands s) \<and>
     length (hr_running s) + length (hr_chan s) + length (hr_log s) \<le> hr_next s \<and>
     (\<forall>(rep, res) \<in> set (hr_chan s). rep \<in> set (hr_cands s) \<and> ans rep res) \<and>
     set (hr_running s) \<subseteq> set (hr_cands s) \<and>
     (\<forall>(rep, e) \<in> set (hr_log s). ans rep (Inl e)) \<and>
     (case hr_result s of
        None \<Rightarrow> hr_inflight s = length (hr_running s) + length (hr_chan s) \<and>
          mset (hr_running s) + mset (map fst (hr_chan s)) + mset (map fst (hr_log s)) =
            mset (take (hr_next s) (hr_cands s)) \<and>
          (hr_inflight s = 0 \<longrightarrow> hr_next s = length (hr_cands s))
      | Some (Inr buf) \<Rightarrow> (\<exists>rep \<in> set (hr_cands s). ans rep (Inr buf))
      | Some (Inl e) \<Rightarrow> e = ErrCtx \<or> mset (map fst (hr_log s)) = mset (hr_cands s))"

lemma hr_inv_launch:
  assumes "hr_inv ans s" and "hr_result s = None" and "hr_next s < length (hr_cands s)"
  shows "hr_inv ans (hr_launch s)"
  using assms by (auto simp: hr_inv_def hr_launch_def take_Suc_conv_app_nth)

lemma hr_inv_arm [simp]: "hr_inv ans (armHedge h s) = hr_inv ans s"
  by (simp add: hr_inv_def armHedge_def split: option.splits sum.splits)

text \<open>An answer is taken off the channel; on an error the next replica is launched, if any.\<close>

lemma hr_inv_receive:
  assumes "hr_inv ans s" and "hr_result s = None" and "hr_chan s = (rep, res) # rest"
  shows "hr_inv ans (hr_receive h (rep, res) (s\<lparr>hr_chan := rest\<rparr>))"
proof (cases res)
  case (Inr buf)
  with assms show ?thesis by (auto simp: hr_inv_def hr_receive_def Let_def)
next
  case (Inl e)
  let ?s = "s\<lparr>hr_chan := rest, hr_inflight := hr_inflight s - 1, hr_lastErr := Some e,
    hr_log := hr_log s @ [(rep, e)]\<rparr>"
  show ?thesis
  proof (cases "hr_next s < length (hr_cands s)")
    case True
    have "hr_inv ans (hr_launch ?s)"
      using assms Inl True by (auto simp: hr_inv_def hr_launch_def take_Suc_conv_app_nth add.assoc)
    with Inl True show ?thesis by (simp add: hr_receive_def Let_def)
  next
    case False
    with assms Inl have "hr_inv ans ?s" by (auto simp: hr_inv_def)
    with Inl False show ?thesis by (simp add: hr_receive_def Let_def)
  qed
qed

lemma hr_inv_step:
  assumes "hr_step ans h s s'" and "hr_inv ans s"
  shows "hr_inv ans s'"
  using assms(1)
proof cases
  case (reported xs rep ys res)
  with assms(2) show ?thesis by (auto simp: hr_inv_def split: option.splits sum.splits)
next
  case hedged
  with assms(2) show ?thesis by (auto simp: hr_hedge_def intro: hr_inv_launch)
next
  case (received r rest)
  then show ?thesis using hr_inv_receive [OF assms(2)] by (cases r) simp
next
  case exhausted
  with assms(2) show ?thesis by (auto simp: hr_inv_def hr_exhausted_def)
qed (use assms(2) in \<open>auto simp: hr_inv_def\<close>)

lemma hr_inv_start:
  assumes "DownloadRangeBytes_start h p ref = Inr s"
  shows "hr_inv ans s" and "hr_cands s = filter (\<lambda>rep. pool_get p (rp_provider rep) \<noteq> None) (cr_replicas ref)"
proof -
  define cands where "cands = filter (\<lambda>rep. pool_get p (rp_provider rep) \<noteq> None) (cr_replicas ref)"
  have ne: "cands \<noteq> []" and s: "s = armHedge h (hr_launch \<lparr>hr_cands = cands, hr_next = 0, hr_inflight = 0,
      hr_running = [], hr_chan = [], hr_armed = False, hr_lastErr = None, hr_result = None, hr_log = []\<rparr>)"
    using assms unfolding DownloadRangeBytes_start_def Let_def cands_def [symmetric] by (auto split: if_splits)
  then show "hr_inv ans s"
    unfolding s hr_inv_arm by (auto simp: hr_inv_def hr_launch_def Suc_le_eq take_Suc_conv_app_nth)
  show "hr_cands s = filter (\<lambda>rep. pool_get p (rp_provider rep) \<noteq> None) (cr_replicas ref)"
    by (simp add: s hr_launch_def armHedge_def cands_def)
qed

lemma hr_step_cands: "hr_step ans h s s' \<Longrightarrow> hr_cands s' = hr_cands s"
  by (induction rule: hr_step.induct)
     (auto simp: hr_hedge_def hr_receive_def hr_exhausted_def hr_launch_def armHedge_def Let_def split: sum.splits)

lemma hr_reach_inv:
  assumes "DownloadRangeBytes_start h p ref = Inr s0" and "hr_reach ans h s0 s"
  shows "hr_inv ans s \<and> hr_cands s = filter (\<lambda>rep. pool_get p (rp_provider rep) \<noteq> None) (cr_replicas ref)"
  using assms(2)
proof (induction rule: rtranclp_induct)
  case base
  show ?case using hr_inv_start [OF assms(1)] by blast
next
  case (step y z)
  then show ?case using hr_inv_step hr_step_cands by metis
qed

section \<open>Progress and termination\<close>

definition hr_measure :: "hr \<Rightarrow> nat" where
  "hr_measure s = 4 * (length (hr_cands s) - hr_next s) + 2 * length (hr_running s) + length (hr_chan s) +
     (if hr_armed s then 1 else 0) + (if hr_result s = None then 1 else 0)"

lemma hr_step_decreases: "hr_step ans h s s' \<Longrightarrow> hr_measure s' < hr_measure s"
proof (induction rule: hr_step.induct)
  case (received s r rest)
  then show ?case
    by (auto simp: hr_measure_def hr_receive_def hr_launch_def armHedge_def Let_def split: sum.splits)
qed (auto simp: hr_measure_def hr_hedge_def hr_launch_def armHedge_def hr_exhausted_def)

lemma hr_progress:
  assumes "hr_inv ans s" and "\<And>rep. rep \<in> set (hr_cands s) \<Longrightarrow> \<exists>res. ans rep res" and "hr_result s = None"
  shows "\<exists>s'. hr_step ans h s s' \<and> hr_result s' \<noteq> Some (Inl ErrCtx)"
proof -
  consider (none) "hr_inflight s = 0" | (chan) r rest where "0 < hr_inflight s" "hr_chan s = r # rest"
    | (run) rep reps where "hr_chan s = []" "hr_running s = [] @ rep # reps"
    using assms(1,3) by (cases "hr_chan s"; cases "hr_running s") (auto simp: hr_inv_def)
  then show ?thesis
  proof cases
    case none
    from hr_step.exhausted [OF assms(3) none] show ?thesis
      by (intro exI [of _ "hr_exhausted s"]) (simp add: hr_exhausted_def)
  next
    case chan
    have "hr_result (hr_receive h r (s\<lparr>hr_chan := rest\<rparr>)) \<noteq> Some (Inl ErrCtx)"
      using assms(3) by (auto simp: hr_receive_def hr_launch_def armHedge_def Let_def split: sum.splits)
    with hr_step.received [OF assms(3) chan] show ?thesis by blast
  next
    case run
    have mem: "rep \<in> set (hr_cands s)" and len: "length (hr_chan s) < length (hr_cands s)"
      using assms(1) run by (auto simp: hr_inv_def)
    from assms(2) [OF mem] obtain res where "ans rep res" by blast
    from hr_step.reported [where ans = ans, OF run(2) this len, of h] assms(3) show ?thesis by force
  qed
qed

section \<open>What an honest read answers\<close>

lemma answers_honest:
  assumes "honest H blob" and "answers H W off len rep (Inr buf)"
  shows "\<exists>w data. W w \<and> holds blob w data rep \<and> buf = range_of off len data"
proof -
  obtain w where w: "W w" "fst (readReplicaBytes H (rp_provider rep) (rp_locator rep) off len w) = Inr buf"
    using assms(2) by (auto simp: answers_def)
  obtain d w' where d: "h_download H (rp_provider rep) (rp_locator rep) off len w = (d, w')" by (metis surj_pair)
  obtain bs e where rc: "d = Inr (bs, e)"
    using w(2) d by (cases d) (auto simp: readReplicaBytes_def bindE_def)
  obtain data where data: "holds blob w data rep" "prefix bs (range_of off len data)"
    "e = None \<longrightarrow> bs = range_of off len data"
    using honest_download(2) [OF assms(1) d rc] by blast
  have "buf = range_of off len data"
  proof (cases "len > 0 \<and> len \<le> int (length bs)")
    case True
    then have "buf = take (nat len) bs"
      using w(2) d rc by (simp add: readReplicaBytes_def bindE_def limit_reader_def ReadAll_def)
    moreover have "length (range_of off len data) \<le> nat len" using True by (simp add: range_of_def)
    then have "bs = range_of off len data"
      using data(2) True by (metis nat_le_iff order.trans prefix_length_le prefix_length_prefix prefix_order.antisym
          nat_int_comparison(3) prefix_order.refl)
    moreover have "take (nat len) (range_of off len data) = range_of off len data"
      using True by (simp add: range_of_def)
    ultimately show ?thesis by simp
  next
    case False
    then have "ReadAll (bs, e) = Inr buf"
      using w(2) d rc by (auto simp: readReplicaBytes_def bindE_def limit_reader_def split: if_splits)
    then show ?thesis using data(3) by (cases e) (auto simp: ReadAll_def)
  qed
  with w(1) data(1) show ?thesis by blast
qed

text \<open>Concrete runs for the witnesses: the first replica is gone, the second one answers.\<close>

definition w_ans :: "int \<Rightarrow> int \<Rightarrow> replica \<Rightarrow> goerr + bytes \<Rightarrow> bool" where
  "w_ans = answers mem_hosts (\<lambda>w. w = bs_world w_state)"

definition w_read :: "replica \<Rightarrow> int \<Rightarrow> int \<Rightarrow> goerr + bytes" where
  "w_read rep off len = fst (readReplicaBytes mem_hosts (rp_provider rep) (rp_locator rep) off len (bs_world w_state))"

lemma w_ans_read: "w_ans off len rep (w_read rep off len)"
  by (simp add: w_ans_def answers_def w_read_def)

definition w_report :: "int \<Rightarrow> int \<Rightarrow> hr \<Rightarrow> hr" where
  "w_report off len s = s\<lparr>hr_running := tl (hr_running s),
     hr_chan := hr_chan s @ [(hd (hr_running s), w_read (hd (hr_running s)) off len)]\<rparr>"

definition w_receive :: "hr \<Rightarrow> hr" where
  "w_receive s = hr_receive 0 (hd (hr_chan s)) (s\<lparr>hr_chan := tl (hr_chan s)\<rparr>)"

lemma w_report_receive:
  assumes "hr_running s \<noteq> []" and "length (hr_chan s) < length (hr_cands s)"
    and "hr_result s = None" and "0 < hr_inflight s"
  shows "hr_reach (w_ans off len) 0 s (w_receive (w_report off len s))"
proof -
  have "hr_running s = [] @ hd (hr_running s) # tl (hr_running s)" using assms(1) by simp
  from reported [where ans = "w_ans off len", OF this w_ans_read assms(2), of 0]
  have "hr_step (w_ans off len) 0 s (w_report off len s)" by (simp add: w_report_def)
  moreover have "hr_step (w_ans off len) 0 (w_report off len s) (w_receive (w_report off len s))"
    unfolding w_receive_def by (rule received) (use assms in \<open>auto simp: w_report_def\<close>)
  ultimately show ?thesis by (rule converse_rtranclp_into_rtranclp [OF _ r_into_rtranclp])
qed

definition w_h0 :: "chunk_ref \<Rightarrow> hr" where
  "w_h0 ref = projr (DownloadRangeBytes_start 0 w_pool ref)"

lemma w_h0_start: "DownloadRangeBytes_start 0 w_pool w_ref = Inr (w_h0 w_ref)" by code_simp

definition w_h1 :: hr where
  "w_h1 = w_receive (w_report 1 2 (w_h0 w_ref))"

lemma w_h1_reach: "hr_reach (w_ans 1 2) 0 (w_h0 w_ref) w_h1"
  unfolding w_h1_def by (rule w_report_receive) code_simp+

definition w_h2 :: hr where
  "w_h2 = w_receive (w_report 1 2 w_h1)"

lemma w_h2_reach: "hr_reach (w_ans 1 2) 0 (w_h0 w_ref) w_h2"
proof -
  have "hr_reach (w_ans 1 2) 0 w_h1 w_h2" unfolding w_h2_def by (rule w_report_receive) code_simp+
  with w_h1_reach show ?thesis by (rule rtranclp_trans)
qed

definition w_lost :: chunk_ref where
  "w_lost = \<lparr>cr_size = 4, cr_replicas = [w_rep ''t'' ''gone'']\<rparr>"

lemma w_lost_start: "DownloadRangeBytes_start 0 w_pool w_lost = Inr (w_h0 w_lost)" by code_simp

definition w_h3 :: hr where
  "w_h3 = hr_exhausted (w_receive (w_report 1 2 (w_h0 w_lost)))"

lemma w_h3_reach: "hr_reach (w_ans 1 2) 0 (w_h0 w_lost) w_h3"
proof -
  have "hr_reach (w_ans 1 2) 0 (w_h0 w_lost) (w_receive (w_report 1 2 (w_h0 w_lost)))"
    by (rule w_report_receive) code_simp+
  moreover have "hr_step (w_ans 1 2) 0 (w_receive (w_report 1 2 (w_h0 w_lost))) w_h3"
    unfolding w_h3_def by (rule exhausted) code_simp+
  ultimately show ?thesis by (rule rtranclp.rtrancl_into_rtrancl)
qed

section \<open>Properties\<close>

text \<open>
  C15 (safety). A hedged read that returns bytes returns exactly the requested window of the
  chunk, whichever replica won the race and whatever the others did, when the hosts are honest and
  no replica of the chunk holds anything but the chunk's data during the call.
\<close>

theorem hedged_read_exact:
  assumes "DownloadRangeBytes_start h p ref = Inr s0" and "hr_reach (answers H W off len) h s0 s"
    and "honest H blob"
    and "\<forall>w. W w \<longrightarrow> (\<forall>rep \<in> set (cr_replicas ref). blob w (rp_provider rep) (rp_locator rep) \<in> {None, Some data})"
    and "hr_result s = Some (Inr buf)"
  shows "buf = range_of off len data"
proof -
  have "hr_inv (answers H W off len) s" and c: "set (hr_cands s) \<subseteq> set (cr_replicas ref)"
    using hr_reach_inv [OF assms(1,2)] by auto
  then obtain rep where rep: "rep \<in> set (cr_replicas ref)" "answers H W off len rep (Inr buf)"
    using assms(5) by (auto simp: hr_inv_def)
  obtain w data' where "W w" "holds blob w data' rep" "buf = range_of off len data'"
    using answers_honest [OF assms(3) rep(2)] by blast
  with assms(4) rep(1) show ?thesis by fastforce
qed

theorem hedged_read_exact_witness: "hr_result w_h2 = Some (Inr ''at'') \<and> ''at'' = range_of 1 2 ''data''"
proof -
  have r: "hr_result w_h2 = Some (Inr ''at'')" by code_simp
  have "\<forall>w. w = bs_world w_state \<longrightarrow> (\<forall>rep \<in> set (cr_replicas w_ref).
      mem_blob w (rp_provider rep) (rp_locator rep) \<in> {None, Some ''data''})"
    by (simp add: w_ref_def w_rep_def w_state_def mem_blob_def)
  from hedged_read_exact [OF w_h0_start w_h2_reach [unfolded w_ans_def] mem_honest this r] r
  show ?thesis by simp
qed

text \<open>
  C23 (error). Apart from cancellation, a hedged read fails only after every enabled replica of
  the chunk was read, once, and answered with an error.
\<close>

theorem hedged_read_fails_last:
  assumes "DownloadRangeBytes_start h p ref = Inr s0" and "hr_reach ans h s0 s"
    and "hr_result s = Some (Inl e)" and "e \<noteq> ErrCtx"
  shows "mset (map fst (hr_log s)) = mset (filter (\<lambda>rep. pool_get p (rp_provider rep) \<noteq> None) (cr_replicas ref)) \<and>
    (\<forall>(rep, err) \<in> set (hr_log s). ans rep (Inl err))"
  using hr_reach_inv [OF assms(1,2)] assms(3,4) by (auto simp: hr_inv_def)

theorem hedged_read_fails_last_witness: "mset (map fst (hr_log w_h3)) = {#w_rep ''t'' ''gone''#}"
proof -
  have r: "hr_result w_h3 = Some (Inl (ErrWrap ''freehost: all replicas failed'' (ErrMsg ''404'')))" by code_simp
  have "mset (map fst (hr_log w_h3)) =
      mset (filter (\<lambda>rep. pool_get w_pool (rp_provider rep) \<noteq> None) (cr_replicas w_lost))"
    using hedged_read_fails_last [OF w_lost_start w_h3_reach r] by blast
  also have "filter (\<lambda>rep. pool_get w_pool (rp_provider rep) \<noteq> None) (cr_replicas w_lost) = [w_rep ''t'' ''gone'']"
    by code_simp
  finally show ?thesis by simp
qed

text \<open>
  C24 (termination). The hedged read ends: every step decreases a measure, and as long as it has
  no result it has a step other than a cancellation, given that every replica read answers
  eventually something.
\<close>

theorem hedged_read_terminates:
  assumes "DownloadRangeBytes_start h p ref = Inr s0" and "hr_reach ans h s0 s"
    and "\<forall>rep \<in> set (cr_replicas ref). \<exists>res. ans rep res"
  shows "(\<forall>s'. hr_step ans h s s' \<longrightarrow> hr_measure s' < hr_measure s) \<and>
    (hr_result s = None \<longrightarrow> (\<exists>s'. hr_step ans h s s' \<and> hr_result s' \<noteq> Some (Inl ErrCtx)))"
proof -
  have inv: "hr_inv ans s" and c: "set (hr_cands s) \<subseteq> set (cr_replicas ref)"
    using hr_reach_inv [OF assms(1,2)] by auto
  have "\<exists>res. ans rep res" if "rep \<in> set (hr_cands s)" for rep using assms(3) c that by blast
  then show ?thesis using hr_step_decreases hr_progress [OF inv] by blast
qed

theorem hedged_read_terminates_witness:
  "\<exists>s'. hr_step (w_ans 1 2) 0 w_h1 s' \<and> hr_result s' \<noteq> Some (Inl ErrCtx)"
proof -
  have "hr_result w_h1 = None" by code_simp
  moreover have "\<forall>rep \<in> set (cr_replicas w_ref). \<exists>res. w_ans 1 2 rep res" using w_ans_read by blast
  ultimately show ?thesis using hedged_read_terminates [OF w_h0_start w_h1_reach] by blast
qed

end
