(* ===== verification/ChunkSource.thy ===== *)
theory ChunkSource
  imports HedgedRead
begin

text \<open>
  \<^verbatim>\<open>internal/reader/chunk_source.go\<close>: object-space reads over the stored chunks. The range read of one
  chunk is the parameter \<open>fetch\<close>, the outcome of \<open>DownloadRangeBytes\<close> (or of \<open>DownloadRange\<close> copied
  through a limit reader, the branch for backends without the first).
\<close>

section \<open>Operations\<close>

record chunk_loc =
  cl_ref :: chunk_ref
  cl_offset :: int
  cl_size :: int

record backend_source =
  so_objSize :: int
  so_locs :: "chunk_loc list"
  so_chunkSize :: int

function halve_loop :: "int \<Rightarrow> int \<Rightarrow> int" where
  "halve_loop cs span =
     (if cs > 65536 \<and> cs > span * 2 \<and> span > 0 then halve_loop (cs div 2) span else cs)"
  by auto
termination by (relation "measure (\<lambda>(cs, span). nat cs)") auto

declare halve_loop.simps [simp del]

definition ChunkSize :: "backend_source \<Rightarrow> int \<Rightarrow> int \<Rightarrow> int" where
  "ChunkSize src start en =
     (let cs = (if so_chunkSize src \<le> 0 then 2 ^ 22 else so_chunkSize src)
      in halve_loop cs (en - start))"

text \<open>\<^verbatim>\<open>sort.Search\<close>: binary search for the smallest index at which the predicate holds.\<close>

function search_loop :: "(nat \<Rightarrow> bool) \<Rightarrow> nat \<Rightarrow> nat \<Rightarrow> nat" where
  "search_loop f i j =
     (if i < j then
        let h = (i + j) div 2 in
        if \<not> f h then search_loop f (h + 1) j else search_loop f i h
      else i)"
  by auto
termination by (relation "measure (\<lambda>(f, i, j). j - i)") auto

declare search_loop.simps [simp del]

definition sort_Search :: "nat \<Rightarrow> (nat \<Rightarrow> bool) \<Rightarrow> nat" where
  "sort_Search n f = search_loop f 0 n"

definition locate :: "backend_source \<Rightarrow> int \<Rightarrow> (chunk_loc \<times> int) option" where
  "locate src offset =
     (let k = sort_Search (length (so_locs src)) (\<lambda>i. cl_offset (so_locs src ! i) > offset) in
      if k = 0 then None
      else
        let loc = so_locs src ! (k - 1) in
        if offset \<ge> cl_offset loc + cl_size loc then None
        else Some (loc, offset - cl_offset loc))"

lemma locate_inside:
  "locate src offset = Some (loc, lo) \<Longrightarrow> lo = offset - cl_offset loc \<and> offset < cl_offset loc + cl_size loc"
  by (auto simp: locate_def Let_def split: if_splits)

function chunk_loop :: "(chunk_ref \<Rightarrow> int \<Rightarrow> int \<Rightarrow> goerr + bytes) \<Rightarrow> backend_source \<Rightarrow> int \<Rightarrow> int \<Rightarrow> bytes \<Rightarrow>
    goerr + bytes" where
  "chunk_loop fetch src en cur out =
     (if cur < en then
        (case locate src cur of
           None \<Rightarrow> Inl (ErrMsg ''reader: offset outside chunk map'')
         | Some (loc, localOff) \<Rightarrow>
             let readEnd = (if cl_offset loc + cl_size loc > en then en else cl_offset loc + cl_size loc);
                 want = readEnd - cur
             in (case fetch (cl_ref loc) localOff want of
                   Inl e \<Rightarrow> Inl e
                 | Inr buf \<Rightarrow>
                     let n = int (length buf) in
                     if n = 0 \<or> n < want then Inr (out @ buf)
                     else chunk_loop fetch src en (cur + n) (out @ buf)))
      else Inr out)"
  by auto
termination
  by (relation "measure (\<lambda>(fetch, src, en, cur, out). nat (en - cur))") (auto simp: Let_def)

declare chunk_loop.simps [simp del]

definition Chunk :: "(chunk_ref \<Rightarrow> int \<Rightarrow> int \<Rightarrow> goerr + bytes) \<Rightarrow> backend_source \<Rightarrow> int \<Rightarrow> int \<Rightarrow> goerr + bytes" where
  "Chunk fetch src offset limit =
     (if offset \<ge> so_objSize src then Inr []
      else
        let en = (if offset + limit > so_objSize src then so_objSize src else offset + limit)
        in chunk_loop fetch src en offset [])"

section \<open>Binary search\<close>

lemma search_loop_spec:
  assumes mono: "\<And>k l. k \<le> l \<Longrightarrow> l < n \<Longrightarrow> f k \<Longrightarrow> f l"
    and "i \<le> j" and "j \<le> n" and "\<And>k. k < i \<Longrightarrow> \<not> f k" and "\<And>k. j \<le> k \<Longrightarrow> k < n \<Longrightarrow> f k"
  shows "search_loop f i j \<le> n \<and> (\<forall>k < search_loop f i j. \<not> f k) \<and> (\<forall>k. search_loop f i j \<le> k \<longrightarrow> k < n \<longrightarrow> f k)"
  using assms(2-)
proof (induction "j - i" arbitrary: i j rule: less_induct)
  case less
  let ?h = "(i + j) div 2"
  show ?case
  proof (cases "i < j")
    case True
    then have h: "i \<le> ?h" "?h < j" by auto
    show ?thesis
    proof (cases "f ?h")
      case False
      have "\<not> f k" if "k < ?h + 1" for k
        using mono [of k ?h] False that h less.prems(2) by auto
      with less.hyps [of j "?h + 1"] h less.prems
      have "search_loop f (?h + 1) j \<le> n \<and> (\<forall>k < search_loop f (?h + 1) j. \<not> f k) \<and>
          (\<forall>k. search_loop f (?h + 1) j \<le> k \<longrightarrow> k < n \<longrightarrow> f k)" by auto
      moreover have "search_loop f i j = search_loop f (?h + 1) j"
        using True False by (subst search_loop.simps) (simp add: Let_def)
      ultimately show ?thesis by simp
    next
      case fh: True
      have "f k" if "?h \<le> k" "k < n" for k using mono [of ?h k] fh that by auto
      with less.hyps [of ?h i] h less.prems
      have "search_loop f i ?h \<le> n \<and> (\<forall>k < search_loop f i ?h. \<not> f k) \<and>
          (\<forall>k. search_loop f i ?h \<le> k \<longrightarrow> k < n \<longrightarrow> f k)" by auto
      moreover have "search_loop f i j = search_loop f i ?h"
        using True fh by (subst search_loop.simps) (simp add: Let_def)
      ultimately show ?thesis by simp
    qed
  next
    case False
    then have "search_loop f i j = i" by (subst search_loop.simps) simp
    with False less.prems show ?thesis by auto
  qed
qed

lemma sort_Search_spec:
  assumes "\<And>k l. k \<le> l \<Longrightarrow> l < n \<Longrightarrow> f k \<Longrightarrow> f l"
  shows "sort_Search n f \<le> n" and "k < sort_Search n f \<Longrightarrow> \<not> f k"
    and "sort_Search n f \<le> k \<Longrightarrow> k < n \<Longrightarrow> f k"
  using search_loop_spec [of n f 0 n] assms by (auto simp: sort_Search_def)

section \<open>Chunks that tile the object\<close>

fun tiles :: "int \<Rightarrow> chunk_loc list \<Rightarrow> bool" where
  "tiles off [] = True"
| "tiles off (l # ls) = (cl_offset l = off \<and> 0 < cl_size l \<and> tiles (off + cl_size l) ls)"

definition span_of :: "chunk_loc list \<Rightarrow> int" where
  "span_of ls = sum_list (map cl_size ls)"

lemma span_of_simps [simp]:
  "span_of [] = 0" "span_of (l # ls) = cl_size l + span_of ls" "span_of (ls @ ls') = span_of ls + span_of ls'"
  by (simp_all add: span_of_def)

lemma tiles_append: "tiles off (ls @ ls') \<longleftrightarrow> tiles off ls \<and> tiles (off + span_of ls) ls'"
  by (induction ls arbitrary: off) (auto simp: add.assoc)

lemma tiles_span: "tiles off ls \<Longrightarrow> 0 \<le> span_of ls"
  by (induction ls arbitrary: off) force+

lemma tiles_nth:
  assumes "tiles off ls" and "i < length ls"
  shows "cl_offset (ls ! i) = off + span_of (take i ls)" and "0 < cl_size (ls ! i)"
proof -
  have "tiles off (take i ls @ ls ! i # drop (Suc i) ls)" using assms by (simp add: id_take_nth_drop [symmetric])
  then show "cl_offset (ls ! i) = off + span_of (take i ls)" and "0 < cl_size (ls ! i)"
    by (simp_all add: tiles_append)
qed

lemma span_of_take_mono:
  assumes "tiles off ls" and "i \<le> j"
  shows "span_of (take i ls) \<le> span_of (take j ls)"
proof -
  have split: "take j ls = take i ls @ take (j - i) (drop i ls)"
    using assms(2) by (metis le_add_diff_inverse take_add)
  have "tiles off (take j ls @ drop j ls)" using assms(1) by simp
  then have "tiles (off + span_of (take i ls)) (take (j - i) (drop i ls))"
    unfolding split by (simp add: tiles_append)
  then show ?thesis using split tiles_span by auto
qed

lemma locate_tiles:
  assumes "tiles 0 (so_locs src)" and "0 \<le> x" and "x < span_of (so_locs src)"
  obtains i where "i < length (so_locs src)" and "locate src x = Some (so_locs src ! i, x - cl_offset (so_locs src ! i))"
    and "cl_offset (so_locs src ! i) \<le> x" and "x < cl_offset (so_locs src ! i) + cl_size (so_locs src ! i)"
proof -
  let ?ls = "so_locs src"
  let ?f = "\<lambda>i. cl_offset (?ls ! i) > x"
  let ?k = "sort_Search (length ?ls) ?f"
  have mono: "?f l" if "k \<le> l" "l < length ?ls" "?f k" for k l
    using span_of_take_mono [OF assms(1) that(1)] tiles_nth(1) [OF assms(1)] that by simp
  have sp1: "?k \<le> length ?ls" and sp2: "\<And>m. m < ?k \<Longrightarrow> \<not> ?f m"
    and sp3: "\<And>m. ?k \<le> m \<Longrightarrow> m < length ?ls \<Longrightarrow> ?f m"
    using sort_Search_spec [of "length ?ls" ?f] mono by blast+
  have len: "0 < length ?ls" using assms(2,3) by (cases ?ls) auto
  have k0: "?k \<noteq> 0"
  proof
    assume "?k = 0"
    then have "?f 0" using sp3 [of 0] len by simp
    then show False using tiles_nth(1) [OF assms(1) len] assms(2) by simp
  qed
  define i where "i = ?k - 1"
  have i: "i < length ?ls" "\<not> ?f i" using sp1 sp2 [of i] k0 by (auto simp: i_def)
  have suc: "span_of (take (Suc i) ?ls) = span_of (take i ?ls) + cl_size (?ls ! i)"
    using i(1) by (simp add: take_Suc_conv_app_nth)
  have up: "x < cl_offset (?ls ! i) + cl_size (?ls ! i)"
  proof (cases "?k < length ?ls")
    case True
    have "Suc i = ?k" using k0 by (simp add: i_def)
    then have "?f (Suc i)" using sp3 [of ?k] True by simp
    then show ?thesis
      using tiles_nth(1) [OF assms(1), of "Suc i"] tiles_nth(1) [OF assms(1) i(1)] suc True \<open>Suc i = ?k\<close> by simp
  next
    case False
    then have "take (Suc i) ?ls = ?ls" using sp1 k0 by (simp add: i_def)
    then show ?thesis using tiles_nth(1) [OF assms(1) i(1)] suc assms(3) by simp
  qed
  have "locate src x = Some (?ls ! i, x - cl_offset (?ls ! i))"
    using k0 up by (simp add: locate_def Let_def i_def)
  with that i up show ?thesis by (auto simp: not_less)
qed

section \<open>Reading across chunks\<close>

definition object_bytes :: "(chunk_ref \<Rightarrow> bytes) \<Rightarrow> chunk_loc list \<Rightarrow> bytes" where
  "object_bytes content ls = concat (map (\<lambda>l. content (cl_ref l)) ls)"

definition valid_source :: "(chunk_ref \<Rightarrow> bytes) \<Rightarrow> backend_source \<Rightarrow> bool" where
  "valid_source content src \<longleftrightarrow> tiles 0 (so_locs src) \<and> so_objSize src = span_of (so_locs src) \<and>
     (\<forall>l \<in> set (so_locs src). int (length (content (cl_ref l))) = cl_size l)"

definition exact_fetch :: "(chunk_ref \<Rightarrow> bytes) \<Rightarrow> (chunk_ref \<Rightarrow> int \<Rightarrow> int \<Rightarrow> goerr + bytes) \<Rightarrow> bool" where
  "exact_fetch content fetch \<longleftrightarrow>
     (\<forall>ref off len bs. fetch ref off len = Inr bs \<longrightarrow> bs = range_of off len (content ref))"

lemma object_bytes_length:
  assumes "\<forall>l \<in> set ls. int (length (content (cl_ref l))) = cl_size l"
  shows "int (length (object_bytes content ls)) = span_of ls"
  using assms by (induction ls) (auto simp: object_bytes_def)

lemma window_inside:
  assumes "0 \<le> a" and "a \<le> b" and "b \<le> int (length ys)"
  shows "window (int (length xs) + a) (int (length xs) + b) (xs @ ys @ zs) = window a b ys"
proof -
  have "nat (int (length xs) + a) = length xs + nat a" using assms by (simp add: nat_add_distrib)
  then have "drop (nat (int (length xs) + a)) (xs @ ys @ zs) = drop (nat a) ys @ zs"
    using assms by (simp add: nat_le_iff)
  moreover have "nat (b - a) \<le> length (drop (nat a) ys)" using assms by auto
  ultimately show ?thesis by (simp add: window_def)
qed

lemma object_window:
  assumes "valid_source content src" and "i < length (so_locs src)"
    and "cl_offset (so_locs src ! i) \<le> a" and "a \<le> b" and "b \<le> cl_offset (so_locs src ! i) + cl_size (so_locs src ! i)"
  shows "window a b (object_bytes content (so_locs src)) =
    window (a - cl_offset (so_locs src ! i)) (b - cl_offset (so_locs src ! i)) (content (cl_ref (so_locs src ! i)))"
proof -
  let ?ls = "so_locs src" and ?l = "so_locs src ! i"
  have obj: "object_bytes content ?ls = object_bytes content (take i ?ls) @ content (cl_ref ?l) @
      object_bytes content (drop (Suc i) ?ls)"
    using assms(2) by (subst id_take_nth_drop [of i ?ls]) (auto simp: object_bytes_def)
  have sz: "int (length (content (cl_ref ?l))) = cl_size ?l" using assms(1,2) by (simp add: valid_source_def)
  have "int (length (object_bytes content (take i ?ls))) = span_of (take i ?ls)"
    using assms(1) by (intro object_bytes_length) (auto simp: valid_source_def dest: in_set_takeD)
  then have len: "int (length (object_bytes content (take i ?ls))) = cl_offset ?l"
    using tiles_nth(1) [of 0 ?ls i] assms(1,2) by (simp add: valid_source_def)
  have "window (cl_offset ?l + (a - cl_offset ?l)) (cl_offset ?l + (b - cl_offset ?l)) (object_bytes content ?ls) =
      window (a - cl_offset ?l) (b - cl_offset ?l) (content (cl_ref ?l))"
    unfolding obj len [symmetric] by (rule window_inside) (use assms sz len in auto)
  then show ?thesis by simp
qed

lemma range_of_window: "0 < len \<Longrightarrow> range_of off len data = window off (off + len) data"
  by (simp add: range_of_def window_def)

lemma chunk_loop_exact:
  assumes "valid_source content src" and "exact_fetch content fetch"
    and "0 \<le> cur" and "cur \<le> en" and "en \<le> so_objSize src"
  shows "case chunk_loop fetch src en cur out of
      Inr bs \<Rightarrow> bs = out @ window cur en (object_bytes content (so_locs src))
    | Inl e \<Rightarrow> \<exists>ref off len. fetch ref off len = Inl e"
  using assms(3,4)
proof (induction "nat (en - cur)" arbitrary: cur out rule: less_induct)
  case less
  let ?ls = "so_locs src"
  show ?case
  proof (cases "cur < en")
    case False
    then show ?thesis by (subst chunk_loop.simps) simp
  next
    case True
    have "tiles 0 ?ls" "cur < span_of ?ls" using True assms(1,5) by (simp_all add: valid_source_def)
    from locate_tiles [OF this(1) less.prems(1) this(2)] obtain i where i: "i < length ?ls" "locate src cur = Some (?ls ! i, cur - cl_offset (?ls ! i))"
      "cl_offset (?ls ! i) \<le> cur" "cur < cl_offset (?ls ! i) + cl_size (?ls ! i)"
      by blast
    let ?l = "?ls ! i"
    define re where "re = (if cl_offset ?l + cl_size ?l > en then en else cl_offset ?l + cl_size ?l)"
    have re: "cur < re" "re \<le> en" "re \<le> cl_offset ?l + cl_size ?l" using i True by (auto simp: re_def)
    show ?thesis
    proof (cases "fetch (cl_ref ?l) (cur - cl_offset ?l) (re - cur)")
      case (Inl e)
      then have "chunk_loop fetch src en cur out = Inl e"
        using True i(2) by (subst chunk_loop.simps) (simp add: Let_def re_def)
      then show ?thesis using Inl by auto
    next
      case (Inr buf)
      have "buf = range_of (cur - cl_offset ?l) (re - cur) (content (cl_ref ?l))"
        using assms(2) Inr by (simp add: exact_fetch_def)
      also have "\<dots> = window (cur - cl_offset ?l) (re - cl_offset ?l) (content (cl_ref ?l))"
        using re(1) by (simp add: range_of_window)
      also have "\<dots> = window cur re (object_bytes content ?ls)"
        using object_window [OF assms(1) i(1,3) less_imp_le [OF re(1)] re(3)] by simp
      finally have buf: "buf = window cur re (object_bytes content ?ls)" .
      have "int (length (object_bytes content ?ls)) = so_objSize src"
        using assms(1) by (simp add: object_bytes_length valid_source_def)
      then have n: "int (length buf) = re - cur"
        unfolding buf using less.prems(1) re assms(5) by (intro length_window) auto
      have "chunk_loop fetch src en cur out = chunk_loop fetch src en re (out @ buf)"
        using True i(2) Inr n re(1) by (subst chunk_loop.simps) (simp add: Let_def re_def [symmetric])
      moreover have "out @ buf @ window re en (object_bytes content ?ls) = out @ window cur en (object_bytes content ?ls)"
        using window_append [of cur re en] less.prems re buf by simp
      moreover have "nat (en - re) < nat (en - cur)" using re True by simp
      ultimately show ?thesis
        using less.hyps [of re "out @ buf"] re less.prems by (auto split: sum.splits)
    qed
  qed
qed

lemma Chunk_exact:
  assumes "valid_source content src" and "exact_fetch content fetch" and "0 \<le> off" and "0 \<le> lim"
  shows "case Chunk fetch src off lim of
      Inr bs \<Rightarrow> bs = window off (off + lim) (object_bytes content (so_locs src))
    | Inl e \<Rightarrow> \<exists>ref off len. fetch ref off len = Inl e"
proof -
  let ?obj = "object_bytes content (so_locs src)"
  have len: "int (length ?obj) = so_objSize src"
    using assms(1) by (simp add: object_bytes_length valid_source_def)
  show ?thesis
  proof (cases "so_objSize src \<le> off")
    case True
    then have "window off (off + lim) ?obj = []" using len by (simp add: window_def nat_le_iff)
    with True show ?thesis by (simp add: Chunk_def)
  next
    case False
    define en where "en = (if off + lim > so_objSize src then so_objSize src else off + lim)"
    have "window off (off + lim) ?obj = window off en ?obj"
      using len False assms(3,4) by (auto simp: en_def window_def nat_le_iff)
    moreover have "Chunk fetch src off lim = chunk_loop fetch src en off []"
      using False by (simp add: Chunk_def Let_def en_def)
    moreover have "off \<le> en" "en \<le> so_objSize src" using False assms(4) by (auto simp: en_def)
    ultimately show ?thesis using chunk_loop_exact [OF assms(1,2,3), of en "[]"] by (simp split: sum.splits)
  qed
qed

lemma halve_loop_pos: "0 < cs \<Longrightarrow> 0 < halve_loop cs span"
proof (induction cs span rule: halve_loop.induct)
  case (1 cs span)
  then show ?case by (subst halve_loop.simps) auto
qed

lemma ChunkSize_pos: "0 < ChunkSize src start en"
  by (simp add: ChunkSize_def Let_def halve_loop_pos)

end
