(* ===== verification/Gateway.thy ===== *)
theory Gateway
  imports AwsChunked HttpRange SigV4 Listing Backend ChunkSource
begin

text \<open>
  The state and the shared parts of the S3 handlers, \<^verbatim>\<open>internal/s3api\<close>: the gateway's state is the
  metadata database and the backend (its provider pool and the outside world); a handler maps a request
  and a state to a response and a state. This theory has the responses, the conversions between the
  store's and the backend's chunks, the decoding of a request body, and the streaming of an object.

  A handler returns \<open>None\<close> where the code would never return, which only a body that delivers nothing
  for ever can cause. The XML encoding of a response is not modelled: the body is the value handed to
  the encoder. The clock is read once per request.
\<close>

section \<open>Environment and state\<close>

text \<open>
  \<open>ev_chunk\<close> is the outcome of \<^verbatim>\<open>uploadChunk\<close> for a file name (with or without background replicas),
  \<open>ev_read\<close> the outcome of priming the prefetch reader on a source and range and copying it out: an
  error of \<^verbatim>\<open>Prime\<close>, or the bytes delivered and the error that cut them short. The formatting and
  parsing of dates, MD5, and the decoding of the two XML request bodies are parameters too.
\<close>

record complete_part =
  cp_num :: int
  cp_etag :: string

record 'w env =
  ev_crypto :: crypto
  ev_auth :: auth_cfg
  ev_md5 :: "bytes \<Rightarrow> bytes"
  ev_parseTime :: "string \<Rightarrow> time option"
  ev_httpTime :: "time \<Rightarrow> string"
  ev_listTime :: "time \<Rightarrow> string"
  ev_rfc3339 :: "time \<Rightarrow> string"
  ev_xmlComplete :: "seg_reader \<Rightarrow> complete_part list option"
  ev_xmlDelete :: "seg_reader \<Rightarrow> (bool \<times> string list) option"
  ev_xmlEscape :: "string \<Rightarrow> string"
  ev_hosts :: "'w hosts"
  ev_bcfg :: bcfg
  ev_streamChunk :: int
  ev_chunk :: "string \<Rightarrow> bool \<Rightarrow> nat \<Rightarrow> int \<Rightarrow> bytes \<Rightarrow> ('w bstate, chunk) act"
  ev_read :: "backend_source \<Rightarrow> int \<Rightarrow> int \<Rightarrow> ('w bstate, bytes \<times> goerr option) act"

record 'w gw =
  gw_db :: db
  gw_be :: "'w bstate"

definition on_db :: "(db, 'a) act \<Rightarrow> ('w gw, 'a) act" where
  "on_db m g = (case m (gw_db g) of (r, d) \<Rightarrow> (r, g\<lparr>gw_db := d\<rparr>))"

definition on_be :: "('w bstate, 'a) act \<Rightarrow> ('w gw, 'a) act" where
  "on_be m g = (case m (gw_be g) of (r, s) \<Rightarrow> (r, g\<lparr>gw_be := s\<rparr>))"

fun err_text :: "goerr \<Rightarrow> string" where
  "err_text ErrNotFound = ''not found''"
| "err_text ErrConstraint = ''constraint failed''"
| "err_text (ErrDriver m) = m"
| "err_text (ErrMalformedChunked m) = ''aws-chunked: malformed body: '' @ m"
| "err_text ErrEOF = ''EOF''"
| "err_text ErrUnexpectedEOF = ''unexpected EOF''"
| "err_text ErrCtx = ''context canceled''"
| "err_text (ErrMsg m) = m"
| "err_text (ErrWrap m e) = m @ '': '' @ err_text e"

section \<open>Responses\<close>

record owner =
  ow_id :: string
  ow_name :: string

record bucket_result =
  br_name :: string
  br_date :: string

record object_result =
  or_key :: string
  or_modified :: string
  or_etag :: string
  or_size :: int
  or_class :: string

record list_result =
  lr_name :: string
  lr_prefix :: string
  lr_marker :: string
  lr_next :: string
  lr_delim :: string
  lr_max :: int
  lr_encoding :: string
  lr_truncated :: bool
  lr_contents :: "object_result list"
  lr_prefixes :: "string list"

record list_v2_result =
  l2_name :: string
  l2_prefix :: string
  l2_delim :: string
  l2_max :: int
  l2_encoding :: string
  l2_count :: int
  l2_truncated :: bool
  l2_token :: string
  l2_next :: string
  l2_after :: string
  l2_contents :: "object_result list"
  l2_prefixes :: "string list"

record list_part =
  lp_num :: int
  lp_etag :: string
  lp_size :: int
  lp_modified :: string

record upload_entry =
  ue_key :: string
  ue_id :: string
  ue_initiated :: string

record version_entry =
  ve_key :: string
  ve_version :: string
  ve_latest :: bool
  ve_modified :: string
  ve_etag :: string
  ve_size :: int
  ve_class :: string
  ve_owner :: owner

record versions_result =
  vr_name :: string
  vr_prefix :: string
  vr_marker :: string
  vr_next :: string
  vr_max :: int
  vr_delim :: string
  vr_truncated :: bool
  vr_encoding :: string
  vr_versions :: "version_entry list"
  vr_prefixes :: "string list"

datatype xml =
    XError string string string
  | XBuckets owner "bucket_result list"
  | XList list_result
  | XListV2 list_v2_result
  | XInitiate string string string
  | XComplete string string string string
  | XParts string string string string "list_part list"
  | XCopyObject string string
  | XCopyPart string string
  | XDelete "string list" "(string \<times> string \<times> string) list"
  | XUploads string int bool "upload_entry list"
  | XVersions versions_result
  | XRaw string

text \<open>A streamed body carries the error that cut it short after the status line, if any.\<close>

datatype rbody = BEmpty | BXml xml | BStream bytes "goerr option"

record response =
  rs_status :: int
  rs_header :: "(string \<times> string) list"
  rs_body :: rbody

definition writeHeader :: "int \<Rightarrow> (string \<times> string) list \<Rightarrow> response" where
  "writeHeader status h = \<lparr>rs_status = status, rs_header = h, rs_body = BEmpty\<rparr>"

definition writeXML :: "int \<Rightarrow> xml \<Rightarrow> (string \<times> string) list \<Rightarrow> response" where
  "writeXML status x h =
     \<lparr>rs_status = status, rs_header = header_set ''Content-Type'' ''application/xml'' h, rs_body = BXml x\<rparr>"

definition writeError :: "int \<Rightarrow> string \<Rightarrow> string \<Rightarrow> (string \<times> string) list \<Rightarrow> response" where
  "writeError status code message h = writeXML status (XError code message (header_value h ''x-amz-request-id'')) h"

definition writeXMLString :: "int \<Rightarrow> string \<Rightarrow> (string \<times> string) list \<Rightarrow> response" where
  "writeXMLString status s h = writeXML status (XRaw s) h"

abbreviation internalError :: "goerr \<Rightarrow> (string \<times> string) list \<Rightarrow> response" where
  "internalError e h \<equiv> writeError 500 ''InternalError'' (err_text e) h"

section \<open>Chunks of the store and of the backend\<close>

definition toMetaChunks :: "chunk list \<Rightarrow> mchunk list" where
  "toMetaChunks chunks = map (\<lambda>c. \<lparr>mc_seq = int (ch_seq c), mc_size = ch_size c, mc_offset = ch_offset c,
     mc_replicas = map (\<lambda>r. \<lparr>mr_provider = rp_provider r, mr_locator = rp_locator r, mr_token = rp_token r,
        mr_alive = True\<rparr>) (ch_replicas c)\<rparr>) chunks"

definition storage_replica :: "mreplica \<Rightarrow> replica" where
  "storage_replica r = \<lparr>rp_provider = mr_provider r, rp_locator = mr_locator r, rp_token = mr_token r\<rparr>"

definition storageReplicas :: "mreplica list \<Rightarrow> replica list" where
  "storageReplicas reps = map storage_replica (filter mr_alive reps) @ map storage_replica (filter (\<lambda>r. \<not> mr_alive r) reps)"

definition metaChunkRef :: "mchunk \<Rightarrow> chunk_ref" where
  "metaChunkRef c = \<lparr>cr_size = mc_size c, cr_replicas = storageReplicas (mc_replicas c)\<rparr>"

definition chunkRefs :: "mchunk list \<Rightarrow> chunk_ref list" where
  "chunkRefs chunks = map metaChunkRef chunks"

text \<open>\<^verbatim>\<open>h.backend.DeleteBatch\<close>, whose error is only logged.\<close>

definition delete_refs :: "'w env \<Rightarrow> chunk_ref list \<Rightarrow> 'w gw \<Rightarrow> 'w gw" where
  "delete_refs E refs g =
     (if refs = [] then g
      else let s = gw_be g in
        g\<lparr>gw_be := s\<lparr>bs_world := snd (DeleteBatch (ev_hosts E) (bs_pool s) refs (bs_world s))\<rparr>\<rparr>)"

definition deleteChunks :: "'w env \<Rightarrow> chunk list \<Rightarrow> 'w gw \<Rightarrow> 'w gw" where
  "deleteChunks E chunks g = delete_refs E (chunkRefs (toMetaChunks chunks)) g"

definition reapSupersededChunks :: "'w env \<Rightarrow> mchunk list \<Rightarrow> 'w gw \<Rightarrow> 'w gw" where
  "reapSupersededChunks E oldChunks g = delete_refs E (chunkRefs oldChunks) g"

section \<open>Request bodies\<close>

datatype upload_src = SrcPlain seg_reader | SrcChunked "seg_reader chunked"

fun src_Read :: "upload_src \<Rightarrow> nat \<Rightarrow> bytes \<times> goerr option \<times> upload_src" where
  "src_Read (SrcPlain r) n = (case seg_read r n of (bs, e, r') \<Rightarrow> (bs, e, SrcPlain r'))"
| "src_Read (SrcChunked c) n = (case chunked_rd seg_read c n of (bs, e, c') \<Rightarrow> (bs, e, SrcChunked c'))"

text \<open>\<^verbatim>\<open>io.TeeReader\<close> into the hash; \<open>te_sum\<close> are the bytes written to it.\<close>

record 'r tee =
  te_r :: 'r
  te_sum :: bytes

definition tee_Read :: "('r \<Rightarrow> nat \<Rightarrow> bytes \<times> goerr option \<times> 'r) \<Rightarrow> 'r tee \<Rightarrow> nat \<Rightarrow> bytes \<times> goerr option \<times> 'r tee" where
  "tee_Read rd t n = (case rd (te_r t) n of (bs, e, r') \<Rightarrow> (bs, e, \<lparr>te_r = r', te_sum = te_sum t @ bs\<rparr>))"

type_synonym upload_body = "upload_src tee counting"

definition body_Read :: "upload_body \<Rightarrow> nat \<Rightarrow> bytes \<times> goerr option \<times> upload_body" where
  "body_Read = counting_Read (tee_Read src_Read)"

definition hashed_body :: "upload_src \<Rightarrow> upload_body" where
  "hashed_body src = \<lparr>ct_r = \<lparr>te_r = src, te_sum = []\<rparr>, ct_n = 0\<rparr>"

definition decodeUpload :: "request \<Rightarrow> upload_body" where
  "decodeUpload r = hashed_body (if isAWSChunked r then SrcChunked (newAWSChunkedReader (rq_body r)) else SrcPlain (rq_body r))"

definition body_etag :: "'w env \<Rightarrow> upload_body \<Rightarrow> string" where
  "body_etag E b = hex_encode (ev_md5 E (te_sum (ct_r b)))"

definition validateDecodedSize :: "request \<Rightarrow> int \<Rightarrow> (string \<times> string) list \<Rightarrow> response + int" where
  "validateDecodedSize r got h =
     (let declared = hdr r ''X-Amz-Decoded-Content-Length'' in
      if declared = [] then Inr got
      else (case ParseInt 10 declared of
         (want, err) \<Rightarrow>
           if err \<noteq> None \<or> want < 0
           then Inl (writeError 400 ''InvalidArgument'' ''Invalid X-Amz-Decoded-Content-Length header.'' h)
           else if want \<noteq> got
           then Inl (writeError 400 ''IncompleteBody'' ''The number of bytes specified by x-amz-decoded-content-length does not match what was received.'' h)
           else Inr got))"

definition backend_upload :: "'w env \<Rightarrow> string \<Rightarrow> bool \<Rightarrow> upload_body \<Rightarrow> 'w gw \<Rightarrow>
    (chunk list \<times> goerr option \<times> upload_body \<times> 'w gw) option" where
  "backend_upload E key async b g =
     (case upload body_Read (ev_chunk E key async) (ev_bcfg E) b (gw_be g) of
        None \<Rightarrow> None
      | Some (chunks, err, b', s') \<Rightarrow> Some (chunks, err, b', g\<lparr>gw_be := s'\<rparr>))"

section \<open>Object metadata\<close>

definition metadataHeaders :: "string list" where
  "metadataHeaders = [''Content-Disposition'', ''Content-Encoding'', ''Cache-Control'', ''Expires'']"

definition checksumHeaders :: "string list" where
  "checksumHeaders = [''x-amz-checksum-crc32'', ''x-amz-checksum-crc32c'', ''x-amz-checksum-sha1'',
     ''x-amz-checksum-sha256'', ''x-amz-checksum-algorithm'']"

definition map_put :: "string \<Rightarrow> string \<Rightarrow> (string \<times> string) list \<Rightarrow> (string \<times> string) list" where
  "map_put k v m = filter (\<lambda>(k', _). k' \<noteq> k) m @ [(k, v)]"

text \<open>A nil map and an empty one hold the same entries: both are the empty list here.\<close>

definition captureObjectMetadata :: "url_values \<Rightarrow> (string \<times> string) list" where
  "captureObjectMetadata h =
     (let md = fold (\<lambda>name md. let v = header_get h name in if v \<noteq> [] then map_put (ToLower name) v md else md)
                 metadataHeaders [];
          md = fold (\<lambda>name md. let v = header_get h name in if v \<noteq> [] then map_put name v md else md)
                 checksumHeaders md
      in fold (\<lambda>(name, vals) md.
           if vals = [] then md
           else let ln = ToLower name in
             if HasPrefix ln ''x-amz-meta-'' then map_put ln (hd vals) md else md) h md)"

definition md_get :: "(string \<times> string) list \<Rightarrow> string \<Rightarrow> string" where
  "md_get md k = (case map_of md k of None \<Rightarrow> [] | Some v \<Rightarrow> v)"

definition echo :: "url_values \<Rightarrow> (string \<times> string) list \<Rightarrow> string \<Rightarrow> string \<Rightarrow> string \<Rightarrow>
    (string \<times> string) list \<Rightarrow> (string \<times> string) list" where
  "echo q md stored header override h =
     (let v = (if values_get q override \<noteq> [] then values_get q override else md_get md stored)
      in if v \<noteq> [] then header_set header v h else h)"

definition applyObjectHeaders :: "'w env \<Rightarrow> url_values \<Rightarrow> object \<Rightarrow> (string \<times> string) list \<Rightarrow>
    (string \<times> string) list \<Rightarrow> (string \<times> string) list" where
  "applyObjectHeaders E q obj md h0 =
     (let ct = (if values_get q ''response-content-type'' \<noteq> [] then values_get q ''response-content-type'' else ob_ctype obj);
          h = header_set ''Content-Type'' ct h0;
          h = header_set ''ETag'' (quoteETag (ob_etag obj)) h;
          h = header_set ''Last-Modified'' (ev_httpTime E (ob_updated obj)) h;
          cc = (case map_of md ''cache-control'' of Some v \<Rightarrow> v | None \<Rightarrow> ''public, max-age=31536000, immutable'');
          cc = (if values_get q ''response-cache-control'' \<noteq> [] then values_get q ''response-cache-control'' else cc);
          h = header_set ''Cache-Control'' cc h;
          h = echo q md ''content-disposition'' ''Content-Disposition'' ''response-content-disposition'' h;
          h = echo q md ''content-encoding'' ''Content-Encoding'' ''response-content-encoding'' h;
          h = echo q md ''expires'' ''Expires'' ''response-expires'' h;
          h = fold (\<lambda>(k, v) h. if HasPrefix k ''x-amz-meta-'' then header_set k v h else h) md h
      in fold (\<lambda>(k, v) h. if HasPrefix k ''x-amz-checksum-'' then header_set k v h else h) md h)"

definition writeConditional :: "'w env \<Rightarrow> int \<Rightarrow> object \<Rightarrow> (string \<times> string) list \<Rightarrow> response" where
  "writeConditional E status obj h =
     (if status = 304
      then writeHeader 304 (header_set ''Last-Modified'' (ev_httpTime E (ob_updated obj))
             (header_set ''ETag'' (quoteETag (ob_etag obj)) h))
      else writeError 412 ''PreconditionFailed'' ''At least one of the preconditions you specified did not hold.'' h)"

section \<open>Reading an object\<close>

definition planRead :: "object \<Rightarrow> mchunk list \<Rightarrow> http_range option \<Rightarrow> chunk_loc list \<times> int \<times> int" where
  "planRead obj chunks rng =
     (let (start, en) = (case rng of Some r \<Rightarrow> (hr_start r, hr_end r + 1) | None \<Rightarrow> (0, ob_size obj))
      in (map (\<lambda>c. \<lparr>cl_ref = metaChunkRef c, cl_offset = mc_offset c, cl_size = mc_size c\<rparr>) chunks, start, en))"

definition object_source :: "'w env \<Rightarrow> object \<Rightarrow> chunk_loc list \<Rightarrow> backend_source" where
  "object_source E obj locs = \<lparr>so_objSize = ob_size obj, so_locs = locs, so_chunkSize = ev_streamChunk E\<rparr>"

text \<open>\<^verbatim>\<open>openObject\<close>: the reader it returns, as the bytes it will deliver and the error that ends them.\<close>

definition openObject :: "'w env \<Rightarrow> object \<Rightarrow> mchunk list \<Rightarrow> http_range option \<Rightarrow> ('w gw, seg_reader) act" where
  "openObject E obj chunks rng g =
     (case planRead obj chunks rng of
        (locs, start, en) \<Rightarrow>
          if start \<ge> en then (Inr \<lparr>sg_segs = [], sg_fin = ErrEOF\<rparr>, g)
          else (case on_be (ev_read E (object_source E obj locs) start en) g of
             (Inl e, g') \<Rightarrow> (Inl e, g')
           | (Inr (bs, e), g') \<Rightarrow>
               (Inr \<lparr>sg_segs = (if bs = [] then [] else [bs]), sg_fin = (case e of None \<Rightarrow> ErrEOF | Some x \<Rightarrow> x)\<rparr>, g')))"

definition streamObject :: "'w env \<Rightarrow> object \<Rightarrow> mchunk list \<Rightarrow> http_range option \<Rightarrow> int \<Rightarrow>
    (string \<times> string) list \<Rightarrow> (string \<times> string) list \<Rightarrow> 'w gw \<Rightarrow> response \<times> 'w gw" where
  "streamObject E obj chunks rng status hdrs h0 g =
     (case planRead obj chunks rng of
        (locs, start, en) \<Rightarrow>
          if start \<ge> en then (writeHeader status hdrs, g)
          else (case on_be (ev_read E (object_source E obj locs) start en) g of
             (Inl e, g') \<Rightarrow> (writeError 502 ''FreeHostDownloadFailed'' (err_text e) h0, g')
           | (Inr (bs, e), g') \<Rightarrow> (\<lparr>rs_status = status, rs_header = hdrs, rs_body = BStream bs e\<rparr>, g')))"

end
