(* ===== verification/ObjectHandlers.thy ===== *)
theory ObjectHandlers
  imports Gateway
begin

text \<open>
  The bucket and object handlers of \<^verbatim>\<open>internal/s3api/handler.go\<close>, the copy handlers of \<^verbatim>\<open>copy.go\<close>, the bulk
  delete of \<^verbatim>\<open>deleteobjects.go\<close>: each from its guards to its last effect, with every early return. The
  argument \<open>h\<close> is the header map of the response as it stands when the handler is called.
\<close>

section \<open>Buckets\<close>

definition createBucket :: "'w env \<Rightarrow> time \<Rightarrow> string \<Rightarrow> (string \<times> string) list \<Rightarrow> 'w gw \<Rightarrow> response \<times> 'w gw" where
  "createBucket E now bucket h g =
     (case on_db (CreateBucket now bucket) g of
        (Inl e, g') \<Rightarrow>
          (if Contains (err_text e) ''constraint''
           then writeError 409 ''BucketAlreadyOwnedByYou'' ''Bucket already exists.'' h
           else internalError e h, g')
      | (Inr _, g') \<Rightarrow> (writeHeader 200 h, g'))"

definition deleteBucket :: "'w env \<Rightarrow> string \<Rightarrow> (string \<times> string) list \<Rightarrow> 'w gw \<Rightarrow> response \<times> 'w gw" where
  "deleteBucket E bucket h g =
     (case on_db (ListObjectsPage \<lparr>lp_bucket = bucket, lp_prefix = [], lp_delim = [], lp_after = [], lp_max = 1\<rparr>) g of
        (Inl e, g1) \<Rightarrow> (internalError e h, g1)
      | (Inr page, g1) \<Rightarrow>
          if pg_objects page \<noteq> []
          then (writeError 409 ''BucketNotEmpty'' ''The bucket you tried to delete is not empty.'' h, g1)
          else (case on_db (DeleteBucket bucket) g1 of
             (Inl e, g2) \<Rightarrow>
               (if err_cause e = ErrNotFound
                then writeError 404 ''NoSuchBucket'' ''The specified bucket does not exist.'' h
                else internalError e h, g2)
           | (Inr _, g2) \<Rightarrow> (writeHeader 204 h, g2)))"

definition headBucket :: "'w env \<Rightarrow> string \<Rightarrow> (string \<times> string) list \<Rightarrow> 'w gw \<Rightarrow> response \<times> 'w gw" where
  "headBucket E bucket h g =
     (case on_db (BucketExists bucket) g of
        (Inl e, g') \<Rightarrow> (internalError e h, g')
      | (Inr exists, g') \<Rightarrow> (writeHeader (if \<not> exists then 404 else 200) h, g'))"

definition listBuckets :: "'w env \<Rightarrow> (string \<times> string) list \<Rightarrow> 'w gw \<Rightarrow> response \<times> 'w gw" where
  "listBuckets E h g =
     (case on_db ListBuckets g of
        (Inl e, g') \<Rightarrow> (internalError e h, g')
      | (Inr bs, g') \<Rightarrow>
          let ak = ac_access (ev_auth E) in
          (writeXML 200 (XBuckets \<lparr>ow_id = ak, ow_name = ak\<rparr>
             (map (\<lambda>b. \<lparr>br_name = b_name b, br_date = ev_rfc3339 E (b_created b)\<rparr>) bs)) h, g'))"

section \<open>Reading\<close>

definition getObject :: "'w env \<Rightarrow> request \<Rightarrow> string \<Rightarrow> string \<Rightarrow> (string \<times> string) list \<Rightarrow> 'w gw \<Rightarrow> response \<times> 'w gw" where
  "getObject E r bucket key h g =
     (case on_db (GetObject bucket key) g of
        (Inl e, g1) \<Rightarrow>
          (if err_cause e = ErrNotFound
           then writeError 404 ''NoSuchKey'' ''The specified key does not exist.'' h
           else internalError e h, g1)
      | (Inr obj, g1) \<Rightarrow>
          (case on_db (GetObjectChunks bucket key) g1 of
             (Inl e, g2) \<Rightarrow> (internalError e h, g2)
           | (Inr chunks, g2) \<Rightarrow>
               let st = conditionalStatus (ev_parseTime E) r obj in
               if st \<noteq> 0 then (writeConditional E st obj h, g2)
               else (case on_db (GetObjectMetadata bucket key) g2 of
                  (Inl e, g3) \<Rightarrow> (internalError e h, g3)
                | (Inr md, g3) \<Rightarrow>
                    let range = hdr r ''Range'';
                        (rng, satisfiable, isRange) =
                          (if range \<noteq> [] \<and> ifRangeAllows (ev_parseTime E) r obj
                           then parseByteRange range (ob_size obj)
                           else (\<lparr>hr_start = 0, hr_end = 0\<rparr>, False, False))
                    in if isRange \<and> \<not> satisfiable
                       then (writeError 416 ''InvalidRange'' ''The requested range is not satisfiable''
                              (header_set ''Content-Range'' (''bytes */'' @ FormatInt (ob_size obj))
                                (header_set ''Accept-Ranges'' ''bytes'' h)), g3)
                       else
                         let useRange = (isRange \<and> satisfiable);
                             hd0 = header_set ''Accept-Ranges'' ''bytes'' (applyObjectHeaders E (rq_query r) obj md h);
                             hdrs = (if useRange
                               then header_set ''Content-Length'' (FormatInt (range_length rng))
                                 (header_set ''Content-Range''
                                   (''bytes '' @ FormatInt (hr_start rng) @ ''-'' @ FormatInt (hr_end rng) @ ''/'' @
                                    FormatInt (ob_size obj)) hd0)
                               else header_set ''Content-Length'' (FormatInt (ob_size obj)) hd0)
                         in streamObject E obj chunks (if useRange then Some rng else None)
                              (if useRange then 206 else 200) hdrs h g3)))"

definition headObject :: "'w env \<Rightarrow> request \<Rightarrow> string \<Rightarrow> string \<Rightarrow> (string \<times> string) list \<Rightarrow> 'w gw \<Rightarrow> response \<times> 'w gw" where
  "headObject E r bucket key h g =
     (case on_db (GetObject bucket key) g of
        (Inl e, g1) \<Rightarrow> (writeHeader (if err_cause e = ErrNotFound then 404 else 500) h, g1)
      | (Inr obj, g1) \<Rightarrow>
          let st = conditionalStatus (ev_parseTime E) r obj in
          if st \<noteq> 0 then (writeConditional E st obj h, g1)
          else (case on_db (GetObjectMetadata bucket key) g1 of
             (Inl e, g2) \<Rightarrow> (writeHeader 500 h, g2)
           | (Inr md, g2) \<Rightarrow>
               (writeHeader 200 (header_set ''Accept-Ranges'' ''bytes''
                  (header_set ''Content-Length'' (FormatInt (ob_size obj))
                    (applyObjectHeaders E (rq_query r) obj md h))), g2)))"

section \<open>Deleting\<close>

definition deleteOneObject :: "'w env \<Rightarrow> string \<Rightarrow> string \<Rightarrow> ('w gw, unit) act" where
  "deleteOneObject E bucket key g =
     (case on_db (GetObject bucket key) g of
        (Inl e, g1) \<Rightarrow> (if err_cause e = ErrNotFound then Inr () else Inl e, g1)
      | (Inr _, g1) \<Rightarrow>
          (case on_db (GetObjectChunks bucket key) g1 of
             (Inl e, g2) \<Rightarrow> (Inl e, g2)
           | (Inr chunks, g2) \<Rightarrow> on_db (DeleteObject bucket key) (delete_refs E (chunkRefs chunks) g2)))"

definition deleteObject :: "'w env \<Rightarrow> string \<Rightarrow> string \<Rightarrow> (string \<times> string) list \<Rightarrow> 'w gw \<Rightarrow> response \<times> 'w gw" where
  "deleteObject E bucket key h g =
     (case deleteOneObject E bucket key g of
        (Inl e, g') \<Rightarrow> (internalError e h, g')
      | (Inr _, g') \<Rightarrow> (writeHeader 204 h, g'))"

fun delete_keys :: "'w env \<Rightarrow> string \<Rightarrow> bool \<Rightarrow> string list \<Rightarrow> 'w gw \<Rightarrow>
    string list \<times> (string \<times> string \<times> string) list \<times> 'w gw" where
  "delete_keys E bucket quiet [] g = ([], [], g)"
| "delete_keys E bucket quiet (k # ks) g =
     (case deleteOneObject E bucket k g of
        (r, g1) \<Rightarrow>
          (case delete_keys E bucket quiet ks g1 of
             (deleted, errors, g2) \<Rightarrow>
               (case r of
                  Inl e \<Rightarrow> (deleted, (k, ''InternalError'', err_text e) # errors, g2)
                | Inr _ \<Rightarrow> (if \<not> quiet then k # deleted else deleted, errors, g2))))"

definition deleteObjects :: "'w env \<Rightarrow> request \<Rightarrow> string \<Rightarrow> (string \<times> string) list \<Rightarrow> 'w gw \<Rightarrow> response \<times> 'w gw" where
  "deleteObjects E r bucket h g =
     (case ev_xmlDelete E (rq_body r) of
        None \<Rightarrow> (writeError 400 ''MalformedXML'' ''The XML you provided was not well-formed or did not validate.'' h, g)
      | Some (quiet, keys) \<Rightarrow>
          if keys = []
          then (writeError 400 ''MalformedXML'' ''The XML you provided was not well-formed or did not validate.'' h, g)
          else if length keys > 1000
          then (writeError 400 ''MalformedXML'' ''The request contains more than the maximum of 1000 keys.'' h, g)
          else (case delete_keys E bucket quiet keys g of
             (deleted, errors, g') \<Rightarrow> (writeXML 200 (XDelete deleted errors) h, g')))"

section \<open>Copying\<close>

definition parseCopySource :: "request \<Rightarrow> (string \<times> string) option" where
  "parseCopySource r =
     (let raw = hdr r ''X-Amz-Copy-Source'' in
      if raw = [] then None
      else
        let raw = (case IndexByte raw CHR ''?'' of Some i \<Rightarrow> take i raw | None \<Rightarrow> raw);
            raw = TrimPrefix raw ''/''
        in (case IndexByte raw CHR ''/'' of
              None \<Rightarrow> None
            | Some slash \<Rightarrow>
                if slash = 0 \<or> slash = length raw - 1 then None
                else
                  let b = (case PathUnescape (take slash raw) of Some x \<Rightarrow> x | None \<Rightarrow> take slash raw);
                      k = (case PathUnescape (drop (slash + 1) raw) of Some x \<Rightarrow> x | None \<Rightarrow> drop (slash + 1) raw)
                  in if b = [] \<or> k = [] then None else Some (b, k)))"

definition loadSource :: "'w env \<Rightarrow> string \<Rightarrow> string \<Rightarrow> (string \<times> string) list \<Rightarrow> 'w gw \<Rightarrow>
    (response + object \<times> mchunk list) \<times> 'w gw" where
  "loadSource E b k h g =
     (case on_db (GetObject b k) g of
        (Inl e, g1) \<Rightarrow>
          (Inl (if err_cause e = ErrNotFound
             then writeError 404 ''NoSuchKey'' ''The specified key does not exist.'' h
             else internalError e h), g1)
      | (Inr src, g1) \<Rightarrow>
          (case on_db (GetObjectChunks b k) g1 of
             (Inl e, g2) \<Rightarrow> (Inl (internalError e h), g2)
           | (Inr chunks, g2) \<Rightarrow> (Inr (src, chunks), g2)))"

text \<open>A query whose error the code discards, which then works with the zero value.\<close>

definition query_or :: "'a \<Rightarrow> (db, 'a) act \<Rightarrow> 'w gw \<Rightarrow> 'a \<times> 'w gw" where
  "query_or dflt m g = (case on_db m g of (Inl e, g') \<Rightarrow> (dflt, g') | (Inr x, g') \<Rightarrow> (x, g'))"

definition copyObject :: "'w env \<Rightarrow> time \<Rightarrow> request \<Rightarrow> string \<Rightarrow> string \<Rightarrow> (string \<times> string) list \<Rightarrow> 'w gw \<Rightarrow>
    (response \<times> 'w gw) option" where
  "copyObject E now r dstBucket dstKey h g =
     (case parseCopySource r of
        None \<Rightarrow> Some (writeError 400 ''InvalidArgument'' ''Invalid x-amz-copy-source.'' h, g)
      | Some (srcBucket, srcKey) \<Rightarrow>
          (case loadSource E srcBucket srcKey h g of
             (Inl resp, g1) \<Rightarrow> Some (resp, g1)
           | (Inr (src, srcChunks), g1) \<Rightarrow>
               let replace = EqualFold (hdr r ''X-Amz-Metadata-Directive'') ''REPLACE'';
                   ct = hdr r ''Content-Type'';
                   contentType = (if replace \<and> ct \<noteq> [] then ct else ob_ctype src);
                   (meta, g2) = (if replace then (captureObjectMetadata (rq_header r), g1)
                                 else query_or [] (GetObjectMetadata srcBucket srcKey) g1)
               in (case openObject E src srcChunks None g2 of
                     (Inl e, g3) \<Rightarrow> Some (writeError 502 ''FreeHostDownloadFailed'' (err_text e) h, g3)
                   | (Inr reader, g3) \<Rightarrow>
                       (case backend_upload E dstKey False (hashed_body (SrcPlain reader)) g3 of
                          None \<Rightarrow> None
                        | Some (chunks, Some e, b, g4) \<Rightarrow>
                            Some (writeError 502 ''FreeHostUploadFailed'' (err_text e) h, g4)
                        | Some (chunks, None, b, g4) \<Rightarrow>
                            let etag = body_etag E b;
                                obj = \<lparr>ob_bucket = dstBucket, ob_key = dstKey, ob_size = ct_n b, ob_etag = etag,
                                  ob_ctype = contentType, ob_created = zero_time, ob_updated = zero_time, ob_meta = meta\<rparr>;
                                (old, g5) = query_or [] (GetObjectChunks dstBucket dstKey) g4
                            in (case on_db (PutObject now obj (toMetaChunks chunks)) g5 of
                                  (Inl e, g6) \<Rightarrow> Some (internalError e h, deleteChunks E chunks g6)
                                | (Inr _, g6) \<Rightarrow>
                                    Some (writeXML 200 (XCopyObject (ev_listTime E now) (quoteETag etag)) h,
                                      reapSupersededChunks E old g6))))))"

section \<open>Writing\<close>

definition content_type :: "request \<Rightarrow> string" where
  "content_type r = (let ct = hdr r ''Content-Type'' in if ct = [] then ''application/octet-stream'' else ct)"

text \<open>The rejection of a failed upload: a malformed framing is the client's error.\<close>

definition upload_failed :: "'w env \<Rightarrow> chunk list \<Rightarrow> goerr \<Rightarrow> (string \<times> string) list \<Rightarrow> 'w gw \<Rightarrow> response \<times> 'w gw" where
  "upload_failed E chunks e h g =
     (if is_malformed e
      then (writeError 400 ''IncompleteBody'' ''The request body does not match the declared chunk framing.'' h,
            deleteChunks E chunks g)
      else (writeError 502 ''FreeHostUploadFailed'' (err_text e) h, g))"

definition putObject :: "'w env \<Rightarrow> time \<Rightarrow> request \<Rightarrow> string \<Rightarrow> string \<Rightarrow> (string \<times> string) list \<Rightarrow> 'w gw \<Rightarrow>
    (response \<times> 'w gw) option" where
  "putObject E now r bucket key h g =
     (case on_db (BucketExists bucket) g of
        (Inl e, g1) \<Rightarrow> Some (internalError e h, g1)
      | (Inr exists, g1) \<Rightarrow>
          if \<not> exists then Some (writeError 404 ''NoSuchBucket'' ''The specified bucket does not exist.'' h, g1)
          else if hdr r ''X-Amz-Copy-Source'' \<noteq> [] then copyObject E now r bucket key h g1
          else (case backend_upload E key True (decodeUpload r) g1 of
             None \<Rightarrow> None
           | Some (chunks, Some e, b, g2) \<Rightarrow> Some (upload_failed E chunks e h g2)
           | Some (chunks, None, b, g2) \<Rightarrow>
               (case validateDecodedSize r (ct_n b) h of
                  Inl resp \<Rightarrow> Some (resp, deleteChunks E chunks g2)
                | Inr sz \<Rightarrow>
                    let etag = body_etag E b;
                        obj = \<lparr>ob_bucket = bucket, ob_key = key, ob_size = sz, ob_etag = etag,
                          ob_ctype = content_type r, ob_created = zero_time, ob_updated = zero_time,
                          ob_meta = captureObjectMetadata (rq_header r)\<rparr>;
                        (oldChunks, g3) = query_or [] (GetObjectChunks bucket key) g2
                    in (case on_db (PutObject now obj (toMetaChunks chunks)) g3 of
                          (Inl e, g4) \<Rightarrow> Some (internalError e h, deleteChunks E chunks g4)
                        | (Inr _, g4) \<Rightarrow>
                            Some (writeHeader 200 (header_set ''ETag'' (quoteETag etag) h),
                              reapSupersededChunks E oldChunks g4)))))"

text \<open>
  \<^verbatim>\<open>persistExtra\<close>, the callback of a background replica: it waits until the handler has returned, and
  does nothing when the put failed.
\<close>

definition persistExtra :: "bool \<Rightarrow> string \<Rightarrow> string \<Rightarrow> string \<Rightarrow> nat \<Rightarrow> replica \<Rightarrow> 'w gw \<Rightarrow> 'w gw" where
  "persistExtra persistExtras bucket key committedETag seq rep g =
     (if \<not> persistExtras then g
      else snd (on_db (AppendChunkReplica bucket key (int seq)
        \<lparr>mr_provider = rp_provider rep, mr_locator = rp_locator rep, mr_token = rp_token rep, mr_alive = True\<rparr>
        committedETag) g))"

section \<open>Listing\<close>

definition maxKeysOrDefault :: "int \<Rightarrow> int" where
  "maxKeysOrDefault n = (if n \<le> 0 \<or> n > 1000 then 1000 else n)"

definition encodeListToken :: "string \<Rightarrow> string" where
  "encodeListToken key = b64_encode key"

definition decodeListToken :: "string \<Rightarrow> string option" where
  "decodeListToken tok = b64_quads (filter (\<lambda>c. c \<noteq> cr \<and> c \<noteq> lf) tok)"

definition list_enc :: "bool \<Rightarrow> string \<Rightarrow> string" where
  "list_enc urlEncode s = (if urlEncode \<and> s \<noteq> [] then awsURIEncode s True else s)"

definition listObjects :: "'w env \<Rightarrow> request \<Rightarrow> string \<Rightarrow> (string \<times> string) list \<Rightarrow> 'w gw \<Rightarrow> response \<times> 'w gw" where
  "listObjects E r bucket h g =
     (let q = rq_query r;
          v2 = (values_get q ''list-type'' = ''2'');
          pre = values_get q ''prefix'';
          delim = values_get q ''delimiter'';
          urlEncode = (values_get q ''encoding-type'' = ''url'');
          maxKeys = maxKeysOrDefault (fst (Atoi (values_get q ''max-keys'')));
          contToken = (if v2 then values_get q ''continuation-token'' else []);
          startAfter = (if v2 then values_get q ''start-after'' else []);
          marker = (if v2 then [] else values_get q ''marker'');
          after = (if v2 then (if contToken \<noteq> [] then decodeListToken contToken else Some startAfter) else Some marker)
      in case after of
           None \<Rightarrow> (writeError 400 ''InvalidArgument'' ''The continuation token provided is incorrect.'' h, g)
         | Some aft \<Rightarrow>
             (case on_db (ListObjectsPage \<lparr>lp_bucket = bucket, lp_prefix = pre, lp_delim = delim, lp_after = aft,
                 lp_max = maxKeys\<rparr>) g of
                (Inl e, g') \<Rightarrow> (internalError e h, g')
              | (Inr page, g') \<Rightarrow>
                  let enc = list_enc urlEncode;
                      encType = (if urlEncode then ''url'' else []);
                      common = map enc (pg_prefixes page);
                      contents = map (\<lambda>obj. \<lparr>or_key = enc (ob_key obj), or_modified = ev_listTime E (ob_updated obj),
                        or_etag = quoteETag (ob_etag obj), or_size = ob_size obj, or_class = ''STANDARD''\<rparr>) (pg_objects page)
                  in if v2
                     then (writeXML 200 (XListV2 \<lparr>l2_name = bucket, l2_prefix = enc pre, l2_delim = enc delim,
                            l2_max = maxKeys, l2_encoding = encType, l2_count = int (length contents + length common),
                            l2_truncated = pg_truncated page, l2_token = contToken,
                            l2_next = (if pg_truncated page then encodeListToken (pg_next page) else []),
                            l2_after = enc startAfter, l2_contents = contents, l2_prefixes = common\<rparr>) h, g')
                     else (writeXML 200 (XList \<lparr>lr_name = bucket, lr_prefix = enc pre, lr_marker = enc marker,
                            lr_next = (if pg_truncated page then enc (pg_next page) else []), lr_delim = enc delim,
                            lr_max = maxKeys, lr_encoding = encType, lr_truncated = pg_truncated page,
                            lr_contents = contents, lr_prefixes = common\<rparr>) h, g')))"

end
