(* ===== verification/MultipartHandlers.thy ===== *)
theory MultipartHandlers
  imports ObjectHandlers
begin

text \<open>
  The multipart handlers of \<^verbatim>\<open>internal/s3api/multipart.go\<close>, the part copy of \<^verbatim>\<open>copy.go\<close>, and the janitor of
  \<^verbatim>\<open>janitor.go\<close> with the store's query for stale uploads.
\<close>

section \<open>Creating an upload\<close>

definition minPartSize :: int where
  "minPartSize = 5 * 1024 * 1024"

text \<open>\<open>rnd\<close> are the random bytes of \<^verbatim>\<open>rand.Read\<close>.\<close>

definition newUploadID :: "bytes \<Rightarrow> string" where
  "newUploadID rnd = hex_encode rnd"

definition createMultipartUpload :: "'w env \<Rightarrow> time \<Rightarrow> bytes \<Rightarrow> request \<Rightarrow> string \<Rightarrow> string \<Rightarrow> (string \<times> string) list \<Rightarrow>
    'w gw \<Rightarrow> response \<times> 'w gw" where
  "createMultipartUpload E now rnd r bucket key h g =
     (case on_db (BucketExists bucket) g of
        (Inl e, g1) \<Rightarrow> (internalError e h, g1)
      | (Inr exists, g1) \<Rightarrow>
          if \<not> exists then (writeError 404 ''NoSuchBucket'' ''The specified bucket does not exist.'' h, g1)
          else
            let uploadID = newUploadID rnd in
            (case on_db (CreateMultipartUpload now uploadID bucket key (content_type r)) g1 of
               (Inl e, g2) \<Rightarrow> (internalError e h, g2)
             | (Inr _, g2) \<Rightarrow>
                 let md = captureObjectMetadata (rq_header r) in
                 if md \<noteq> [] then
                   (case on_db (PutMultipartUploadMetadata uploadID md) g2 of
                      (Inl e, g3) \<Rightarrow> (internalError e h, g3)
                    | (Inr _, g3) \<Rightarrow> (writeXML 200 (XInitiate bucket key uploadID) h, g3))
                 else (writeXML 200 (XInitiate bucket key uploadID) h, g2)))"

definition resolveUpload :: "'w env \<Rightarrow> string \<Rightarrow> string \<Rightarrow> string \<Rightarrow> (string \<times> string) list \<Rightarrow> 'w gw \<Rightarrow>
    (response + mpu) \<times> 'w gw" where
  "resolveUpload E bucket key uploadID h g =
     (case on_db (GetMultipartUpload uploadID) g of
        (Inl e, g') \<Rightarrow>
          (Inl (if err_cause e = ErrNotFound
             then writeError 404 ''NoSuchUpload'' ''The specified multipart upload does not exist.'' h
             else internalError e h), g')
      | (Inr u, g') \<Rightarrow>
          (if mu_bucket u \<noteq> bucket \<or> mu_key u \<noteq> key
           then Inl (writeError 404 ''NoSuchUpload'' ''The specified multipart upload does not exist.'' h)
           else Inr u, g'))"

section \<open>Uploading parts\<close>

definition uploadPartCopy :: "'w env \<Rightarrow> time \<Rightarrow> request \<Rightarrow> mpu \<Rightarrow> int \<Rightarrow> (string \<times> string) list \<Rightarrow> 'w gw \<Rightarrow>
    (response \<times> 'w gw) option" where
  "uploadPartCopy E now r u partNumber h g =
     (case parseCopySource r of
        None \<Rightarrow> Some (writeError 400 ''InvalidArgument'' ''Invalid x-amz-copy-source.'' h, g)
      | Some (srcBucket, srcKey) \<Rightarrow>
          (case loadSource E srcBucket srcKey h g of
             (Inl resp, g1) \<Rightarrow> Some (resp, g1)
           | (Inr (src, srcChunks), g1) \<Rightarrow>
               let cr = hdr r ''X-Amz-Copy-Source-Range'';
                   (resolved, satisfiable, isRange) = parseByteRange cr (ob_size src)
               in if cr \<noteq> [] \<and> (\<not> isRange \<or> \<not> satisfiable)
                  then Some (writeError 400 ''InvalidRange'' ''The x-amz-copy-source-range is not satisfiable.'' h, g1)
                  else (case openObject E src srcChunks (if cr \<noteq> [] then Some resolved else None) g1 of
                     (Inl e, g2) \<Rightarrow> Some (writeError 502 ''FreeHostDownloadFailed'' (err_text e) h, g2)
                   | (Inr reader, g2) \<Rightarrow>
                       (case backend_upload E (mu_key u) False (hashed_body (SrcPlain reader)) g2 of
                          None \<Rightarrow> None
                        | Some (chunks, Some e, b, g3) \<Rightarrow>
                            Some (writeError 502 ''FreeHostUploadFailed'' (err_text e) h, g3)
                        | Some (chunks, None, b, g3) \<Rightarrow>
                            let partETag = body_etag E b;
                                (old, g4) = query_or [] (GetMultipartPartChunks (mu_id u) partNumber) g3
                            in (case on_db (PutMultipartPart (mu_id u) partNumber partETag (ct_n b) (toMetaChunks chunks)) g4 of
                                  (Inl e, g5) \<Rightarrow> Some (internalError e h, deleteChunks E chunks g5)
                                | (Inr _, g5) \<Rightarrow>
                                    Some (writeXML 200 (XCopyPart (quoteETag partETag) (ev_listTime E now)) h,
                                      reapSupersededChunks E old g5))))))"

definition uploadPart :: "'w env \<Rightarrow> time \<Rightarrow> request \<Rightarrow> string \<Rightarrow> string \<Rightarrow> string \<Rightarrow> string \<Rightarrow> (string \<times> string) list \<Rightarrow>
    'w gw \<Rightarrow> (response \<times> 'w gw) option" where
  "uploadPart E now r bucket key uploadID partNumberStr h g =
     (case Atoi partNumberStr of
        (partNumber, err) \<Rightarrow>
          if err \<noteq> None \<or> partNumber < 1 \<or> partNumber > 10000
          then Some (writeError 400 ''InvalidArgument'' ''Part number must be an integer between 1 and 10000.'' h, g)
          else (case resolveUpload E bucket key uploadID h g of
             (Inl resp, g1) \<Rightarrow> Some (resp, g1)
           | (Inr u, g1) \<Rightarrow>
               if hdr r ''X-Amz-Copy-Source'' \<noteq> [] then uploadPartCopy E now r u partNumber h g1
               else (case backend_upload E key False (decodeUpload r) g1 of
                  None \<Rightarrow> None
                | Some (chunks, Some e, b, g2) \<Rightarrow> Some (upload_failed E chunks e h g2)
                | Some (chunks, None, b, g2) \<Rightarrow>
                    (case validateDecodedSize r (ct_n b) h of
                       Inl resp \<Rightarrow> Some (resp, deleteChunks E chunks g2)
                     | Inr sz \<Rightarrow>
                         let partETag = body_etag E b;
                             (old, g3) = query_or [] (GetMultipartPartChunks uploadID partNumber) g2
                         in (case on_db (PutMultipartPart uploadID partNumber partETag sz (toMetaChunks chunks)) g3 of
                               (Inl e, g4) \<Rightarrow> Some (internalError e h, deleteChunks E chunks g4)
                             | (Inr _, g4) \<Rightarrow>
                                 Some (writeHeader 200 (header_set ''ETag'' (quoteETag partETag) h),
                                   reapSupersededChunks E old g4))))))"

section \<open>Completing\<close>

text \<open>\<^verbatim>\<open>hex.DecodeString\<close>\<close>

fun hex_decode :: "string \<Rightarrow> bytes option" where
  "hex_decode [] = Some []"
| "hex_decode (a # b # rest) =
     (case (unhex a, unhex b) of
        (Some x, Some y) \<Rightarrow> map_option ((#) (char_of (16 * x + y))) (hex_decode rest)
      | _ \<Rightarrow> None)"
| "hex_decode _ = None"

text \<open>The inner loop: the part's chunks continue the numbering and the offsets of the object.\<close>

fun append_part :: "mchunk list \<Rightarrow> int \<times> int \<times> mchunk list \<Rightarrow> int \<times> int \<times> mchunk list" where
  "append_part [] (seq, tot, final) = (seq, tot, final)"
| "append_part (c # cs) (seq, tot, final) =
     append_part cs (seq + 1, tot + mc_size c,
       final @ [\<lparr>mc_seq = seq, mc_size = mc_size c, mc_offset = tot, mc_replicas = mc_replicas c\<rparr>])"

text \<open>
  The loop over the requested parts. \<open>storedByNum\<close> is the map of the stored parts, \<open>acc\<close> the chunks
  gathered so far with the next number and offset, \<open>md5s\<close> the concatenated digests.
\<close>

fun complete_loop :: "string \<Rightarrow> (int \<rightharpoonup> mpart) \<Rightarrow> (string \<times> string) list \<Rightarrow> complete_part list \<Rightarrow> int \<Rightarrow> bytes \<Rightarrow>
    int \<times> int \<times> mchunk list \<Rightarrow> 'w gw \<Rightarrow> (response + bytes \<times> int \<times> mchunk list) \<times> 'w gw" where
  "complete_loop uploadID stored h [] prevPart md5s (seq, tot, final) g = (Inr (md5s, tot, final), g)"
| "complete_loop uploadID stored h (cp # rest) prevPart md5s acc g =
     (if cp_num cp \<le> prevPart
      then (Inl (writeError 400 ''InvalidPartOrder'' ''The list of parts was not in ascending order.'' h), g)
      else (case stored (cp_num cp) of
         None \<Rightarrow> (Inl (writeError 400 ''InvalidPart'' ''One or more of the specified parts could not be found or the ETag did not match.'' h), g)
       | Some sp \<Rightarrow>
           if \<not> EqualFold (Trim (cp_etag cp) [dquote]) (mp_etag sp)
           then (Inl (writeError 400 ''InvalidPart'' ''One or more of the specified parts could not be found or the ETag did not match.'' h), g)
           else if rest \<noteq> [] \<and> mp_size sp < minPartSize
           then (Inl (writeError 400 ''EntityTooSmall'' ''Your proposed upload is smaller than the minimum allowed size.'' h), g)
           else (case hex_decode (mp_etag sp) of
              None \<Rightarrow> (Inl (writeError 500 ''InternalError'' ''corrupt part etag'' h), g)
            | Some raw \<Rightarrow>
                (case on_db (GetMultipartPartChunks uploadID (cp_num cp)) g of
                   (Inl e, g') \<Rightarrow> (Inl (internalError e h), g')
                 | (Inr partChunks, g') \<Rightarrow>
                     complete_loop uploadID stored h rest (cp_num cp) (md5s @ raw) (append_part partChunks acc) g'))))"

definition completeMultipartUpload :: "'w env \<Rightarrow> time \<Rightarrow> request \<Rightarrow> string \<Rightarrow> string \<Rightarrow> string \<Rightarrow> (string \<times> string) list \<Rightarrow>
    'w gw \<Rightarrow> response \<times> 'w gw" where
  "completeMultipartUpload E now r bucket key uploadID h g =
     (case resolveUpload E bucket key uploadID h g of
        (Inl resp, g1) \<Rightarrow> (resp, g1)
      | (Inr u, g1) \<Rightarrow>
          (case ev_xmlComplete E (rq_body r) of
             None \<Rightarrow> (writeError 400 ''MalformedXML'' ''The XML you provided was not well-formed or did not validate.'' h, g1)
           | Some parts \<Rightarrow>
               if parts = []
               then (writeError 400 ''MalformedXML'' ''The XML you provided was not well-formed or did not validate.'' h, g1)
               else (case on_db (ListMultipartParts uploadID) g1 of
                  (Inl e, g2) \<Rightarrow> (internalError e h, g2)
                | (Inr stored, g2) \<Rightarrow>
                    (case complete_loop uploadID (map_of (map (\<lambda>p. (mp_num p, p)) (rev stored))) h parts 0 [] (0, 0, []) g2 of
                       (Inl resp, g3) \<Rightarrow> (resp, g3)
                     | (Inr (md5s, tot, final), g3) \<Rightarrow>
                         let objectETag = hex_encode (ev_md5 E md5s) @ ''-'' @ FormatInt (int (length parts));
                             (meta, g4) = query_or [] (GetMultipartUploadMetadata uploadID) g3;
                             obj = \<lparr>ob_bucket = bucket, ob_key = key, ob_size = tot, ob_etag = objectETag,
                               ob_ctype = mu_ctype u, ob_created = zero_time, ob_updated = zero_time, ob_meta = meta\<rparr>;
                             (oldChunks, g5) = query_or [] (GetObjectChunks bucket key) g4
                         in (case on_db (FinalizeMultipartUpload now obj final uploadID) g5 of
                               (Inl e, g6) \<Rightarrow> (internalError e h, g6)
                             | (Inr _, g6) \<Rightarrow>
                                 (writeXML 200 (XComplete (''/'' @ bucket @ ''/'' @ key) bucket key (quoteETag objectETag)) h,
                                  reapSupersededChunks E oldChunks g6))))))"

section \<open>Aborting and listing\<close>

definition abortUploadInternal :: "'w env \<Rightarrow> string \<Rightarrow> ('w gw, unit) act" where
  "abortUploadInternal E uploadID g =
     (case on_db (AllMultipartChunks uploadID) g of
        (Inl e, g1) \<Rightarrow> (Inl e, g1)
      | (Inr chunks, g1) \<Rightarrow> on_db (DeleteMultipartUpload uploadID) (delete_refs E (chunkRefs chunks) g1))"

definition abortMultipartUpload :: "'w env \<Rightarrow> string \<Rightarrow> string \<Rightarrow> string \<Rightarrow> (string \<times> string) list \<Rightarrow> 'w gw \<Rightarrow> response \<times> 'w gw" where
  "abortMultipartUpload E bucket key uploadID h g =
     (case resolveUpload E bucket key uploadID h g of
        (Inl resp, g1) \<Rightarrow> (resp, g1)
      | (Inr u, g1) \<Rightarrow>
          (case abortUploadInternal E uploadID g1 of
             (Inl e, g2) \<Rightarrow> (internalError e h, g2)
           | (Inr _, g2) \<Rightarrow> (writeHeader 204 h, g2)))"

definition listParts :: "'w env \<Rightarrow> time \<Rightarrow> string \<Rightarrow> string \<Rightarrow> string \<Rightarrow> (string \<times> string) list \<Rightarrow> 'w gw \<Rightarrow> response \<times> 'w gw" where
  "listParts E now bucket key uploadID h g =
     (case resolveUpload E bucket key uploadID h g of
        (Inl resp, g1) \<Rightarrow> (resp, g1)
      | (Inr u, g1) \<Rightarrow>
          (case on_db (ListMultipartParts uploadID) g1 of
             (Inl e, g2) \<Rightarrow> (internalError e h, g2)
           | (Inr parts, g2) \<Rightarrow>
               (writeXML 200 (XParts bucket key uploadID ''STANDARD''
                  (map (\<lambda>p. \<lparr>lp_num = mp_num p, lp_etag = quoteETag (mp_etag p), lp_size = mp_size p,
                     lp_modified = ev_rfc3339 E now\<rparr>) parts)) h, g2)))"

section \<open>The janitor\<close>

text \<open>
  The text of a timestamp, \<^verbatim>\<open>Format(time.RFC3339Nano)\<close> in UTC: the date and the time of day to the second
  (the parameter \<open>secText\<close>), the fraction without trailing zeros, and the zone.
\<close>

definition pad9 :: "nat \<Rightarrow> string" where
  "pad9 n = (let d = format_nat 10 n in replicate (9 - length d) CHR ''0'' @ d)"

definition fraction_text :: "int \<Rightarrow> string" where
  "fraction_text ns = (if ns = 0 then [] else ''.'' @ TrimRight (pad9 (nat ns)) ''0'')"

definition rfc3339nano :: "(int \<Rightarrow> string) \<Rightarrow> time \<Rightarrow> string" where
  "rfc3339nano secText t = secText (t div second) @ fraction_text (t mod second) @ ''Z''"

text \<open>\<^verbatim>\<open>StaleMultipartUploads\<close> compares and orders the texts of \<^verbatim>\<open>created_at\<close>.\<close>

definition StaleMultipartUploads :: "(int \<Rightarrow> string) \<Rightarrow> time \<Rightarrow> (db, mpu list) act" where
  "StaleMultipartUploads secText before = query (\<lambda>t. map upload_of_row
     (sort_key (\<lambda>r. rfc3339nano secText (u_created r))
       (filter (\<lambda>r. rfc3339nano secText (u_created r) < rfc3339nano secText before) (t_uploads t))))"

fun abort_all :: "'w env \<Rightarrow> mpu list \<Rightarrow> 'w gw \<Rightarrow> 'w gw" where
  "abort_all E [] g = g"
| "abort_all E (u # us) g = abort_all E us (snd (abortUploadInternal E (mu_id u) g))"

definition sweepStaleMultipartUploads :: "'w env \<Rightarrow> (int \<Rightarrow> string) \<Rightarrow> time \<Rightarrow> time \<Rightarrow> 'w gw \<Rightarrow> 'w gw" where
  "sweepStaleMultipartUploads E secText now ttl g =
     (case on_db (StaleMultipartUploads secText (now - ttl)) g of
        (Inl e, g') \<Rightarrow> g'
      | (Inr stale, g') \<Rightarrow> abort_all E stale g')"

text \<open>The janitor's loop on its ticks until the context is cancelled.\<close>

fun RunMultipartJanitor :: "'w env \<Rightarrow> (int \<Rightarrow> string) \<Rightarrow> time \<Rightarrow> time \<Rightarrow> time list \<Rightarrow> 'w gw \<Rightarrow> 'w gw" where
  "RunMultipartJanitor E secText interval ttl [] g = g"
| "RunMultipartJanitor E secText interval ttl (tick # ticks) g =
     (if interval \<le> 0 then g
      else RunMultipartJanitor E secText interval ttl ticks (sweepStaleMultipartUploads E secText tick ttl g))"

end
