(* ===== verification/Router.thy ===== *)
theory Router
  imports MultipartHandlers
begin

text \<open>
  \<^verbatim>\<open>ServeHTTP\<close> of \<^verbatim>\<open>internal/s3api/handler.go\<close> with its authentication gate and its switch, and the bucket
  subresources of \<^verbatim>\<open>subresource.go\<close>.
\<close>

section \<open>Subresources\<close>

definition s3XMLNS :: string where
  "s3XMLNS = ''http://s3.amazonaws.com/doc/2006-03-01/''"

definition bucketSubresourceKeys :: "string list" where
  "bucketSubresourceKeys =
     [''location'', ''versioning'', ''acl'', ''cors'', ''tagging'', ''policy'', ''lifecycle'', ''website'', ''encryption'',
      ''object-lock'', ''notification'', ''logging'', ''replication'', ''accelerate'', ''requestPayment'', ''uploads'',
      ''versions'', ''ownershipControls'', ''publicAccessBlock'', ''analytics'', ''metrics'', ''inventory'',
      ''intelligent-tiering'']"

definition isBucketSubresource :: "url_values \<Rightarrow> bool" where
  "isBucketSubresource q = list_ex (values_has q) bucketSubresourceKeys"

definition listMultipartUploads :: "'w env \<Rightarrow> string \<Rightarrow> (string \<times> string) list \<Rightarrow> 'w gw \<Rightarrow> response \<times> 'w gw" where
  "listMultipartUploads E bucket h g =
     (case on_db (ListMultipartUploads bucket) g of
        (Inl e, g') \<Rightarrow> (internalError e h, g')
      | (Inr uploads, g') \<Rightarrow>
          (writeXML 200 (XUploads bucket 1000 False
             (map (\<lambda>u. \<lparr>ue_key = mu_key u, ue_id = mu_id u, ue_initiated = ev_listTime E (mu_created u)\<rparr>) uploads)) h, g'))"

definition listObjectVersions :: "'w env \<Rightarrow> string \<Rightarrow> url_values \<Rightarrow> (string \<times> string) list \<Rightarrow> 'w gw \<Rightarrow> response \<times> 'w gw" where
  "listObjectVersions E bucket q h g =
     (let pre = values_get q ''prefix'';
          delim = values_get q ''delimiter'';
          keyMarker = values_get q ''key-marker'';
          urlEncode = (values_get q ''encoding-type'' = ''url'');
          maxKeys = maxKeysOrDefault (fst (Atoi (values_get q ''max-keys'')))
      in case on_db (ListObjectsPage \<lparr>lp_bucket = bucket, lp_prefix = pre, lp_delim = delim, lp_after = keyMarker,
             lp_max = maxKeys\<rparr>) g of
           (Inl e, g') \<Rightarrow> (internalError e h, g')
         | (Inr page, g') \<Rightarrow>
             let enc = list_enc urlEncode;
                 ak = ac_access (ev_auth E)
             in (writeXML 200 (XVersions \<lparr>vr_name = bucket, vr_prefix = enc pre, vr_marker = enc keyMarker,
                   vr_next = (if pg_truncated page then enc (pg_next page) else []), vr_max = maxKeys,
                   vr_delim = enc delim, vr_truncated = pg_truncated page,
                   vr_encoding = (if urlEncode then ''url'' else []),
                   vr_versions = map (\<lambda>obj. \<lparr>ve_key = enc (ob_key obj), ve_version = ''null'', ve_latest = True,
                     ve_modified = ev_listTime E (ob_updated obj), ve_etag = quoteETag (ob_etag obj),
                     ve_size = ob_size obj, ve_class = ''STANDARD'', ve_owner = \<lparr>ow_id = ak, ow_name = ak\<rparr>\<rparr>) (pg_objects page),
                   vr_prefixes = map enc (pg_prefixes page)\<rparr>) h, g'))"

definition canned :: "string \<Rightarrow> (string \<times> string) list \<Rightarrow> response" where
  "canned root h = writeXMLString 200
     (''<'' @ root @ '' xmlns='' @ [dquote] @ s3XMLNS @ [dquote] @ ''></'' @ root @ ''>'') h"

definition acl_text :: "'w env \<Rightarrow> string" where
  "acl_text E =
     (let i = ev_xmlEscape E (ac_access (ev_auth E)); qd = [dquote] in
      ''<AccessControlPolicy xmlns='' @ qd @ s3XMLNS @ qd @ ''><Owner><ID>'' @ i @ ''</ID><DisplayName>'' @ i @
      ''</DisplayName></Owner><AccessControlList><Grant><Grantee xmlns:xsi='' @ qd @
      ''http://www.w3.org/2001/XMLSchema-instance'' @ qd @ '' xsi:type='' @ qd @ ''CanonicalUser'' @ qd @ ''><ID>'' @ i @
      ''</ID><DisplayName>'' @ i @
      ''</DisplayName></Grantee><Permission>FULL_CONTROL</Permission></Grant></AccessControlList></AccessControlPolicy>'')"

definition bucketSubresource :: "'w env \<Rightarrow> request \<Rightarrow> string \<Rightarrow> (string \<times> string) list \<Rightarrow> 'w gw \<Rightarrow> response \<times> 'w gw" where
  "bucketSubresource E r bucket h g =
     (case on_db (BucketExists bucket) g of
        (Inl e, g1) \<Rightarrow> (internalError e h, g1)
      | (Inr exists, g1) \<Rightarrow>
          let q = rq_query r in
          if \<not> exists then (writeError 404 ''NoSuchBucket'' ''The specified bucket does not exist.'' h, g1)
          else if rq_method r = ''PUT'' then (writeHeader 200 h, g1)
          else if rq_method r = ''DELETE'' then (writeHeader 204 h, g1)
          else if values_has q ''uploads'' then listMultipartUploads E bucket h g1
          else if values_has q ''versions'' then listObjectVersions E bucket q h g1
          else if values_has q ''location'' then (canned ''LocationConstraint'' h, g1)
          else if values_has q ''versioning'' then (canned ''VersioningConfiguration'' h, g1)
          else if values_has q ''accelerate'' then (canned ''AccelerateConfiguration'' h, g1)
          else if values_has q ''notification'' then (canned ''NotificationConfiguration'' h, g1)
          else if values_has q ''logging'' then (canned ''BucketLoggingStatus'' h, g1)
          else if values_has q ''requestPayment'' then
            (writeXMLString 200 (''<RequestPaymentConfiguration xmlns='' @ [dquote] @ s3XMLNS @ [dquote] @
               ''><Payer>BucketOwner</Payer></RequestPaymentConfiguration>'') h, g1)
          else if values_has q ''acl'' then (writeXMLString 200 (acl_text E) h, g1)
          else if values_has q ''cors'' then
            (writeError 404 ''NoSuchCORSConfiguration'' ''The CORS configuration does not exist.'' h, g1)
          else if values_has q ''tagging'' then
            (writeError 404 ''NoSuchTagSet'' ''There is no tag set associated with the bucket.'' h, g1)
          else if values_has q ''policy'' then
            (writeError 404 ''NoSuchBucketPolicy'' ''The bucket policy does not exist.'' h, g1)
          else if values_has q ''lifecycle'' then
            (writeError 404 ''NoSuchLifecycleConfiguration'' ''The lifecycle configuration does not exist.'' h, g1)
          else if values_has q ''website'' then
            (writeError 404 ''NoSuchWebsiteConfiguration'' ''The specified bucket does not have a website configuration.'' h, g1)
          else if values_has q ''encryption'' then
            (writeError 404 ''ServerSideEncryptionConfigurationNotFoundError''
               ''The server side encryption configuration was not found.'' h, g1)
          else if values_has q ''object-lock'' then
            (writeError 404 ''ObjectLockConfigurationNotFoundError''
               ''Object Lock configuration does not exist for this bucket.'' h, g1)
          else if values_has q ''replication'' then
            (writeError 404 ''ReplicationConfigurationNotFoundError'' ''The replication configuration was not found.'' h, g1)
          else if values_has q ''ownershipControls'' then
            (writeError 404 ''OwnershipControlsNotFoundError'' ''The bucket ownership controls were not found.'' h, g1)
          else if values_has q ''publicAccessBlock'' then
            (writeError 404 ''NoSuchPublicAccessBlockConfiguration''
               ''The public access block configuration was not found.'' h, g1)
          else (writeError 404 ''NoSuchConfiguration'' ''The specified configuration does not exist.'' h, g1))"

section \<open>Routing\<close>

definition setCORS :: "request \<Rightarrow> (string \<times> string) list \<Rightarrow> (string \<times> string) list" where
  "setCORS r h =
     (let reqHeaders = (if hdr r ''Access-Control-Request-Headers'' = [] then ''*''
            else hdr r ''Access-Control-Request-Headers'') in
      header_set ''Access-Control-Max-Age'' ''3000''
        (header_set ''Access-Control-Expose-Headers''
           ''ETag, Content-Range, Accept-Ranges, Content-Length, x-amz-request-id''
          (header_set ''Access-Control-Allow-Headers'' reqHeaders
            (header_set ''Access-Control-Allow-Methods'' ''GET, PUT, POST, DELETE, HEAD''
              (header_set ''Access-Control-Allow-Origin'' ''*'' h)))))"

definition newRequestID :: "bytes \<Rightarrow> string" where
  "newRequestID rnd = hex_encode rnd"

text \<open>The switch of \<^verbatim>\<open>ServeHTTP\<close>, in the order of its cases.\<close>

definition route :: "'w env \<Rightarrow> time \<Rightarrow> bytes \<Rightarrow> request \<Rightarrow> string \<Rightarrow> string \<Rightarrow> (string \<times> string) list \<Rightarrow> 'w gw \<Rightarrow>
    (response \<times> 'w gw) option" where
  "route E now rnd r bucket key h g =
     (let m = rq_method r; q = rq_query r;
          hasUploads = values_has q ''uploads'';
          hasDelete = values_has q ''delete'';
          uploadID = values_get q ''uploadId''
      in if m = ''GET'' \<and> bucket = [] then Some (listBuckets E h g)
         else if bucket \<noteq> [] \<and> key = [] \<and> m \<noteq> ''POST'' \<and> isBucketSubresource q then Some (bucketSubresource E r bucket h g)
         else if m = ''PUT'' \<and> bucket \<noteq> [] \<and> key = [] then Some (createBucket E now bucket h g)
         else if m = ''HEAD'' \<and> bucket \<noteq> [] \<and> key = [] then Some (headBucket E bucket h g)
         else if m = ''DELETE'' \<and> bucket \<noteq> [] \<and> key = [] then Some (deleteBucket E bucket h g)
         else if m = ''POST'' \<and> bucket \<noteq> [] \<and> key = [] \<and> hasDelete then Some (deleteObjects E r bucket h g)
         else if m = ''POST'' \<and> bucket \<noteq> [] \<and> key \<noteq> [] \<and> hasUploads
         then Some (createMultipartUpload E now rnd r bucket key h g)
         else if m = ''PUT'' \<and> bucket \<noteq> [] \<and> key \<noteq> [] \<and> uploadID \<noteq> [] \<and> values_get q ''partNumber'' \<noteq> []
         then uploadPart E now r bucket key uploadID (values_get q ''partNumber'') h g
         else if m = ''POST'' \<and> bucket \<noteq> [] \<and> key \<noteq> [] \<and> uploadID \<noteq> []
         then Some (completeMultipartUpload E now r bucket key uploadID h g)
         else if m = ''DELETE'' \<and> bucket \<noteq> [] \<and> key \<noteq> [] \<and> uploadID \<noteq> []
         then Some (abortMultipartUpload E bucket key uploadID h g)
         else if m = ''GET'' \<and> bucket \<noteq> [] \<and> key \<noteq> [] \<and> uploadID \<noteq> []
         then Some (listParts E now bucket key uploadID h g)
         else if m = ''PUT'' \<and> bucket \<noteq> [] \<and> key \<noteq> [] then putObject E now r bucket key h g
         else if m = ''GET'' \<and> bucket \<noteq> [] \<and> key \<noteq> [] then Some (getObject E r bucket key h g)
         else if m = ''HEAD'' \<and> bucket \<noteq> [] \<and> key \<noteq> [] then Some (headObject E r bucket key h g)
         else if m = ''DELETE'' \<and> bucket \<noteq> [] \<and> key \<noteq> [] then Some (deleteObject E bucket key h g)
         else if m = ''GET'' \<and> bucket \<noteq> [] then Some (listObjects E r bucket h g)
         else Some (writeError 501 ''NotImplemented'' ''This S3 operation is not implemented yet.'' h, g))"

definition publicObjectRead :: "request \<Rightarrow> string \<Rightarrow> string \<Rightarrow> bool" where
  "publicObjectRead r bucket key \<longleftrightarrow> (rq_method r = ''GET'' \<or> rq_method r = ''HEAD'') \<and> bucket \<noteq> [] \<and> key \<noteq> []"

definition ServeHTTP :: "'w env \<Rightarrow> time \<Rightarrow> bytes \<Rightarrow> bytes \<Rightarrow> request \<Rightarrow> 'w gw \<Rightarrow> (response \<times> 'w gw) option" where
  "ServeHTTP E now rnd rid r g =
     (if rq_path r = ''/healthz'' then Some (writeHeader 204 [], g)
      else
        let h = header_set ''x-amz-request-id'' (newRequestID rid) (setCORS r []) in
        if rq_method r = ''OPTIONS'' then Some (writeHeader 200 h, g)
        else
          let (bucket, key) = splitBucketKey (ev_auth E) r in
          if \<not> publicObjectRead r bucket key \<and> \<not> authorized (ev_crypto E) (ev_auth E) now r
          then Some (writeError 403 ''SignatureDoesNotMatch''
                 ''The request signature we calculated does not match the signature you provided.'' h, g)
          else route E now rnd r bucket key h g)"

end
