(* ===== verification/Keepalive.thy ===== *)
theory Keepalive
  imports Gateway
begin

text \<open>
  \<^verbatim>\<open>internal/keepalive/keepalive.go\<close>: the sweep that walks the object keys in rotating windows, repairs
  the chunks of each object and stores the repaired replicas.
\<close>

record sweeper =
  sw_sample :: int
  sw_cursor :: int

definition NewSweeper :: "int \<Rightarrow> sweeper" where
  "NewSweeper sample = \<lparr>sw_sample = sample, sw_cursor = 0\<rparr>"

definition toStorageReplicas :: "mreplica list \<Rightarrow> replica list" where
  "toStorageReplicas reps = map storage_replica (filter mr_alive reps) @ map storage_replica (filter (\<lambda>r. \<not> mr_alive r) reps)"

definition fromStorageReplicas :: "replica list \<Rightarrow> mreplica list" where
  "fromStorageReplicas reps = map (\<lambda>r. \<lparr>mr_provider = rp_provider r, mr_locator = rp_locator r,
     mr_token = rp_token r, mr_alive = True\<rparr>) reps"

text \<open>The window of a tick and the cursor it leaves.\<close>

definition sweep_window :: "'k list \<Rightarrow> sweeper \<Rightarrow> 'k list \<times> sweeper" where
  "sweep_window keys s =
     (if sw_sample s > 0 \<and> sw_sample s < int (length keys) then
        let n = int (length keys);
            start = sw_cursor s mod n
        in (map (\<lambda>i. keys ! nat ((start + int i) mod n)) [0..<nat (sw_sample s)],
            s\<lparr>sw_cursor := (start + sw_sample s) mod n\<rparr>)
      else (keys, s))"

text \<open>
  The chunks of one object. \<open>repair\<close> is the call of \<^verbatim>\<open>RepairChunk\<close> with whatever else the gateway does
  until it returns: it reads and uploads whole chunks, and requests go on meanwhile, so the call may
  change the database too. The two counters are those of the log line.
\<close>

fun sweep_chunks :: "(chunk_ref \<Rightarrow> ('w gw, chunk_ref \<times> bool) act) \<Rightarrow> string \<Rightarrow> string \<Rightarrow> mchunk list \<Rightarrow>
    nat \<times> nat \<Rightarrow> 'w gw \<Rightarrow> (nat \<times> nat) \<times> 'w gw" where
  "sweep_chunks repair b k [] n g = (n, g)"
| "sweep_chunks repair b k (c # cs) (repaired, lost) g =
     (case repair \<lparr>cr_size = mc_size c, cr_replicas = toStorageReplicas (mc_replicas c)\<rparr> g of
        (Inl e, g1) \<Rightarrow> sweep_chunks repair b k cs (repaired, lost + 1) g1
      | (Inr (newRef, changed), g1) \<Rightarrow>
          if \<not> changed then sweep_chunks repair b k cs (repaired, lost) g1
          else (case on_db (UpdateChunkReplicas b k (mc_seq c) (fromStorageReplicas (cr_replicas newRef))) g1 of
             (Inl e, g2) \<Rightarrow> sweep_chunks repair b k cs (repaired, lost) g2
           | (Inr _, g2) \<Rightarrow> sweep_chunks repair b k cs (repaired + 1, lost) g2))"

text \<open>\<open>live\<close> is the number of objects after which the context is cancelled, if it is.\<close>

fun sweep_objects :: "(chunk_ref \<Rightarrow> ('w gw, chunk_ref \<times> bool) act) \<Rightarrow> nat option \<Rightarrow> (string \<times> string) list \<Rightarrow>
    nat \<times> nat \<Rightarrow> 'w gw \<Rightarrow> goerr option \<times> (nat \<times> nat) \<times> 'w gw" where
  "sweep_objects repair live [] n g = (None, n, g)"
| "sweep_objects repair live ((b, k) # ks) n g =
     (if live = Some 0 then (Some ErrCtx, n, g)
      else
        let live' = map_option (\<lambda>i. i - 1) live in
        (case on_db (GetObjectChunks b k) g of
           (Inl e, g1) \<Rightarrow> sweep_objects repair live' ks n g1
         | (Inr chunks, g1) \<Rightarrow>
             (case sweep_chunks repair b k chunks n g1 of (n', g2) \<Rightarrow> sweep_objects repair live' ks n' g2)))"

definition RunOnce :: "(chunk_ref \<Rightarrow> ('w gw, chunk_ref \<times> bool) act) \<Rightarrow> nat option \<Rightarrow> sweeper \<Rightarrow> 'w gw \<Rightarrow>
    (goerr option \<times> nat \<times> nat) \<times> sweeper \<times> 'w gw" where
  "RunOnce repair live s g =
     (case on_db AllObjectKeys g of
        (Inl e, g1) \<Rightarrow> ((Some e, 0, 0), s, g1)
      | (Inr keys, g1) \<Rightarrow>
          if keys = [] then ((None, 0, 0), s, g1)
          else (case sweep_window keys s of
             (win, s') \<Rightarrow>
               (case sweep_objects repair live win (0, 0) g1 of
                  (err, (repaired, lost), g2) \<Rightarrow> ((err, repaired, lost), s', g2))))"

text \<open>The loop on its ticks.\<close>

fun Run :: "(chunk_ref \<Rightarrow> ('w gw, chunk_ref \<times> bool) act) \<Rightarrow> time \<Rightarrow> nat \<Rightarrow> sweeper \<Rightarrow> 'w gw \<Rightarrow> sweeper \<times> 'w gw" where
  "Run repair interval 0 s g = (s, g)"
| "Run repair interval (Suc n) s g =
     (if interval \<le> 0 then (s, g)
      else (case RunOnce repair None s g of (_, s', g') \<Rightarrow> Run repair interval n s' g'))"

end
