(* ===== verification/GatewayInv.thy ===== *)
theory GatewayInv
  imports StoreLayout BackendProps Router Keepalive
begin

text \<open>
  What every request, background replica, janitor sweep and keep-alive sweep keeps of the database. A
  property of the database that its queries and the gateway's writes keep (the locales \<open>db_reader\<close> and
  \<open>db_writer\<close>) is kept by every handler. Interpreted on the tables being unchanged this says what a
  request that only reads may do; interpreted on the layout of the objects it is the invariant that
  the read path relies on.
\<close>

section \<open>What an upload hands to the store\<close>

text \<open>The count of a counting reader is the number of bytes it delivered, whatever it reads from.\<close>

lemma read_at_least_counts:
  assumes "read_at_least (counting_Read rd) n acc r = Some (bs, e, r')"
  shows "ct_n r' - ct_n r = int (length bs) - int (length acc)"
proof -
  let ?P = "\<lambda>f (n :: nat) acc r y. f = counting_Read rd \<longrightarrow> ct_n (snd (snd y)) - ct_n r = int (length (fst y)) - int (length acc)"
  have "?P (counting_Read rd) n acc r (bs, e, r')"
  proof (rule read_at_least.raw_induct [OF _ assms, where P = ?P], intro impI)
    fix ral f n acc r y
    assume IH: "\<And>f n acc r y. ral f n acc r = Some y \<Longrightarrow> ?P f n acc r y" and f: "f = counting_Read rd"
      and run: "(if n \<le> length acc then Some (acc, None, r)
        else case f r (n - length acc) of
             (bs, None, r') \<Rightarrow> ral f n (acc @ bs) r'
             | (bs, Some err, r') \<Rightarrow> Some (acc @ bs, Some err, r')) = Some y"
    obtain bs e r' where rd: "f r (n - length acc) = (bs, e, r')" by (metis prod_cases3)
    then have "ct_n r' = ct_n r + int (length bs)" using f by (auto simp: counting_Read_def split: prod.splits)
    with run rd IH [of f n "acc @ bs" r' y] f
    show "ct_n (snd (snd y)) - ct_n r = int (length (fst y)) - int (length acc)"
      by (auto split: if_splits option.splits)
  qed
  then show ?thesis by simp
qed

lemma ReadFull_counts:
  "ReadFull (counting_Read rd) n r = Some (bs, e, r') \<Longrightarrow> ct_n r' = ct_n r + int (length bs)"
  by (auto simp: ReadFull_def dest!: read_at_least_counts)

lemma ReadFull_full:
  assumes "ReadFull rd n r = Some (bs, None, r')"
  shows "n \<le> length bs"
proof -
  let ?P = "\<lambda>f n acc (r :: 'a) y. fst (snd y) = None \<longrightarrow> n \<le> length (fst y)"
  have "?P rd n acc r y" if "read_at_least rd n acc r = Some y" for acc y
    by (rule read_at_least.raw_induct [OF _ that, where P = ?P]) (auto split: if_splits prod.splits option.splits)
  from this [of "[]"] assms show ?thesis by (fastforce simp: ReadFull_def split: if_splits)
qed

text \<open>The shape \<^verbatim>\<open>uploadChunk\<close> gives a chunk.\<close>

definition chunk_shape :: "(nat \<Rightarrow> int \<Rightarrow> bytes \<Rightarrow> ('s, chunk) act) \<Rightarrow> bool" where
  "chunk_shape uc \<longleftrightarrow> (\<forall>seq off data s c s'. uc seq off data s = (Inr c, s') \<longrightarrow>
     ch_seq c = seq \<and> ch_offset c = off \<and> ch_size c = int (length data))"

lemma chunk_shapeD:
  assumes "chunk_shape uc" and "uc seq off data s = (Inr c, s')"
  shows "ch_seq c = seq" and "ch_offset c = off" and "ch_size c = int (length data)"
  using assms unfolding chunk_shape_def by blast+

lemma toMetaChunks_snoc: "toMetaChunks (cs @ [c]) = toMetaChunks cs @ toMetaChunks [c]"
  by (simp add: toMetaChunks_def)

lemma toMetaChunks_length [simp]: "length (toMetaChunks cs) = length cs"
  by (simp add: toMetaChunks_def)

lemma upload_loop_laid_out:
  assumes "upload_loop (counting_Read rd) uc sz seq off chunks r s = Some (cs, e, r', s')"
    and "0 < sz" and "chunk_shape uc" and "laid_out 0 0 (toMetaChunks chunks)" and "seq = length chunks" and "off = span (toMetaChunks chunks)"
  shows "laid_out 0 0 (toMetaChunks cs) \<and> (e = None \<longrightarrow> span (toMetaChunks cs) = off + ct_n r' - ct_n r)"
proof -
  let ?P = "\<lambda>f uc (sz :: nat) seq off chunks r s y. f = counting_Read rd \<and> 0 < sz \<and> chunk_shape uc \<and>
      laid_out 0 0 (toMetaChunks chunks) \<and> seq = length chunks \<and> off = span (toMetaChunks chunks) \<longrightarrow>
    (case y of (cs, e, r', s') \<Rightarrow>
      laid_out 0 0 (toMetaChunks cs) \<and> (e = None \<longrightarrow> span (toMetaChunks cs) = off + ct_n r' - ct_n r))"
  have "?P (counting_Read rd) uc sz seq off chunks r s (cs, e, r', s')"
  proof (rule upload_loop.raw_induct [OF _ assms(1), where P = ?P], intro impI)
    fix ul f uc sz seq off chunks r s y
    assume IH: "\<And>f uc sz seq off chunks r s y. ul f uc sz seq off chunks r s = Some y \<Longrightarrow> ?P f uc sz seq off chunks r s y"
      and pre: "f = counting_Read rd \<and> 0 < sz \<and> chunk_shape uc \<and> laid_out 0 0 (toMetaChunks chunks) \<and>
        seq = length chunks \<and> off = span (toMetaChunks chunks)"
      and run: "(case ReadFull f sz r of None \<Rightarrow> None
        | Some (data, rerr, r') \<Rightarrow>
            case if data \<noteq> []
                 then case uc seq off data s of
                      (Inl e, s') \<Rightarrow> (Some e, chunks, off, s')
                      | (Inr c, s') \<Rightarrow> (None, chunks @ [c], off + int (length data), s')
                 else (None, chunks, off, s) of
            (None, chunks', offset', s') \<Rightarrow>
              if rerr = Some ErrEOF \<or> rerr = Some ErrUnexpectedEOF then Some (chunks', None, r', s')
              else if rerr \<noteq> None then Some (chunks', rerr, r', s')
              else ul f uc sz (seq + 1) offset' chunks' r' s'
            | (Some e, chunks', x, s') \<Rightarrow> Some (chunks', Some e, r', s')) = Some y"
    show "case y of (cs, e, r', s') \<Rightarrow>
      laid_out 0 0 (toMetaChunks cs) \<and> (e = None \<longrightarrow> span (toMetaChunks cs) = off + ct_n r' - ct_n r)"
    proof -
      obtain data rerr r1 where rf: "ReadFull f sz r = Some (data, rerr, r1)"
        using run by (auto split: option.splits)
      then have n1: "ct_n r1 = ct_n r + int (length data)" using pre by (auto dest: ReadFull_counts)
      have ne: "data \<noteq> []" if "rerr = None" using ReadFull_full [of f sz r data r1] rf that pre by auto
      show ?thesis
      proof (cases "data = []")
        case True
        with run rf pre ne n1 show ?thesis by (auto split: if_splits)
      next
        case False
        obtain res s1 where uc: "uc seq off data s = (res, s1)" by (cases "uc seq off data s")
        show ?thesis
        proof (cases res)
          case (Inl err)
          with False run rf uc pre show ?thesis by auto
        next
          case (Inr c)
          with uc pre have c: "ch_seq c = seq" "ch_offset c = off" "ch_size c = int (length data)"
            using chunk_shapeD [of uc seq off data s c s1] by auto
          have lo: "laid_out 0 0 (toMetaChunks (chunks @ [c]))"
            and sp: "span (toMetaChunks (chunks @ [c])) = off + int (length data)"
            using pre c False by (auto simp: toMetaChunks_snoc laid_out_append) (auto simp: toMetaChunks_def)
          show ?thesis
            using False run rf uc Inr lo sp n1 pre IH [of f uc sz "seq + 1" "off + int (length data)" "chunks @ [c]" r1 s1 y]
            by (auto split: if_splits)
        qed
      qed
    qed
  qed
  with assms(2-) show ?thesis by simp
qed

lemma backend_upload_laid_out:
  assumes "backend_upload E key async b g = Some (cs, e, b', g')"
    and "chunk_shape (ev_chunk E key async)" and "0 < bc_chunkSize (ev_bcfg E)" and "ct_n b = 0"
  shows "laid_out 0 0 (toMetaChunks cs) \<and> (e = None \<longrightarrow> span (toMetaChunks cs) = ct_n b')"
  using assms upload_loop_laid_out [of "tee_Read src_Read" "ev_chunk E key async" "nat (bc_chunkSize (ev_bcfg E))" 0 0 "[]" b "gw_be g" cs e b']
  by (auto simp: backend_upload_def upload_def body_Read_def toMetaChunks_def split: option.splits)

section \<open>Properties of the database that handlers keep\<close>

text \<open>
  \<open>ends P r\<close>: the database in the state of \<open>r\<close> has \<open>P\<close>. The rules follow the shape of the handlers: a
  call of the store whose error is returned, a call whose error is ignored, a choice.
\<close>

definition ends :: "(db \<Rightarrow> bool) \<Rightarrow> 'a \<times> 'w gw \<Rightarrow> bool" where
  "ends P r \<longleftrightarrow> P (gw_db (snd r))"

definition may_end :: "(db \<Rightarrow> bool) \<Rightarrow> ('a \<times> 'w gw) option \<Rightarrow> bool" where
  "may_end P o' \<longleftrightarrow> (case o' of None \<Rightarrow> True | Some r \<Rightarrow> ends P r)"

named_theorems ends_intros

lemma ends_pair [ends_intros]: "P (gw_db g) \<Longrightarrow> ends P (x, g)"
  by (simp add: ends_def)

lemma may_end_Some [ends_intros]: "ends P r \<Longrightarrow> may_end P (Some r)"
  by (simp add: may_end_def)

lemma may_end_None [ends_intros]: "may_end P None"
  by (simp add: may_end_def)

lemma ends_if [ends_intros]:
  "(c \<Longrightarrow> ends P x) \<Longrightarrow> (\<not> c \<Longrightarrow> ends P y) \<Longrightarrow> ends P (if c then x else y)"
  "(c \<Longrightarrow> may_end P x') \<Longrightarrow> (\<not> c \<Longrightarrow> may_end P y') \<Longrightarrow> may_end P (if c then x' else y')"
  by simp_all

lemma ends_triple [ends_intros]:
  "(\<And>x y z. ends P (f x y z)) \<Longrightarrow> ends P (case p of (x, y, z) \<Rightarrow> f x y z)"
  "(\<And>x y z. may_end P (f' x y z)) \<Longrightarrow> may_end P (case p of (x, y, z) \<Rightarrow> f' x y z)"
  by (simp_all split: prod.splits)

lemma ends_call:
  assumes "keeps P m" and "P (gw_db g)"
    and "\<And>e g'. P (gw_db g') \<Longrightarrow> ends Q (a e g')"
    and "\<And>x g'. m (gw_db g) = (Inr x, gw_db g') \<Longrightarrow> gw_be g' = gw_be g \<Longrightarrow> P (gw_db g') \<Longrightarrow> ends Q (b x g')"
  shows "ends Q (case on_db m g of (Inl e, g') \<Rightarrow> a e g' | (Inr x, g') \<Rightarrow> b x g')"
  using assms keepsD' [OF assms(1,2)] by (auto simp: on_db_def split: prod.splits sum.splits)

lemma may_end_call:
  assumes "keeps P m" and "P (gw_db g)"
    and "\<And>e g'. P (gw_db g') \<Longrightarrow> may_end Q (a e g')"
    and "\<And>x g'. m (gw_db g) = (Inr x, gw_db g') \<Longrightarrow> gw_be g' = gw_be g \<Longrightarrow> P (gw_db g') \<Longrightarrow> may_end Q (b x g')"
  shows "may_end Q (case on_db m g of (Inl e, g') \<Rightarrow> a e g' | (Inr x, g') \<Rightarrow> b x g')"
  using assms keepsD' [OF assms(1,2)] by (auto simp: on_db_def split: prod.splits sum.splits)

lemma ends_on_db: "keeps P m \<Longrightarrow> P (gw_db g) \<Longrightarrow> ends P (on_db m g)"
  using keepsD [of P m "gw_db g"] by (auto simp: ends_def on_db_def split: prod.splits)

lemma query_or_keeps: "keeps P m \<Longrightarrow> P (gw_db g) \<Longrightarrow> query_or x m g = (y, g') \<Longrightarrow> P (gw_db g')"
  using keepsD [of P m "gw_db g"] by (auto simp: query_or_def on_db_def split: prod.splits sum.splits)

lemma be_frame [simp]:
  "gw_db (delete_refs E refs g) = gw_db g" "gw_db (deleteChunks E cs g) = gw_db g"
  "gw_db (reapSupersededChunks E ms g) = gw_db g"
  by (simp_all add: delete_refs_def deleteChunks_def reapSupersededChunks_def Let_def)

lemma on_be_frame: "on_be m g = (r, g') \<Longrightarrow> gw_db g' = gw_db g"
  by (auto simp: on_be_def split: prod.splits)

lemma backend_upload_frame: "backend_upload E key async b g = Some (cs, e, b', g') \<Longrightarrow> gw_db g' = gw_db g"
  by (auto simp: backend_upload_def split: option.splits)

lemma openObject_frame: "openObject E obj cs rng g = (r, g') \<Longrightarrow> gw_db g' = gw_db g"
  by (auto simp: openObject_def split: prod.splits if_splits sum.splits dest: on_be_frame)

lemma streamObject_frame: "gw_db (snd (streamObject E obj cs rng st h h0 g)) = gw_db g"
  by (auto simp: streamObject_def split: prod.splits if_splits sum.splits dest: on_be_frame)

text \<open>A property of the tables: what it says does not depend on the faults to come.\<close>

locale db_reader =
  fixes P :: "db \<Rightarrow> bool"
  assumes tables_only: "P d \<Longrightarrow> tabs d' = tabs d \<Longrightarrow> P d'"
begin

lemma query_keeps: "keeps P (query f)"
  by (rule keepsI, erule tables_only) (auto simp: query_def stmt_def split: list.splits option.splits)

lemma row_keeps: "keeps P (\<lambda>d. case rows of [] \<Rightarrow> (Inl e, d) | r # _ \<Rightarrow> (Inr (f r), d))"
  by (rule keepsI) (simp split: list.splits)

lemmas read_rules = keeps_bindE keeps_retE query_keeps row_keeps

lemma chunk_reads:
  "keeps P (GetObjectChunks b k)" "keeps P (GetMultipartPartChunks u n)" "keeps P (AllMultipartChunks u)"
  unfolding GetObjectChunks_def GetMultipartPartChunks_def AllMultipartChunks_def Let_def
  by (auto intro!: keeps_bindE query_keeps keeps_retE split: prod.splits)

lemma row_reads:
  "keeps P (GetObject b k)" "keeps P (GetMultipartUpload u)" "keeps P (ListObjectsPage lp)"
  unfolding GetObject_def GetMultipartUpload_def ListObjectsPage_def by (intro read_rules)+

lemma plain_reads:
  "keeps P (GetObjectMetadata b k)" "keeps P (BucketExists b)" "keeps P ListBuckets" "keeps P AllObjectKeys"
  "keeps P (ListMultipartUploads b)" "keeps P (ListMultipartParts u)" "keeps P (GetMultipartUploadMetadata u)"
  "keeps P (StaleMultipartUploads st before)"
  unfolding GetObjectMetadata_def BucketExists_def ListBuckets_def AllObjectKeys_def ListMultipartUploads_def
    ListMultipartParts_def GetMultipartUploadMetadata_def StaleMultipartUploads_def
  by (rule query_keeps)+

lemmas reads = chunk_reads row_reads plain_reads

lemmas calls = ends_call [where P = P and Q = P] may_end_call [where P = P and Q = P]
lemmas handler_rules = ends_intros calls reads

lemma streamObject_ends: "P (gw_db g) \<Longrightarrow> ends P (streamObject E obj cs rng st h h0 g)"
  by (simp add: ends_def streamObject_frame)

lemma getObject_ends: "P (gw_db g) \<Longrightarrow> ends P (getObject E r b k h g)"
  unfolding getObject_def Let_def by (intro handler_rules streamObject_ends)

lemma headObject_ends: "P (gw_db g) \<Longrightarrow> ends P (headObject E r b k h g)"
  unfolding headObject_def Let_def by (auto intro!: handler_rules)

lemma listing_ends:
  assumes "P (gw_db g)"
  shows "ends P (listBuckets E h g)" "ends P (headBucket E b h g)" "ends P (listObjects E r b h g)"
    "ends P (listMultipartUploads E b h g)" "ends P (listObjectVersions E b q h g)"
  using assms unfolding listBuckets_def headBucket_def listObjects_def listMultipartUploads_def listObjectVersions_def Let_def
  by (auto intro!: handler_rules split: option.splits)

lemma resolveUpload_ends: "P (gw_db g) \<Longrightarrow> ends P (resolveUpload E b k u h g)"
  unfolding resolveUpload_def by (auto intro!: handler_rules)

lemma loadSource_ends: "P (gw_db g) \<Longrightarrow> ends P (loadSource E b k h g)"
  unfolding loadSource_def by (auto intro!: handler_rules)

lemma after_resolve:
  assumes "P (gw_db g)" and "\<And>resp g'. P (gw_db g') \<Longrightarrow> C (a resp g')" and "\<And>u g'. P (gw_db g') \<Longrightarrow> C (c u g')"
  shows "C (case resolveUpload E b k u h g of (Inl resp, g') \<Rightarrow> a resp g' | (Inr u, g') \<Rightarrow> c u g')"
  using resolveUpload_ends [OF assms(1), of E b k u h] assms(2,3) by (auto simp: ends_def split: prod.splits sum.splits)

lemma after_load:
  assumes "P (gw_db g)" and "\<And>resp g'. P (gw_db g') \<Longrightarrow> C (a resp g')" and "\<And>src cs g'. P (gw_db g') \<Longrightarrow> C (c src cs g')"
  shows "C (case loadSource E b k h g of (Inl resp, g') \<Rightarrow> a resp g' | (Inr (src, cs), g') \<Rightarrow> c src cs g')"
  using loadSource_ends [OF assms(1), of E b k h] assms(2,3) by (auto simp: ends_def split: prod.splits sum.splits)

lemma listParts_ends: "P (gw_db g) \<Longrightarrow> ends P (listParts E now b k u h g)"
  unfolding listParts_def by (auto intro!: handler_rules after_resolve [where C = "ends P"])

lemma bucketSubresource_ends: "P (gw_db g) \<Longrightarrow> ends P (bucketSubresource E r b h g)"
  unfolding bucketSubresource_def Let_def by (intro handler_rules listing_ends; assumption?)

text \<open>The requests that need no signature only read.\<close>

lemma public_route_ends:
  assumes "P (gw_db g)" and "publicObjectRead r b k"
  shows "may_end P (route E now rnd r b k h g)"
  using assms unfolding route_def Let_def publicObjectRead_def
  by (auto intro!: ends_intros listParts_ends getObject_ends headObject_ends)

end

section \<open>The requests that write\<close>

text \<open>What the gateway relies on of its environment to hand the store laid-out chunk maps.\<close>

definition env_ok :: "'w env \<Rightarrow> bool" where
  "env_ok E \<longleftrightarrow> 0 < bc_chunkSize (ev_bcfg E) \<and> (\<forall>key async. chunk_shape (ev_chunk E key async))"

definition acc_ok :: "int \<times> int \<times> mchunk list \<Rightarrow> bool" where
  "acc_ok a \<longleftrightarrow> (case a of (seq, tot, final) \<Rightarrow> laid_out 0 0 final \<and> seq = int (length final) \<and> tot = span final)"

lemma append_part_ok: "sized cs \<Longrightarrow> acc_ok a \<Longrightarrow> acc_ok (append_part cs a)"
  by (induction cs a rule: append_part.induct) (auto simp: acc_ok_def sized_def laid_out_append)

lemma validateDecodedSize_got: "validateDecodedSize r got h = Inr sz \<Longrightarrow> sz = got"
  by (auto simp: validateDecodedSize_def Let_def split: if_splits prod.splits)

lemma decoded_bodies [simp]: "ct_n (decodeUpload r) = 0" "ct_n (hashed_body src) = 0"
  by (simp_all add: decodeUpload_def hashed_body_def)

locale db_writer = db_reader P for P :: "db \<Rightarrow> bool" +
  assumes put_keeps: "chunk_map_ok cs (ob_size obj) \<Longrightarrow> keeps P (PutObject now obj cs)"
    and finalize_keeps: "chunk_map_ok cs (ob_size obj) \<Longrightarrow> keeps P (FinalizeMultipartUpload now obj cs u)"
    and part_keeps: "sized cs \<Longrightarrow> keeps P (PutMultipartPart u n e sz cs)"
    and part_sized: "P d \<Longrightarrow> GetMultipartPartChunks u n d = (Inr cs, d') \<Longrightarrow> sized cs"
    and bucket_keeps: "keeps P (CreateBucket now b)" "keeps P (DeleteBucket b)"
    and delete_keeps: "keeps P (DeleteObject b k)"
    and replica_keeps: "keeps P (UpdateChunkReplicas b k s reps)" "keeps P (AppendChunkReplica b k s rep e)"
    and upload_keeps: "keeps P (CreateMultipartUpload now u b k ct)" "keeps P (PutMultipartUploadMetadata u kv)"
      "keeps P (DeleteMultipartUpload u)"
begin

lemmas write_rules = handler_rules bucket_keeps delete_keeps replica_keeps upload_keeps

lemma bucket_ends: "P (gw_db g) \<Longrightarrow> ends P (createBucket E now b h g)" "P (gw_db g) \<Longrightarrow> ends P (deleteBucket E b h g)"
  unfolding createBucket_def deleteBucket_def by (intro write_rules; simp)+

lemma deleteOneObject_ends: "P (gw_db g) \<Longrightarrow> ends P (deleteOneObject E b k g)"
  unfolding deleteOneObject_def by (intro write_rules ends_on_db; simp)

lemma deleteObject_ends: "P (gw_db g) \<Longrightarrow> ends P (deleteObject E b k h g)"
  using deleteOneObject_ends [of g E b k] by (auto simp: deleteObject_def ends_def split: prod.splits sum.splits)

lemma delete_keys_ends: "P (gw_db g) \<Longrightarrow> delete_keys E b quiet ks g = (ds, es, g') \<Longrightarrow> P (gw_db g')"
proof (induction ks arbitrary: g ds es)
  case (Cons k ks)
  obtain r g1 where one: "deleteOneObject E b k g = (r, g1)" by (cases "deleteOneObject E b k g")
  with deleteOneObject_ends [OF Cons.prems(1), of E b k] have "P (gw_db g1)" by (simp add: ends_def)
  with Cons one show ?case by (auto split: prod.splits sum.splits)
qed simp

lemma deleteObjects_ends: "P (gw_db g) \<Longrightarrow> ends P (deleteObjects E r b h g)"
  by (auto simp: deleteObjects_def ends_def split: option.splits prod.splits dest: delete_keys_ends)

lemma after_query:
  assumes "keeps P m" and "P (gw_db g)" and "\<And>x g'. P (gw_db g') \<Longrightarrow> C (f x g')"
  shows "C (case query_or d m g of (x, g') \<Rightarrow> f x g')"
    and "C (case (if c then (y, g) else query_or d m g) of (x, g') \<Rightarrow> f x g')"
  using query_or_keeps [OF assms(1,2)] assms(2,3) by (auto split: prod.splits)

lemma after_upload:
  assumes "env_ok E" and "P (gw_db g)" and "ct_n b = 0"
    and "\<And>cs e b' g'. P (gw_db g') \<Longrightarrow> may_end P (err cs e b' g')"
    and "\<And>cs b' g'. P (gw_db g') \<Longrightarrow> chunk_map_ok (toMetaChunks cs) (ct_n b') \<Longrightarrow> may_end P (ok cs b' g')"
  shows "may_end P (case backend_upload E key async b g of None \<Rightarrow> None
    | Some (cs, Some e, b', g') \<Rightarrow> err cs e b' g' | Some (cs, None, b', g') \<Rightarrow> ok cs b' g')"
proof (cases "backend_upload E key async b g")
  case (Some x)
  obtain cs e b' g' where x: "x = (cs, e, b', g')" by (metis prod_cases4)
  have "P (gw_db g')" using backend_upload_frame Some x assms(2) by metis
  moreover have "chunk_map_ok (toMetaChunks cs) (ct_n b')" if "e = None"
    using backend_upload_laid_out [of E key async b g cs e b' g'] Some x that assms(1,3)
    by (simp add: chunk_map_ok_def env_ok_def)
  ultimately show ?thesis using assms(4,5) Some x by (cases e) auto
qed (simp add: may_end_None)

lemma after_open:
  assumes "P (gw_db g)" and "\<And>e g'. P (gw_db g') \<Longrightarrow> may_end P (a e g')" and "\<And>x g'. P (gw_db g') \<Longrightarrow> may_end P (c x g')"
  shows "may_end P (case openObject E obj cs rng g of (Inl e, g') \<Rightarrow> a e g' | (Inr x, g') \<Rightarrow> c x g')"
  using assms by (auto split: prod.splits sum.splits dest!: openObject_frame)

lemma after_validate:
  assumes "\<And>resp. may_end P (a resp)" and "may_end P (c got)"
  shows "may_end P (case validateDecodedSize r got h of Inl resp \<Rightarrow> a resp | Inr sz \<Rightarrow> c sz)"
  using assms by (auto split: sum.splits dest: validateDecodedSize_got)

lemma upload_failed_ends: "P (gw_db g) \<Longrightarrow> ends P (upload_failed E cs e h g)"
  by (simp add: upload_failed_def ends_def)

lemmas put_rules = write_rules after_query [where C = "may_end P"] after_upload after_open after_validate upload_failed_ends
  after_load [where C = "may_end P"]

lemma copyObject_ends: "env_ok E \<Longrightarrow> P (gw_db g) \<Longrightarrow> may_end P (copyObject E now r b k h g)"
  unfolding copyObject_def Let_def
  by (cases "parseCopySource r") (auto intro!: put_rules put_keeps)

lemma putObject_ends: "env_ok E \<Longrightarrow> P (gw_db g) \<Longrightarrow> may_end P (putObject E now r b k h g)"
  unfolding putObject_def Let_def by (auto intro!: put_rules put_keeps copyObject_ends)

lemma createMultipartUpload_ends: "P (gw_db g) \<Longrightarrow> ends P (createMultipartUpload E now rnd r b k h g)"
  unfolding createMultipartUpload_def Let_def by (intro write_rules; assumption?)

lemma chunk_map_sized: "chunk_map_ok cs sz \<Longrightarrow> sized cs"
  by (auto simp: chunk_map_ok_def intro: laid_out_sized)

lemma uploadPartCopy_ends: "env_ok E \<Longrightarrow> P (gw_db g) \<Longrightarrow> may_end P (uploadPartCopy E now r u n h g)"
  unfolding uploadPartCopy_def Let_def
  by (cases "parseCopySource r") (auto intro!: put_rules part_keeps dest: chunk_map_sized)

lemma uploadPart_ends: "env_ok E \<Longrightarrow> P (gw_db g) \<Longrightarrow> may_end P (uploadPart E now r b k u ns h g)"
  unfolding uploadPart_def Let_def
  by (cases "Atoi ns") (auto intro!: put_rules after_resolve [where C = "may_end P"] part_keeps uploadPartCopy_ends dest: chunk_map_sized)

lemma complete_loop_ends:
  assumes "complete_loop u stored h parts prev md5s acc g = (res, g')" and "acc_ok acc" and "P (gw_db g)"
  shows "P (gw_db g') \<and> (\<forall>md5s' tot final. res = Inr (md5s', tot, final) \<longrightarrow> chunk_map_ok final tot)"
  using assms
proof (induction parts arbitrary: prev md5s acc g)
  case Nil
  then show ?case by (cases acc) (auto simp: acc_ok_def chunk_map_ok_def)
next
  case (Cons cp parts)
  obtain q g1 where q: "on_db (GetMultipartPartChunks u (cp_num cp)) g = (q, g1)" by (metis surj_pair)
  have g1: "P (gw_db g1)" using ends_on_db [OF chunk_reads(2) Cons.prems(3), of u "cp_num cp"] q by (simp add: ends_def)
  have ok: "acc_ok (append_part cs acc)" if "q = Inr cs" for cs
  proof -
    have "GetMultipartPartChunks u (cp_num cp) (gw_db g) = (Inr cs, gw_db g1)"
      using q that by (auto simp: on_db_def split: prod.splits)
    then show ?thesis using part_sized Cons.prems append_part_ok by blast
  qed
  show ?case
  proof (cases "\<exists>cs p m. q = Inr cs \<and> complete_loop u stored h parts p m (append_part cs acc) g1 = (res, g')")
    case True
    then show ?thesis using Cons.IH [OF _ ok g1] by blast
  next
    case False
    then have "(g' = g \<or> g' = g1) \<and> (\<exists>resp. res = Inl resp)"
      using Cons.prems(1) q by (auto split: if_splits option.splits sum.splits)
    then show ?thesis using g1 Cons.prems(3) by auto
  qed
qed

lemma after_complete:
  assumes "P (gw_db g)" and "\<And>resp g'. P (gw_db g') \<Longrightarrow> ends P (a resp g')"
    and "\<And>md5s tot final g'. P (gw_db g') \<Longrightarrow> chunk_map_ok final tot \<Longrightarrow> ends P (c md5s tot final g')"
  shows "ends P (case complete_loop u stored h parts 0 [] (0, 0, []) g of
    (Inl resp, g') \<Rightarrow> a resp g' | (Inr (md5s, tot, final), g') \<Rightarrow> c md5s tot final g')"
proof -
  obtain res g' where run: "complete_loop u stored h parts 0 [] (0, 0, []) g = (res, g')" by (metis surj_pair)
  have "acc_ok (0, 0, [])" by (simp add: acc_ok_def)
  note l = complete_loop_ends [OF run this assms(1)]
  show ?thesis
  proof (cases res)
    case (Inr x)
    obtain md5s tot final where "x = (md5s, tot, final)" by (metis prod_cases3)
    with Inr run l assms(3) show ?thesis by simp
  qed (use run l assms(2) in simp)
qed

lemma completeMultipartUpload_ends: "P (gw_db g) \<Longrightarrow> ends P (completeMultipartUpload E now r b k u h g)"
  unfolding completeMultipartUpload_def Let_def
  by (cases "ev_xmlComplete E (rq_body r)")
     (auto intro!: write_rules after_resolve [where C = "ends P"] after_complete after_query [where C = "ends P"] finalize_keeps)

lemma abortUploadInternal_ends: "P (gw_db g) \<Longrightarrow> ends P (abortUploadInternal E u g)"
  unfolding abortUploadInternal_def by (auto intro!: write_rules ends_on_db)

lemma abortMultipartUpload_ends:
  fixes g :: "'w gw"
  shows "P (gw_db g) \<Longrightarrow> ends P (abortMultipartUpload E b k u h g)"
  unfolding abortMultipartUpload_def
proof (rule after_resolve [where C = "ends P"])
  fix v and g' :: "'w gw" assume "P (gw_db g')"
  with abortUploadInternal_ends [of g' E u]
  show "ends P (case abortUploadInternal E u g' of (Inl e, g2) \<Rightarrow> (internalError e h, g2) | (Inr _, g2) \<Rightarrow> (writeHeader 204 h, g2))"
    by (auto simp: ends_def split: prod.splits sum.splits)
qed (auto simp: ends_def)

section \<open>Every request\<close>

lemmas all_ends = listing_ends getObject_ends headObject_ends listParts_ends bucketSubresource_ends bucket_ends
  deleteObject_ends deleteObjects_ends putObject_ends createMultipartUpload_ends uploadPart_ends
  completeMultipartUpload_ends abortMultipartUpload_ends

lemma route_ends: "env_ok E \<Longrightarrow> P (gw_db g) \<Longrightarrow> may_end P (route E now rnd r b k h g)"
  unfolding route_def Let_def by (intro ends_intros all_ends; assumption)

lemma ServeHTTP_ends: "env_ok E \<Longrightarrow> P (gw_db g) \<Longrightarrow> may_end P (ServeHTTP E now rnd rid r g)"
  unfolding ServeHTTP_def Let_def
  by (cases "splitBucketKey (ev_auth E) r") (auto intro!: ends_intros route_ends)

section \<open>Background work\<close>

lemma persistExtra_keeps: "P (gw_db g) \<Longrightarrow> P (gw_db (persistExtra ok b k e seq rep g))"
  using ends_on_db [OF replica_keeps(2), of g b k "int seq"] by (auto simp: persistExtra_def ends_def)

lemma abort_all_keeps: "P (gw_db g) \<Longrightarrow> P (gw_db (abort_all E us g))"
  by (induction us arbitrary: g) (use abortUploadInternal_ends in \<open>auto simp: ends_def\<close>)

lemma sweepStale_keeps:
  assumes "P (gw_db g)"
  shows "P (gw_db (sweepStaleMultipartUploads E st now ttl g))"
proof -
  obtain q g1 where q: "on_db (StaleMultipartUploads st (now - ttl)) g = (q, g1)" by (metis surj_pair)
  have "P (gw_db g1)" using ends_on_db [OF plain_reads(8) assms, of st "now - ttl"] q by (simp add: ends_def)
  then show ?thesis using q by (cases q) (simp_all add: sweepStaleMultipartUploads_def abort_all_keeps)
qed

lemma sweep_chunks_keeps:
  assumes "\<And>ref. keeps (\<lambda>g. P (gw_db g)) (repair ref)" and "P (gw_db g)"
  shows "P (gw_db (snd (sweep_chunks repair b k cs n g)))"
  using assms(2)
proof (induction cs arbitrary: n g)
  case (Cons c cs)
  obtain rp lost where n: "n = (rp, lost)" by (cases n)
  let ?ref = "\<lparr>cr_size = mc_size c, cr_replicas = toStorageReplicas (mc_replicas c)\<rparr>"
  obtain res g1 where r: "repair ?ref g = (res, g1)" by (cases "repair ?ref g")
  have g1: "P (gw_db g1)" by (rule keepsD' [OF assms(1) Cons.prems r])
  obtain res2 g2 where u: "on_db (UpdateChunkReplicas b k (mc_seq c) (fromStorageReplicas (cr_replicas (fst (projr res))))) g1 = (res2, g2)"
    by (metis surj_pair)
  let ?reps = "fromStorageReplicas (cr_replicas (fst (projr res)))"
  have "P (gw_db g2)" using ends_on_db [OF replica_keeps(1) g1, of b k "mc_seq c" ?reps] u by (simp add: ends_def)
  with Cons.IH g1 r u show ?case by (auto simp: n split: sum.splits prod.splits)
qed simp

lemma sweep_objects_keeps:
  assumes "\<And>ref. keeps (\<lambda>g. P (gw_db g)) (repair ref)" and "P (gw_db g)"
    and "sweep_objects repair live ks n g = (e, n', g')"
  shows "P (gw_db g')"
  using assms(2,3)
proof (induction ks arbitrary: live n g)
  case (Cons bk ks)
  obtain b k where bk: "bk = (b, k)" by (cases bk)
  obtain q g1 where q: "on_db (GetObjectChunks b k) g = (q, g1)" by (metis surj_pair)
  have g1: "P (gw_db g1)" using ends_on_db [OF chunk_reads(1) Cons.prems(1), of b k] q by (simp add: ends_def)
  have "P (gw_db (snd (sweep_chunks repair b k cs n g1)))" for cs by (rule sweep_chunks_keeps [OF assms(1) g1])
  with Cons g1 q bk show ?case by (auto simp: Let_def split: if_splits sum.splits prod.splits) (metis snd_conv)
qed simp

lemma RunOnce_keeps:
  assumes "\<And>ref. keeps (\<lambda>g. P (gw_db g)) (repair ref)" and "P (gw_db g)"
    and "RunOnce repair live s g = (res, s', g')"
  shows "P (gw_db g')"
proof -
  obtain q g1 where q: "on_db AllObjectKeys g = (q, g1)" by (metis surj_pair)
  have g1: "P (gw_db g1)" using ends_on_db [OF plain_reads(4) assms(2)] q by (simp add: ends_def)
  show ?thesis using assms(3) g1 q sweep_objects_keeps [OF assms(1) g1]
    by (auto simp: RunOnce_def split: sum.splits if_splits prod.splits)
qed

end

end
