(* ===== verification/UploadWorld.thy ===== *)
theory UploadWorld
  imports BackendProps
begin

text \<open>
  \<^verbatim>\<open>uploadChunk\<close> beside the hosts: the step relation of \<open>Replicate\<close> with the world of the hosts added, in
  which every upload goroutine calls its host and other requests use the hosts meanwhile. When the
  hosts give out no locator twice and keep what they store, every replica of the returned chunk
  holds the chunk's bytes.
\<close>

section \<open>Uploads in the world\<close>

text \<open>
  A step of \<^verbatim>\<open>uploadChunk\<close> beside the world of the hosts: a goroutine reports what its host answered, the
  loops take a step of their own, or another request uploads or downloads something meanwhile.
\<close>

inductive uw_step :: "'w hosts \<Rightarrow> bytes \<Rightarrow> uc_env \<Rightarrow> uc \<times> 'w \<Rightarrow> uc \<times> 'w \<Rightarrow> bool" for H data E where
  stored:
    "uc_running s = xs @ q # ys \<Longrightarrow> length (uc_chan s) < length (uc_cands s) \<Longrightarrow>
     h_upload H (pv_name q) data fname ct w = (Inr (loc, tok), w') \<Longrightarrow>
     uw_step H data E (s, w) (report_ok q loc tok (s\<lparr>uc_running := xs @ ys\<rparr>), w')"
| refused:
    "uc_running s = xs @ q # ys \<Longrightarrow> length (uc_chan s) < length (uc_cands s) \<Longrightarrow>
     h_upload H (pv_name q) data fname ct w = (Inl e, w') \<Longrightarrow>
     uw_step H data E (s, w) (report_fail q (s\<lparr>uc_running := xs @ ys\<rparr>), w')"
| loops: "uc_step E s s' \<Longrightarrow> uc_log s' = uc_log s \<Longrightarrow> uw_step H data E (s, w) (s', w)"
| others_put: "h_upload H n d fname ct w = (r, w') \<Longrightarrow> uw_step H data E (s, w) (s, w')"
| others_get: "h_download H n l off len w = (r', w') \<Longrightarrow> uw_step H data E (s, w) (s, w')"

abbreviation uw_reach :: "'w hosts \<Rightarrow> bytes \<Rightarrow> uc_env \<Rightarrow> uc \<times> 'w \<Rightarrow> uc \<times> 'w \<Rightarrow> bool" where
  "uw_reach H data E \<equiv> (uw_step H data E)\<^sup>*\<^sup>*"

definition chunk_run :: "'w hosts \<Rightarrow> bytes \<Rightarrow> uc_env \<Rightarrow> pool \<Rightarrow> 'w \<Rightarrow> goerr + chunk \<Rightarrow> 'w \<Rightarrow> bool" where
  "chunk_run H data E p w r w' \<longleftrightarrow>
     (case uploadChunk_start E p of
        Inl e \<Rightarrow> r = Inl e \<and> w' = w
      | Inr s0 \<Rightarrow> (\<exists>s. uw_reach H data E (s0, w) (s, w') \<and> uc_result s = Some r))"

text \<open>
  The hosts' side: an upload is stored under a locator not given out before and leaves the rest alone, a
  download changes nothing stored, a delete affects only its own locator.
\<close>

definition loc_of :: "replica \<Rightarrow> string \<times> string" where
  "loc_of rep = (rp_provider rep, rp_locator rep)"

definition fresh_hosts :: "'w hosts \<Rightarrow> ('w \<Rightarrow> string \<Rightarrow> string \<Rightarrow> bytes option) \<Rightarrow> ('w \<Rightarrow> (string \<times> string) set) \<Rightarrow> bool" where
  "fresh_hosts H blob issued \<longleftrightarrow>
     (\<forall>n data fname ct w r w'. h_upload H n data fname ct w = (r, w') \<longrightarrow>
        issued w \<subseteq> issued w' \<and> (\<forall>(n', l') \<in> issued w. blob w' n' l' = blob w n' l') \<and>
        (\<forall>loc tok. r = Inr (loc, tok) \<longrightarrow> blob w' n loc = Some data \<and> (n, loc) \<in> issued w' - issued w)) \<and>
     (\<forall>n l off len w r w'. h_download H n l off len w = (r, w') \<longrightarrow> issued w' = issued w \<and> blob w' = blob w) \<and>
     (\<forall>n l tok w r w'. h_delete H n l tok w = (r, w') \<longrightarrow> issued w \<subseteq> issued w' \<and>
        (\<forall>n' l'. (n', l') \<noteq> (n, l) \<longrightarrow> blob w' n' l' = blob w n' l'))"

section \<open>What an upload leaves behind\<close>

lemma uw_reach_uc: "uw_reach H data E x y \<Longrightarrow> uc_reach E (fst x) (fst y)"
proof (induction rule: rtranclp_induct)
  case (step y z)
  from step(2) have "uc_reach E (fst y) (fst z)"
    by cases (auto intro: upload_ok upload_fail)
  with step(3) show ?case by (rule rtranclp_trans)
qed simp

text \<open>Every replica in hand holds the chunk, at a locator given out during the call.\<close>

definition replicas_held :: "uc \<Rightarrow> replica set" where
  "replicas_held s = set (uc_synced s) \<union> snd ` set (uc_extras s) \<union> set (chan_oks (uc_chan s)) \<union>
     (case uc_result s of Some (Inr c) \<Rightarrow> set (ch_replicas c) | _ \<Rightarrow> {})"

definition kept :: "('w \<Rightarrow> string \<Rightarrow> string \<Rightarrow> bytes option) \<Rightarrow> ('w \<Rightarrow> (string \<times> string) set) \<Rightarrow> 'w \<Rightarrow> 'w \<Rightarrow> bool" where
  "kept blob issued w w' \<longleftrightarrow> issued w \<subseteq> issued w' \<and> (\<forall>(n, l) \<in> issued w. blob w' n l = blob w n l)"

definition uw_inv :: "('w \<Rightarrow> string \<Rightarrow> string \<Rightarrow> bytes option) \<Rightarrow> ('w \<Rightarrow> (string \<times> string) set) \<Rightarrow> bytes \<Rightarrow> 'w \<Rightarrow>
    uc \<times> 'w \<Rightarrow> bool" where
  "uw_inv blob issued data w0 x \<longleftrightarrow> kept blob issued w0 (snd x) \<and>
     (\<forall>rep \<in> replicas_held (fst x). holds blob (snd x) data rep \<and> loc_of rep \<in> issued (snd x) - issued w0)"

lemma kept_trans: "kept blob issued w w' \<Longrightarrow> kept blob issued w' w'' \<Longrightarrow> kept blob issued w w''"
  by (fastforce simp: kept_def)

lemma kept_inv: "uw_inv blob issued data w0 (s, w) \<Longrightarrow> kept blob issued w w' \<Longrightarrow> uw_inv blob issued data w0 (s, w')"
  using kept_trans [of blob issued w0 w w'] by (fastforce simp: uw_inv_def kept_def loc_of_def)

lemma fresh_kept:
  assumes "fresh_hosts H blob issued"
  shows "h_upload H n d fname ct w = (r, w') \<Longrightarrow> kept blob issued w w'"
    and "h_download H n l off len w = (r', w') \<Longrightarrow> kept blob issued w w'"
  using assms by (auto simp: fresh_hosts_def kept_def)

text \<open>The loops make up no replica.\<close>

lemma launchNext_held: "launchNext s = (b, s') \<Longrightarrow> replicas_held s' = replicas_held s"
  by (auto simp: launchNext_def replicas_held_def split: if_splits)

lemma loops_held: "uc_step E s s' \<Longrightarrow> uc_log s' = uc_log s \<Longrightarrow> replicas_held s' \<subseteq> replicas_held s"
proof (induction rule: uc_step.induct)
  case (collected s out rest)
  then show ?case
    by (cases out) (auto simp: collect_def launchNext_def replicas_held_def Let_def split: option.splits sum.splits if_splits)
next
  case (drained s out rest)
  then show ?case
    by (cases out) (auto simp: drain_one_def launchNext_def replicas_held_def Let_def split: option.splits sum.splits if_splits)
qed (auto simp: report_ok_def report_fail_def leave_sync_def replicas_held_def Let_def split: option.splits sum.splits)

lemma uw_step_inv:
  assumes "fresh_hosts H blob issued" and "uw_step H data E x y" and "uw_inv blob issued data w0 x"
  shows "uw_inv blob issued data w0 y"
  using assms(2)
proof cases
  case (stored s xs q ys fname ct w loc tok w')
  let ?rep = "\<lparr>rp_provider = pv_name q, rp_locator = loc, rp_token = tok\<rparr>"
  have "uw_inv blob issued data w0 (s, w')"
    by (rule kept_inv [OF assms(3) [unfolded stored(1)] fresh_kept(1) [OF assms(1) stored(5)]])
  moreover have "holds blob w' data ?rep" "(pv_name q, loc) \<in> issued w' - issued w"
    using assms(1) stored(5) by (auto simp: fresh_hosts_def)
  moreover have "issued w0 \<subseteq> issued w" using assms(3) stored(1) by (simp add: uw_inv_def kept_def)
  ultimately show ?thesis
    by (auto simp: stored(2) uw_inv_def replicas_held_def report_ok_def loc_of_def)
next
  case (refused s xs q ys fname ct w e w')
  have "uw_inv blob issued data w0 (s, w')"
    by (rule kept_inv [OF assms(3) [unfolded refused(1)] fresh_kept(1) [OF assms(1) refused(5)]])
  then show ?thesis by (simp add: refused(2) uw_inv_def replicas_held_def report_fail_def)
next
  case (loops s s' w)
  with loops_held [OF loops(3,4)] assms(3) show ?thesis by (auto simp: uw_inv_def)
next
  case (others_put n d fname ct w r w' s)
  show ?thesis unfolding others_put(2) by (rule kept_inv [OF assms(3) [unfolded others_put(1)] fresh_kept(1) [OF assms(1) others_put(3)]])
next
  case (others_get n l off len w r' w' s)
  show ?thesis unfolding others_get(2) by (rule kept_inv [OF assms(3) [unfolded others_get(1)] fresh_kept(2) [OF assms(1) others_get(3)]])
qed

lemma launch_initial_held: "replicas_held (launch_initial R s) = replicas_held s"
  by (induction R s rule: launch_initial.induct)
    (subst launch_initial.simps, auto simp: launchNext_held split: prod.splits bool.splits)

lemma inflight_held: "replicas_held (s\<lparr>uc_inflight := n\<rparr>) = replicas_held s"
  by (simp add: replicas_held_def)

lemma start_held: "uploadChunk_start E p = Inr s0 \<Longrightarrow> replicas_held s0 = {}"
  by (auto simp: uploadChunk_start_def Let_def inflight_held launch_initial_held split: prod.splits if_splits)
    (simp_all add: replicas_held_def)

lemma chunk_run_kept:
  assumes "fresh_hosts H blob issued" and "chunk_run H data E p w r w'"
  shows "kept blob issued w w' \<and> (\<forall>c. r = Inr c \<longrightarrow> (\<forall>rep \<in> set (ch_replicas c).
    holds blob w' data rep \<and> loc_of rep \<in> issued w' - issued w))"
proof (cases "uploadChunk_start E p")
  case (Inl e)
  with assms(2) show ?thesis by (simp add: chunk_run_def kept_def)
next
  case (Inr s0)
  then obtain s where run: "uw_reach H data E (s0, w) (s, w')" and res: "uc_result s = Some r"
    using assms(2) by (auto simp: chunk_run_def)
  have "uw_inv blob issued data w (s0, w)" by (simp add: uw_inv_def start_held [OF Inr] kept_def)
  from run this have "uw_inv blob issued data w (s, w')"
    by (induction rule: rtranclp_induct) (auto intro: uw_step_inv [OF assms(1)])
  then show ?thesis using res by (auto simp: uw_inv_def replicas_held_def)
qed

lemma chunk_run_result: "chunk_run H data E p w r w' \<Longrightarrow> uploadChunk_result E p r"
  using uw_reach_uc by (fastforce simp: chunk_run_def uploadChunk_result_def split: sum.splits)

end
