(* ===== verification/PrefetchReader.thy ===== *)
theory PrefetchReader
  imports ChunkSource
begin

text \<open>
  \<^verbatim>\<open>internal/reader/reader.go\<close> and \<^verbatim>\<open>buffer.go\<close>: the parallel prefetch reader. Workers claim aligned
  chunk numbers from an atomic counter and publish each result in its own one-place slot; the
  drainer takes the slots in order, trims them to the requested range and passes them on a bounded
  channel; \<open>Read\<close> consumes that channel. Workers, drainer and consumer are one state with an
  interleaving step relation. The chunk source is a parameter: the relation of the outcomes a
  call may have.
\<close>

section \<open>Buffers\<close>

record buffer =
  bf_buf :: bytes
  bf_offset :: nat
  bf_err :: "goerr option"

definition isEmpty :: "buffer \<Rightarrow> bool" where
  "isEmpty b \<longleftrightarrow> length (bf_buf b) \<le> bf_offset b"

definition buf_bytes :: "buffer \<Rightarrow> bytes" where
  "buf_bytes b = drop (bf_offset b) (bf_buf b)"

definition advance :: "nat \<Rightarrow> buffer \<Rightarrow> buffer" where
  "advance n b = b\<lparr>bf_offset :=
     (if bf_offset b + n > length (bf_buf b) then length (bf_buf b) else bf_offset b + n)\<rparr>"

definition fetched :: "goerr + bytes \<Rightarrow> buffer" where
  "fetched res = (case res of
     Inl e \<Rightarrow> \<lparr>bf_buf = [], bf_offset = 0, bf_err = Some e\<rparr>
   | Inr bs \<Rightarrow> \<lparr>bf_buf = bs, bf_offset = 0, bf_err = None\<rparr>)"

section \<open>State\<close>

record rdr =
  rd_chunkSize :: int
  rd_start :: int
  rd_end :: int
  rd_alignedStart :: int
  rd_nChunks :: nat
  rd_outCap :: nat
  rd_idx :: nat
  rd_idle :: nat
  rd_fetching :: "nat list"
  rd_results :: "nat \<Rightarrow> buffer option"
  rd_di :: nat
  rd_pending :: "buffer option"
  rd_closedOut :: bool
  rd_out :: "buffer list"
  rd_cur :: "buffer option"
  rd_err :: "goerr option"
  rd_cancelled :: bool
  rd_got :: bytes

text \<open>
  \<open>rd_idle\<close> counts the workers between two chunks, \<open>rd_fetching\<close> are the chunk numbers being
  fetched, \<open>rd_pending\<close> is the buffer the drainer is about to send, \<open>rd_got\<close> the bytes the calls of
  \<open>Read\<close> returned so far.
\<close>

definition NewReader :: "(int \<Rightarrow> int \<Rightarrow> int) \<Rightarrow> int \<Rightarrow> int \<Rightarrow> int \<Rightarrow> int \<Rightarrow> rdr" where
  "NewReader csize start0 end0 concurrency0 outBuffers0 =
     (let start = (if start0 < 0 then 0 else start0);
          en = (if end0 < start then start else end0);
          cs0 = csize start en;
          cs = (if cs0 \<le> 0 then 2 ^ 20 else cs0);
          concurrency = (if concurrency0 \<le> 0 then 1 else concurrency0);
          outBuffers = (if outBuffers0 \<le> 0 then 1 else outBuffers0);
          r = \<lparr>rd_chunkSize = cs, rd_start = start, rd_end = en, rd_alignedStart = 0, rd_nChunks = 0,
            rd_outCap = nat outBuffers, rd_idx = 0, rd_idle = 0, rd_fetching = [],
            rd_results = (\<lambda>_. None), rd_di = 0, rd_pending = None, rd_closedOut = False, rd_out = [],
            rd_cur = None, rd_err = None, rd_cancelled = False, rd_got = []\<rparr>
      in if start \<ge> en then r\<lparr>rd_closedOut := True\<rparr>
         else
           let alignedStart = start - start mod cs;
               rem = en mod cs;
               alignedEnd = (if rem \<noteq> 0 then en + (cs - rem) else en);
               n = nat ((alignedEnd - alignedStart) div cs)
           in r\<lparr>rd_alignedStart := alignedStart, rd_nChunks := n,
                rd_idle := (if concurrency > int n then n else nat concurrency)\<rparr>)"

definition chunk_off :: "rdr \<Rightarrow> nat \<Rightarrow> int" where
  "chunk_off r i = rd_alignedStart r + int i * rd_chunkSize r"

definition trim :: "rdr \<Rightarrow> nat \<Rightarrow> buffer \<Rightarrow> buffer" where
  "trim r i b =
     (if bf_err b \<noteq> None then b
      else
        let chunkOff = chunk_off r i;
            chunkEnd = chunkOff + int (length (bf_buf b));
            lo = (if chunkOff < rd_start r then rd_start r else chunkOff);
            hi = (if chunkEnd > rd_end r then rd_end r else chunkEnd)
        in b\<lparr>bf_buf := (if hi \<le> lo then []
             else take (nat (hi - chunkOff) - nat (lo - chunkOff)) (drop (nat (lo - chunkOff)) (bf_buf b)))\<rparr>)"

section \<open>Steps\<close>

definition rd_publish :: "nat \<Rightarrow> buffer \<Rightarrow> rdr \<Rightarrow> rdr" where
  "rd_publish i b r = r\<lparr>rd_results := (rd_results r)(i \<mapsto> b)\<rparr>"

definition rd_take :: "buffer \<Rightarrow> rdr \<Rightarrow> rdr" where
  "rd_take b r = r\<lparr>rd_results := (rd_results r)(rd_di r := None), rd_pending := Some (trim r (rd_di r) b)\<rparr>"

definition rd_send :: "buffer \<Rightarrow> rdr \<Rightarrow> rdr" where
  "rd_send b r =
     (let r = r\<lparr>rd_out := rd_out r @ [b], rd_pending := None\<rparr>
      in if bf_err b \<noteq> None then r\<lparr>rd_closedOut := True\<rparr> else r\<lparr>rd_di := rd_di r + 1\<rparr>)"

definition rd_pull :: "buffer \<Rightarrow> rdr \<Rightarrow> rdr" where
  "rd_pull b r = (if bf_err b \<noteq> None then r\<lparr>rd_err := bf_err b\<rparr> else r\<lparr>rd_cur := Some b\<rparr>)"

definition rd_copy :: "nat \<Rightarrow> buffer \<Rightarrow> rdr \<Rightarrow> rdr" where
  "rd_copy n b r =
     (let k = min n (length (buf_bytes b))
      in r\<lparr>rd_got := rd_got r @ take k (buf_bytes b), rd_cur := Some (advance k b)\<rparr>)"

inductive rd_step :: "(int \<Rightarrow> int \<Rightarrow> goerr + bytes \<Rightarrow> bool) \<Rightarrow> rdr \<Rightarrow> rdr \<Rightarrow> bool" for chunk where
  claim:
    "\<not> rd_cancelled r \<Longrightarrow> 0 < rd_idle r \<Longrightarrow> rd_idx r < rd_nChunks r \<Longrightarrow>
     rd_step chunk r (r\<lparr>rd_idle := rd_idle r - 1, rd_fetching := rd_fetching r @ [rd_idx r],
       rd_idx := rd_idx r + 1\<rparr>)"
| retire:
    "0 < rd_idle r \<Longrightarrow> rd_nChunks r \<le> rd_idx r \<Longrightarrow>
     rd_step chunk r (r\<lparr>rd_idle := rd_idle r - 1, rd_idx := rd_idx r + 1\<rparr>)"
| claim_cancelled:
    "rd_cancelled r \<Longrightarrow> 0 < rd_idle r \<Longrightarrow> rd_idx r < rd_nChunks r \<Longrightarrow>
     rd_step chunk r ((if rd_results r (rd_idx r) = None
         then rd_publish (rd_idx r) (fetched (Inl ErrCtx)) r else r)
       \<lparr>rd_idle := rd_idle r - 1, rd_idx := rd_idx r + 1\<rparr>)"
| publish:
    "rd_fetching r = xs @ i # ys \<Longrightarrow> chunk (chunk_off r i) (rd_chunkSize r) res \<Longrightarrow> rd_results r i = None \<Longrightarrow>
     rd_step chunk r (rd_publish i (fetched res) (r\<lparr>rd_fetching := xs @ ys, rd_idle := rd_idle r + 1\<rparr>))"
| drop_result:
    "rd_cancelled r \<Longrightarrow> rd_fetching r = xs @ i # ys \<Longrightarrow> rd_step chunk r (r\<lparr>rd_fetching := xs @ ys\<rparr>)"
| take_slot:
    "\<not> rd_closedOut r \<Longrightarrow> rd_pending r = None \<Longrightarrow> rd_di r < rd_nChunks r \<Longrightarrow> rd_results r (rd_di r) = Some b \<Longrightarrow>
     rd_step chunk r (rd_take b r)"
| send_out:
    "\<not> rd_closedOut r \<Longrightarrow> rd_pending r = Some b \<Longrightarrow> length (rd_out r) < rd_outCap r \<Longrightarrow>
     rd_step chunk r (rd_send b r)"
| drained_all:
    "\<not> rd_closedOut r \<Longrightarrow> rd_pending r = None \<Longrightarrow> rd_nChunks r \<le> rd_di r \<Longrightarrow>
     rd_step chunk r (r\<lparr>rd_closedOut := True\<rparr>)"
| drain_cancelled:
    "rd_cancelled r \<Longrightarrow> \<not> rd_closedOut r \<Longrightarrow> rd_step chunk r (r\<lparr>rd_closedOut := True, rd_pending := None\<rparr>)"
| pull:
    "rd_err r = None \<Longrightarrow> rd_cur r = None \<Longrightarrow> rd_out r = b # bs \<Longrightarrow>
     rd_step chunk r (rd_pull b (r\<lparr>rd_out := bs\<rparr>))"
| end_of_file:
    "rd_err r = None \<Longrightarrow> rd_cur r = None \<Longrightarrow> rd_out r = [] \<Longrightarrow> rd_closedOut r \<Longrightarrow>
     rd_step chunk r (r\<lparr>rd_err := Some ErrEOF\<rparr>)"
| skip_empty:
    "rd_err r = None \<Longrightarrow> rd_cur r = Some b \<Longrightarrow> isEmpty b \<Longrightarrow> rd_step chunk r (r\<lparr>rd_cur := None\<rparr>)"
| copy:
    "rd_err r = None \<Longrightarrow> rd_cur r = Some b \<Longrightarrow> \<not> isEmpty b \<Longrightarrow> 0 < n \<Longrightarrow> rd_step chunk r (rd_copy n b r)"
| close:
    "\<not> rd_cancelled r \<Longrightarrow> rd_step chunk r (r\<lparr>rd_cancelled := True\<rparr>)"

abbreviation rd_reach :: "(int \<Rightarrow> int \<Rightarrow> goerr + bytes \<Rightarrow> bool) \<Rightarrow> rdr \<Rightarrow> rdr \<Rightarrow> bool" where
  "rd_reach chunk \<equiv> (rd_step chunk)\<^sup>*\<^sup>*"

section \<open>Prime and Close\<close>

text \<open>\<^verbatim>\<open>Prime\<close> stages the first buffer; \<open>None\<close> while it waits for the channel.\<close>

definition Prime :: "rdr \<Rightarrow> (goerr option \<times> rdr) option" where
  "Prime r =
     (if rd_cur r \<noteq> None then Some (None, r)
      else case rd_out r of
        b # bs \<Rightarrow> Some (bf_err b, rd_pull b (r\<lparr>rd_out := bs\<rparr>))
      | [] \<Rightarrow> if rd_closedOut r then Some (Some ErrEOF, r) else None)"

text \<open>
  While \<^verbatim>\<open>Close\<close> waits, its context is cancelled and nobody reads: workers and drainer go on as they
  can (the steps that touch nothing of the consumer's), and a goroutine discards what is sent.
  \<^verbatim>\<open>Close\<close> returns when every worker and the drainer have ended.
\<close>

inductive closing_step :: "(int \<Rightarrow> int \<Rightarrow> goerr + bytes \<Rightarrow> bool) \<Rightarrow> rdr \<Rightarrow> rdr \<Rightarrow> bool" for chunk where
  background:
    "rd_cancelled r \<Longrightarrow> rd_step chunk r r' \<Longrightarrow> rd_cur r' = rd_cur r \<Longrightarrow> rd_err r' = rd_err r \<Longrightarrow> rd_got r' = rd_got r \<Longrightarrow>
     closing_step chunk r r'"
| discard: "rd_cancelled r \<Longrightarrow> rd_out r = b # bs \<Longrightarrow> closing_step chunk r (r\<lparr>rd_out := bs\<rparr>)"

definition all_ended :: "rdr \<Rightarrow> bool" where
  "all_ended r \<longleftrightarrow> rd_idle r = 0 \<and> rd_fetching r = [] \<and> rd_closedOut r"

end
