(* ===== verification/PrefetchProps.thy ===== *)
theory PrefetchProps
  imports PrefetchReader
begin

text \<open>
  The guarantees of the prefetch reader. The interface it relies on is the locale \<open>chunk_source\<close>:
  a call that succeeds returns the window of the object it was asked for. From it follow, for
  every interleaving, that bytes come out in order, that end-of-file means everything was
  delivered, and that the reader cannot get stuck. It is interpreted on the backend source.
\<close>

section \<open>Windows\<close>

lemma window_window:
  assumes "0 \<le> c" and "0 \<le> a" and "a \<le> b" and "c + b \<le> d"
  shows "window a b (window c d xs) = window (c + a) (c + b) xs"
proof -
  have "nat (b - a) \<le> nat (d - c) - nat a" using assms by (auto simp: nat_diff_distrib [symmetric] nat_le_eq_zle)
  then show ?thesis using assms
    by (simp add: window_def drop_take nat_add_distrib drop_drop add.commute)
qed

definition upto_off :: "rdr \<Rightarrow> nat \<Rightarrow> int" where
  "upto_off r i = max (rd_start r) (min (rd_end r) (chunk_off r i))"

definition geometry :: "bytes \<Rightarrow> rdr \<Rightarrow> bool" where
  "geometry obj r \<longleftrightarrow> 0 < rd_chunkSize r \<and> 0 \<le> rd_alignedStart r \<and> rd_alignedStart r \<le> rd_start r \<and>
     rd_start r \<le> rd_end r \<and> rd_end r \<le> int (length obj) \<and>
     (rd_start r < rd_end r \<longrightarrow> rd_end r \<le> chunk_off r (rd_nChunks r)) \<and>
     (\<forall>i < rd_nChunks r. chunk_off r i < rd_end r) \<and> 0 < rd_outCap r"

lemma chunk_off_Suc: "chunk_off r (Suc i) = chunk_off r i + rd_chunkSize r"
  by (simp add: chunk_off_def algebra_simps)

lemma upto_off_mono: "geometry obj r \<Longrightarrow> upto_off r i \<le> upto_off r (Suc i)"
  by (auto simp: upto_off_def geometry_def chunk_off_Suc)

lemma upto_off_0: "geometry obj r \<Longrightarrow> upto_off r 0 = rd_start r"
  by (auto simp: upto_off_def geometry_def chunk_off_def)

lemma upto_off_n: "geometry obj r \<Longrightarrow> upto_off r (rd_nChunks r) = rd_end r"
  by (auto simp: upto_off_def geometry_def)

lemma upto_off_start: "geometry obj r \<Longrightarrow> 0 \<le> rd_start r \<and> rd_start r \<le> upto_off r i"
  by (auto simp: upto_off_def geometry_def)

section \<open>Buffers that are right\<close>

definition good_buf :: "bytes \<Rightarrow> rdr \<Rightarrow> nat \<Rightarrow> buffer \<Rightarrow> bool" where
  "good_buf obj r i b \<longleftrightarrow> bf_offset b = 0 \<and> bf_err b \<noteq> Some ErrEOF \<and>
     (if bf_err b = None then bf_buf b = window (chunk_off r i) (chunk_off r i + rd_chunkSize r) obj
      else bf_buf b = [])"

definition trimmed :: "bytes \<Rightarrow> rdr \<Rightarrow> nat \<Rightarrow> buffer \<Rightarrow> bool" where
  "trimmed obj r i b \<longleftrightarrow> bf_offset b = 0 \<and> bf_err b \<noteq> Some ErrEOF \<and>
     (if bf_err b = None then bf_buf b = window (upto_off r i) (upto_off r (Suc i)) obj else bf_buf b = [])"

lemma trim_good:
  assumes "geometry obj r" and "good_buf obj r i b" and "i < rd_nChunks r"
  shows "trimmed obj r i (trim r i b)"
proof (cases "bf_err b = None")
  case False
  with assms(2) show ?thesis by (auto simp: trimmed_def good_buf_def trim_def)
next
  case True
  define c where "c = chunk_off r i"
  define lo where "lo = (if c < rd_start r then rd_start r else c)"
  have buf: "bf_buf b = window c (c + rd_chunkSize r) obj" "bf_offset b = 0"
    using True assms(2) by (auto simp: good_buf_def c_def)
  have c0: "0 \<le> c" "c < rd_end r" using assms(1,3) by (auto simp: geometry_def c_def chunk_off_def)
  have geo: "0 < rd_chunkSize r" "rd_start r \<le> rd_end r" "rd_end r \<le> int (length obj)"
    using assms(1) by (auto simp: geometry_def)
  have len: "c + int (length (bf_buf b)) = min (c + rd_chunkSize r) (int (length obj))"
    using c0 geo by (auto simp: buf window_def)
  define hi where "hi = (if c + int (length (bf_buf b)) > rd_end r then rd_end r else c + int (length (bf_buf b)))"
  have hi: "hi = min (c + rd_chunkSize r) (rd_end r)" using len geo by (auto simp: hi_def)
  have up: "upto_off r i = lo" "upto_off r (Suc i) = max (rd_start r) hi"
    using c0 geo by (auto simp: upto_off_def lo_def hi chunk_off_Suc c_def)
  have "bf_buf (trim r i b) = window (upto_off r i) (upto_off r (Suc i)) obj"
  proof (cases "hi \<le> lo")
    case True2: True
    then have "upto_off r (Suc i) \<le> upto_off r i" unfolding up by (auto simp: lo_def)
    with True True2 show ?thesis
      by (simp add: trim_def Let_def c_def [symmetric] lo_def [symmetric] hi_def [symmetric])
  next
    case False
    have lc: "c \<le> lo" "rd_start r \<le> lo" by (auto simp: lo_def)
    have "bf_buf (trim r i b) = take (nat (hi - c) - nat (lo - c)) (drop (nat (lo - c)) (bf_buf b))"
      using True False by (simp add: trim_def Let_def c_def [symmetric] lo_def [symmetric] hi_def [symmetric])
    also have "\<dots> = window (lo - c) (hi - c) (bf_buf b)"
      using lc False by (simp add: window_def nat_diff_distrib [symmetric])
    also have "\<dots> = window (c + (lo - c)) (c + (hi - c)) obj"
      unfolding buf(1) using lc False c0 hi by (intro window_window) auto
    also have "\<dots> = window (upto_off r i) (upto_off r (Suc i)) obj"
      using lc False by (simp add: up)
    finally show ?thesis .
  qed
  with True buf(2) assms(2) show ?thesis by (simp add: trimmed_def trim_def Let_def)
qed

section \<open>The data invariant\<close>

definition cur_bytes :: "rdr \<Rightarrow> bytes" where
  "cur_bytes r = (case rd_cur r of None \<Rightarrow> [] | Some b \<Rightarrow> buf_bytes b)"

definition rd_inv :: "bytes \<Rightarrow> rdr \<Rightarrow> bool" where
  "rd_inv obj r \<longleftrightarrow> geometry obj r \<and> rd_di r \<le> rd_nChunks r \<and>
     (\<forall>i b. rd_results r i = Some b \<longrightarrow> i < rd_nChunks r \<and> good_buf obj r i b) \<and>
     (\<forall>i \<in> set (rd_fetching r). i < rd_nChunks r) \<and>
     (\<forall>b. rd_pending r = Some b \<longrightarrow> rd_di r < rd_nChunks r \<and> trimmed obj r (rd_di r) b) \<and>
     (\<forall>b \<in> set (rd_out r). bf_offset b = 0 \<and> bf_err b \<noteq> Some ErrEOF \<and> (bf_err b \<noteq> None \<longrightarrow> bf_buf b = [])) \<and>
     (\<forall>b. rd_cur r = Some b \<longrightarrow> bf_err b = None) \<and>
     rd_got r @ cur_bytes r @ concat (map bf_buf (rd_out r)) = window (rd_start r) (upto_off r (rd_di r)) obj"

text \<open>Nothing that the invariant reads of the fixed part of the state changes in a step.\<close>

definition same_frame :: "rdr \<Rightarrow> rdr \<Rightarrow> bool" where
  "same_frame r r' \<longleftrightarrow> rd_chunkSize r' = rd_chunkSize r \<and> rd_start r' = rd_start r \<and> rd_end r' = rd_end r \<and>
     rd_alignedStart r' = rd_alignedStart r \<and> rd_nChunks r' = rd_nChunks r \<and> rd_outCap r' = rd_outCap r"

lemmas rd_op_defs = rd_publish_def rd_take_def rd_send_def rd_pull_def rd_copy_def

lemma step_frame: "rd_step chunk r r' \<Longrightarrow> same_frame r r'"
  by (induction rule: rd_step.induct) (auto simp: same_frame_def rd_op_defs Let_def)

lemma frame_cong:
  assumes "same_frame r r'"
  shows "chunk_off r' = chunk_off r" and "upto_off r' = upto_off r" and "geometry obj r' = geometry obj r"
    and "good_buf obj r' = good_buf obj r" and "trimmed obj r' = trimmed obj r"
proof -
  show c: "chunk_off r' = chunk_off r" using assms by (auto simp: same_frame_def chunk_off_def fun_eq_iff)
  show u: "upto_off r' = upto_off r" using assms c by (auto simp: same_frame_def upto_off_def fun_eq_iff)
  show "geometry obj r' = geometry obj r" using assms c by (auto simp: same_frame_def geometry_def)
  show "good_buf obj r' = good_buf obj r" using assms c by (auto simp: same_frame_def good_buf_def fun_eq_iff)
  show "trimmed obj r' = trimmed obj r" using assms u by (auto simp: trimmed_def fun_eq_iff)
qed

definition exact_chunks :: "bytes \<Rightarrow> (int \<Rightarrow> int \<Rightarrow> goerr + bytes \<Rightarrow> bool) \<Rightarrow> bool" where
  "exact_chunks obj chunk \<longleftrightarrow> (\<forall>off lim res. 0 \<le> off \<longrightarrow> 0 < lim \<longrightarrow> chunk off lim res \<longrightarrow>
     (case res of Inl e \<Rightarrow> e \<noteq> ErrEOF | Inr bs \<Rightarrow> bs = window off (off + lim) obj))"

lemma fetched_good:
  assumes "exact_chunks obj chunk" and "geometry obj r" and "chunk (chunk_off r i) (rd_chunkSize r) res"
  shows "good_buf obj r i (fetched res)"
proof -
  have "0 \<le> chunk_off r i" "0 < rd_chunkSize r" using assms(2) by (auto simp: geometry_def chunk_off_def)
  with assms(1,3) have "case res of Inl e \<Rightarrow> e \<noteq> ErrEOF
      | Inr bs \<Rightarrow> bs = window (chunk_off r i) (chunk_off r i + rd_chunkSize r) obj"
    unfolding exact_chunks_def by blast
  then show ?thesis by (auto simp: good_buf_def fetched_def split: sum.splits)
qed

lemma cur_bytes_copy:
  assumes "rd_cur r = Some b"
  shows "rd_got (rd_copy n b r) @ cur_bytes (rd_copy n b r) = rd_got r @ cur_bytes r"
proof -
  have "take k (buf_bytes b) @ buf_bytes (advance k b) = buf_bytes b" if "k \<le> length (buf_bytes b)" for k
    using that append_take_drop_id [of k "drop (bf_offset b) (bf_buf b)"]
    by (auto simp: buf_bytes_def advance_def add.commute)
  then show ?thesis using assms by (simp add: rd_copy_def cur_bytes_def Let_def)
qed

lemma inv_publish:
  assumes "rd_inv obj r" and "i < rd_nChunks r" and "good_buf obj r i b"
    and "set fs \<subseteq> set (rd_fetching r)"
  shows "rd_inv obj (rd_publish i b (r\<lparr>rd_fetching := fs, rd_idle := k\<rparr>))"
proof -
  let ?r = "rd_publish i b (r\<lparr>rd_fetching := fs, rd_idle := k\<rparr>)"
  have "same_frame r ?r" by (simp add: same_frame_def rd_publish_def)
  note fr = frame_cong [OF this]
  show ?thesis using assms unfolding rd_inv_def fr by (auto simp: rd_publish_def cur_bytes_def)
qed

lemma inv_take:
  assumes "rd_inv obj r" and "rd_di r < rd_nChunks r" and "rd_results r (rd_di r) = Some b"
  shows "rd_inv obj (rd_take b r)"
proof -
  have "same_frame r (rd_take b r)" by (simp add: same_frame_def rd_take_def)
  note fr = frame_cong [OF this]
  have "trimmed obj r (rd_di r) (trim r (rd_di r) b)"
    using assms by (intro trim_good) (auto simp: rd_inv_def)
  then show ?thesis using assms less_imp_le [OF assms(2)] unfolding rd_inv_def fr by (auto simp: rd_take_def cur_bytes_def)
qed

lemma inv_send:
  assumes "rd_inv obj r" and "rd_pending r = Some b"
  shows "rd_inv obj (rd_send b r)"
proof -
  have "same_frame r (rd_send b r)" by (simp add: same_frame_def rd_send_def Let_def)
  note fr = frame_cong [OF this]
  have geo: "geometry obj r" and di: "rd_di r < rd_nChunks r" and tr: "trimmed obj r (rd_di r) b"
    and flow: "rd_got r @ cur_bytes r @ concat (map bf_buf (rd_out r)) = window (rd_start r) (upto_off r (rd_di r)) obj"
    using assms by (auto simp: rd_inv_def)
  have ap: "window (rd_start r) (upto_off r (rd_di r)) obj @ window (upto_off r (rd_di r)) (upto_off r (Suc (rd_di r))) obj =
      window (rd_start r) (upto_off r (Suc (rd_di r))) obj"
    using upto_off_start [OF geo] upto_off_mono [OF geo] by (intro window_append) auto
  show ?thesis
  proof (cases "bf_err b = None")
    case True
    then have "bf_buf b = window (upto_off r (rd_di r)) (upto_off r (Suc (rd_di r))) obj"
      using tr by (simp add: trimmed_def)
    then have "rd_got r @ cur_bytes r @ concat (map bf_buf (rd_out r)) @ bf_buf b =
        window (rd_start r) (upto_off r (Suc (rd_di r))) obj"
      using flow ap by (metis append.assoc)
    with True assms di tr show ?thesis
      unfolding rd_inv_def fr by (auto simp: rd_send_def Let_def cur_bytes_def trimmed_def)
  next
    case False
    with assms tr show ?thesis
      unfolding rd_inv_def fr by (auto simp: rd_send_def Let_def cur_bytes_def trimmed_def)
  qed
qed

lemma inv_pull:
  assumes "rd_inv obj r" and "rd_cur r = None" and "rd_out r = b # bs"
  shows "rd_inv obj (rd_pull b (r\<lparr>rd_out := bs\<rparr>))"
proof -
  have "same_frame r (rd_pull b (r\<lparr>rd_out := bs\<rparr>))" by (simp add: same_frame_def rd_pull_def)
  note fr = frame_cong [OF this]
  show ?thesis using assms unfolding rd_inv_def fr by (auto simp: rd_pull_def cur_bytes_def buf_bytes_def)
qed

lemma inv_copy:
  assumes "rd_inv obj r" and "rd_cur r = Some b"
  shows "rd_inv obj (rd_copy n b r)"
proof -
  have "same_frame r (rd_copy n b r)" by (simp add: same_frame_def rd_copy_def Let_def)
  note fr = frame_cong [OF this]
  have "rd_got (rd_copy n b r) @ cur_bytes (rd_copy n b r) @ concat (map bf_buf (rd_out (rd_copy n b r))) =
      rd_got r @ cur_bytes r @ concat (map bf_buf (rd_out r))"
    using cur_bytes_copy [OF assms(2), of n] by (simp add: rd_copy_def Let_def)
  then show ?thesis using assms
    unfolding rd_inv_def fr by (auto simp: rd_copy_def Let_def advance_def)
qed

text \<open>The remaining steps change no field the invariant reads, or only make lists shorter.\<close>

lemma inv_weaken:
  assumes "rd_inv obj r" and "same_frame r r'" and "rd_di r' = rd_di r" and "rd_results r' = rd_results r"
    and "set (rd_fetching r') \<subseteq> {..<rd_nChunks r}" and "rd_pending r' = rd_pending r \<or> rd_pending r' = None"
    and "rd_out r' = rd_out r" and "rd_cur r' = rd_cur r \<or> rd_cur r' = None \<and> cur_bytes r = []"
    and "rd_got r' = rd_got r"
  shows "rd_inv obj r'"
proof -
  note fr = frame_cong [OF assms(2)]
  have "rd_nChunks r' = rd_nChunks r" "rd_start r' = rd_start r" using assms(2) by (auto simp: same_frame_def)
  moreover have "cur_bytes r' = cur_bytes r" using assms(8) by (auto simp: cur_bytes_def)
  moreover have "\<And>b. rd_pending r' = Some b \<Longrightarrow> rd_pending r = Some b" "\<And>b. rd_cur r' = Some b \<Longrightarrow> rd_cur r = Some b"
    using assms(6,8) by auto
  ultimately show ?thesis using assms(1,3,4,5,7,9) unfolding rd_inv_def fr by auto
qed

lemma rd_inv_step:
  assumes "exact_chunks obj chunk" and "rd_inv obj r" and "rd_step chunk r r'"
  shows "rd_inv obj r'"
  using assms(3)
proof cases
  case claim
  show ?thesis by (rule inv_weaken [OF assms(2) step_frame [OF assms(3)]])
      (use claim assms(2) in \<open>auto simp: rd_inv_def\<close>)
next
  case claim_cancelled
  have "good_buf obj r (rd_idx r) (fetched (Inl ErrCtx))" by (simp add: good_buf_def fetched_def)
  from inv_publish [OF assms(2) _ this, of "rd_fetching r" "rd_idle r"]
  have pub: "rd_inv obj (rd_publish (rd_idx r) (fetched (Inl ErrCtx)) r)" using claim_cancelled by simp
  let ?q = "if rd_results r (rd_idx r) = None then rd_publish (rd_idx r) (fetched (Inl ErrCtx)) r else r"
  have q: "rd_inv obj ?q" using pub assms(2) by simp
  show ?thesis by (rule inv_weaken [OF q])
      (use claim_cancelled q in \<open>auto simp: same_frame_def rd_inv_def rd_publish_def\<close>)
next
  case (publish xs i ys res)
  show ?thesis unfolding publish(1)
    by (rule inv_publish [OF assms(2) _ fetched_good [OF assms(1) _ publish(3)]])
       (use publish assms(2) in \<open>auto simp: rd_inv_def\<close>)
next
  case (take_slot b)
  then show ?thesis using inv_take [OF assms(2)] by simp
next
  case (send_out b)
  then show ?thesis using inv_send [OF assms(2)] by simp
next
  case (pull b bs)
  then show ?thesis using inv_pull [OF assms(2)] by simp
next
  case (copy b n)
  then show ?thesis using inv_copy [OF assms(2)] by simp
next
  case (skip_empty b)
  show ?thesis by (rule inv_weaken [OF assms(2) step_frame [OF assms(3)]])
      (use skip_empty assms(2) in \<open>auto simp: rd_inv_def cur_bytes_def buf_bytes_def isEmpty_def\<close>)
qed (rule inv_weaken [OF assms(2) step_frame [OF assms(3)]]; use assms(2) in \<open>auto simp: rd_inv_def\<close>)+

section \<open>The schedule invariant\<close>

text \<open>
  Who is working on what, as long as nothing was cancelled: every claimed chunk is being fetched,
  waits in its slot, or was taken by the drainer; some worker is left while chunks are unclaimed;
  and the channel is closed only after everything or an error was sent.
\<close>

definition slots_inv :: "rdr \<Rightarrow> bool" where
  "slots_inv r \<longleftrightarrow> distinct (rd_fetching r) \<and>
     (\<forall>i \<in> set (rd_fetching r). i < rd_idx r \<and> rd_results r i = None \<and> rd_di r \<le> i \<and>
        (rd_pending r \<noteq> None \<longrightarrow> rd_di r < i)) \<and>
     (\<forall>i. rd_results r i \<noteq> None \<longrightarrow> i < rd_idx r \<and> rd_di r \<le> i \<and> (rd_pending r \<noteq> None \<longrightarrow> rd_di r < i)) \<and>
     (\<forall>i. i < rd_idx r \<longrightarrow> i < rd_nChunks r \<longrightarrow> i \<notin> set (rd_fetching r) \<longrightarrow> rd_results r i = None \<longrightarrow>
        i < rd_di r \<or> i = rd_di r \<and> (rd_pending r \<noteq> None \<or> rd_closedOut r)) \<and>
     rd_di r \<le> rd_idx r \<and> (rd_pending r \<noteq> None \<longrightarrow> rd_di r < rd_idx r)"

definition close_inv :: "rdr \<Rightarrow> bool" where
  "close_inv r \<longleftrightarrow>
     (rd_idx r < rd_nChunks r \<longrightarrow> 0 < rd_idle r + length (rd_fetching r)) \<and>
     (rd_closedOut r \<longrightarrow> rd_pending r = None \<and>
        (rd_di r = rd_nChunks r \<or> rd_err r \<noteq> None \<or> (\<exists>b \<in> set (rd_out r). bf_err b \<noteq> None))) \<and>
     (rd_err r = Some ErrEOF \<longrightarrow> rd_di r = rd_nChunks r \<and> rd_out r = [] \<and> rd_cur r = None)"

lemma slots_step:
  assumes "rd_step chunk r r'" and "slots_inv r" and "\<not> rd_cancelled r"
  shows "slots_inv r'"
  using assms(1)
proof cases
  case (publish xs i ys res)
  then have "i \<in> set (rd_fetching r)" "i \<notin> set (xs @ ys)" using assms(2) by (auto simp: slots_inv_def)
  with publish assms(2) show ?thesis by (auto simp: slots_inv_def rd_publish_def)
next
  case (take_slot b)
  have r': "r' = r\<lparr>rd_results := (rd_results r)(rd_di r := None), rd_pending := Some (trim r (rd_di r) b)\<rparr>"
    using take_slot by (simp add: rd_take_def)
  have here: "rd_results r (rd_di r) \<noteq> None" "rd_pending r = None" using take_slot by auto
  have "rd_di r \<noteq> i" if "i \<in> set (rd_fetching r)" for i
    using that assms(2) here unfolding slots_inv_def by auto
  moreover have "rd_di r \<le> i" if "i \<in> set (rd_fetching r) \<or> rd_results r i \<noteq> None" for i
    using that assms(2) unfolding slots_inv_def by auto
  moreover have "i < rd_di r"
    if "i < rd_idx r" "i < rd_nChunks r" "i \<notin> set (rd_fetching r)" "rd_results r i = None" for i
    using that assms(2) here take_slot(2) unfolding slots_inv_def by metis
  moreover have "rd_di r < rd_idx r" using here assms(2) unfolding slots_inv_def by auto
  ultimately show ?thesis using assms(2) unfolding slots_inv_def r' by (auto simp: le_neq_implies_less)
next
  case (send_out b)
  show ?thesis
  proof (cases "bf_err b = None")
    case True
    then have r': "r' = r\<lparr>rd_out := rd_out r @ [b], rd_pending := None, rd_di := rd_di r + 1\<rparr>"
      using send_out by (simp add: rd_send_def Let_def)
    have "rd_di r < i" if "i \<in> set (rd_fetching r) \<or> rd_results r i \<noteq> None" for i
      using that assms(2) send_out(3) unfolding slots_inv_def by auto
    moreover have "i < rd_di r + 1"
      if "i < rd_idx r" "i < rd_nChunks r" "i \<notin> set (rd_fetching r)" "rd_results r i = None" for i
      using that assms(2) unfolding slots_inv_def by (metis less_add_one less_SucI Suc_eq_plus1)
    moreover have "rd_di r < rd_idx r" using assms(2) send_out(3) unfolding slots_inv_def by auto
    ultimately show ?thesis using assms(2) unfolding slots_inv_def r' by (simp add: Suc_le_eq)
  next
    case False
    then have "r' = r\<lparr>rd_out := rd_out r @ [b], rd_pending := None, rd_closedOut := True\<rparr>"
      using send_out by (simp add: rd_send_def Let_def)
    then show ?thesis using assms(2) unfolding slots_inv_def by auto
  qed
qed (use assms(2,3) in \<open>auto simp: slots_inv_def rd_pull_def rd_copy_def Let_def\<close>)

lemma close_step:
  assumes "rd_step chunk r r'" and "close_inv r" and "rd_inv obj r" and "\<not> rd_cancelled r"
  shows "close_inv r'"
  using assms(1)
proof cases
  case (publish xs i ys res)
  with assms(2) show ?thesis by (auto simp: close_inv_def rd_publish_def)
next
  case (send_out b)
  have "rd_di r < rd_nChunks r" using assms(3) send_out by (simp add: rd_inv_def)
  with send_out assms(2) show ?thesis by (auto simp: close_inv_def rd_send_def Let_def)
next
  case (pull b bs)
  with assms(2,3) show ?thesis by (auto simp: close_inv_def rd_pull_def rd_inv_def)
next
  case drained_all
  with assms(2,3) show ?thesis by (auto simp: close_inv_def rd_inv_def)
qed (use assms(2,4) in \<open>auto simp: close_inv_def rd_take_def rd_copy_def Let_def\<close>)

section \<open>The start state\<close>

definition fits :: "(int \<Rightarrow> int \<Rightarrow> int) \<Rightarrow> int \<Rightarrow> int \<Rightarrow> bytes \<Rightarrow> bool" where
  "fits csize start en obj \<longleftrightarrow> 0 \<le> start \<and> start \<le> en \<and> en \<le> int (length obj) \<and> 0 < csize start en"

lemma aligned_chunks:
  fixes cs :: int
  assumes "0 < cs" and "0 \<le> start" and "start < en"
  defines "as \<equiv> start - start mod cs"
    and "ae \<equiv> (if en mod cs \<noteq> 0 then en + (cs - en mod cs) else en)"
  shows "0 \<le> as" "as \<le> start" "0 < (ae - as) div cs" "as + (ae - as) div cs * cs = ae" "en \<le> ae" "ae < en + cs"
proof -
  have m: "0 \<le> start mod cs" "start mod cs \<le> start" "en mod cs < cs" "0 \<le> en mod cs"
    using assms by (auto intro: zmod_le_nonneg_dividend)
  show "0 \<le> as" "as \<le> start" "en \<le> ae" using m unfolding as_def ae_def by auto
  show "ae < en + cs" using m(4) assms(1) unfolding ae_def by (smt (verit))
  have "en + (cs - en mod cs) = (en - en mod cs) + cs" by simp
  then have "cs dvd en + (cs - en mod cs)" by (metis dvd_add dvd_minus_mod dvd_refl)
  then have "cs dvd ae" unfolding ae_def using mod_0_imp_dvd [of en cs] by presburger
  moreover have "cs dvd as" unfolding as_def by (rule dvd_minus_mod)
  ultimately have d: "cs dvd ae - as" by simp
  then show e: "as + (ae - as) div cs * cs = ae" by simp
  have "as < ae" using \<open>as \<le> start\<close> \<open>en \<le> ae\<close> assms(3) by simp
  then show "0 < (ae - as) div cs" using e assms(1) by (smt (verit) mult_nonneg_nonneg mult_le_0_iff)
qed

lemma NewReader_inv:
  assumes "fits csize start en obj"
  shows "rd_inv obj (NewReader csize start en conc outs) \<and> slots_inv (NewReader csize start en conc outs) \<and>
    close_inv (NewReader csize start en conc outs) \<and> rd_start (NewReader csize start en conc outs) = start \<and>
    rd_end (NewReader csize start en conc outs) = en \<and> \<not> rd_cancelled (NewReader csize start en conc outs) \<and>
    rd_got (NewReader csize start en conc outs) = []"
proof (cases "start = en")
  case True
  with assms show ?thesis
    by (auto simp: NewReader_def fits_def Let_def rd_inv_def geometry_def slots_inv_def close_inv_def cur_bytes_def
        upto_off_def chunk_off_def)
next
  case False
  define cs where "cs = csize start en"
  define as where "as = start - start mod cs"
  define ae where "ae = (if en mod cs \<noteq> 0 then en + (cs - en mod cs) else en)"
  define n where "n = nat ((ae - as) div cs)"
  have f: "0 \<le> start" "start < en" "en \<le> int (length obj)" "0 < cs" using assms False by (auto simp: fits_def cs_def)
  note al = aligned_chunks [OF f(4,1,2), folded as_def ae_def]
  let ?r = "NewReader csize start en conc outs"
  have r: "?r = \<lparr>rd_chunkSize = cs, rd_start = start, rd_end = en, rd_alignedStart = as, rd_nChunks = n,
      rd_outCap = nat (if outs \<le> 0 then 1 else outs), rd_idx = 0,
      rd_idle = (if (if conc \<le> 0 then 1 else conc) > int n then n else nat (if conc \<le> 0 then 1 else conc)), rd_fetching = [],
      rd_results = (\<lambda>_. None), rd_di = 0, rd_pending = None, rd_closedOut = False, rd_out = [],
      rd_cur = None, rd_err = None, rd_cancelled = False, rd_got = []\<rparr>"
    using f by (simp add: NewReader_def Let_def cs_def as_def ae_def n_def)
  have n: "int n = (ae - as) div cs" "0 < n" using al by (auto simp: n_def)
  have off: "chunk_off ?r i = as + int i * cs" for i by (simp add: r chunk_off_def)
  have "chunk_off ?r n = ae" using al n by (simp add: off)
  moreover have "chunk_off ?r i < en" if "i < n" for i
  proof -
    have "(int i + 1) * cs \<le> int n * cs" using that f by (intro mult_right_mono) auto
    then show ?thesis using al n by (simp add: off algebra_simps)
  qed
  ultimately have geo: "geometry obj ?r" using al f n by (auto simp: geometry_def r)
  moreover have "upto_off ?r 0 = start" using upto_off_0 [OF geo] by (simp add: r)
  ultimately show ?thesis using n by (auto simp: rd_inv_def slots_inv_def close_inv_def cur_bytes_def r)
qed

lemma rd_reach_inv:
  assumes "exact_chunks obj chunk" and "fits csize start en obj"
    and "rd_reach chunk (NewReader csize start en conc outs) r"
  shows "rd_inv obj r \<and> rd_start r = start \<and> rd_end r = en \<and> (rd_cancelled r \<or> slots_inv r \<and> close_inv r)"
  using assms(3)
proof (induction rule: rtranclp_induct)
  case base
  show ?case using NewReader_inv [OF assms(2)] by simp
next
  case (step y z)
  have "rd_cancelled z" if "rd_cancelled y"
    using step.hyps(2) that by cases (auto simp: rd_op_defs Let_def)
  then show ?case
    using step rd_inv_step [OF assms(1)] step_frame slots_step close_step unfolding same_frame_def by metis
qed

section \<open>Progress and termination\<close>

lemma rd_op_cancelled [simp]:
  "rd_cancelled (rd_publish i b r) = rd_cancelled r" "rd_cancelled (rd_take b r) = rd_cancelled r"
  "rd_cancelled (rd_send b r) = rd_cancelled r" "rd_cancelled (rd_pull b r) = rd_cancelled r"
  "rd_cancelled (rd_copy n b r) = rd_cancelled r"
  by (simp_all add: rd_op_defs Let_def)

lemma step_exI: "rd_step chunk r r' \<Longrightarrow> \<not> rd_cancelled r' \<Longrightarrow> \<exists>r'. rd_step chunk r r' \<and> \<not> rd_cancelled r'"
  by blast

lemma rd_progress:
  assumes "rd_inv obj r" and "slots_inv r" and "close_inv r" and "\<not> rd_cancelled r" and "rd_err r = None"
    and total: "\<And>off lim. \<exists>res. chunk off lim res"
  shows "\<exists>r'. rd_step chunk r r' \<and> \<not> rd_cancelled r'"
proof (cases "rd_cur r")
  case (Some b)
  show ?thesis
  proof (cases "isEmpty b")
    case True
    show ?thesis by (rule step_exI [OF skip_empty [OF assms(5) Some True]]) (simp add: assms(4))
  next
    case False
    show ?thesis by (rule step_exI [OF copy [OF assms(5) Some False zero_less_one]]) (simp add: assms(4))
  qed
next
  case cur: None
  consider (out) b bs where "rd_out r = b # bs" | (eof) "rd_out r = []" "rd_closedOut r"
    | (drain) "rd_out r = []" "\<not> rd_closedOut r" by (cases "rd_out r") auto
  then show ?thesis
  proof cases
    case out
    show ?thesis by (rule step_exI [OF pull [OF assms(5) cur out]]) (simp add: assms(4))
  next
    case eof
    show ?thesis by (rule step_exI [OF end_of_file [OF assms(5) cur eof]]) (simp add: assms(4))
  next
    case drain
    show ?thesis
    proof (cases "rd_pending r")
      case (Some b)
      have "length (rd_out r) < rd_outCap r" using assms(1) drain by (simp add: rd_inv_def geometry_def)
      then show ?thesis by (rule step_exI [OF send_out [OF drain(2) Some]]) (simp add: assms(4))
    next
      case pend: None
      consider (full) "rd_nChunks r \<le> rd_di r" | (slot) b where "rd_di r < rd_nChunks r" "rd_results r (rd_di r) = Some b"
        | (wait) "rd_di r < rd_nChunks r" "rd_results r (rd_di r) = None" by (cases "rd_results r (rd_di r)") force+
      then show ?thesis
      proof cases
        case full
        show ?thesis by (rule step_exI [OF drained_all [OF drain(2) pend full]]) (simp add: assms(4))
      next
        case slot
        show ?thesis by (rule step_exI [OF take_slot [OF drain(2) pend slot]]) (simp add: assms(4))
      next
        case wait
        show ?thesis
        proof (cases "rd_fetching r = []")
          case True
          have "rd_idx r \<le> rd_di r"
          proof (rule ccontr)
            assume "\<not> rd_idx r \<le> rd_di r"
            then have "rd_di r < rd_idx r" by simp
            then show False using assms(2) wait True pend drain unfolding slots_inv_def by auto
          qed
          then have "rd_idx r < rd_nChunks r" "0 < rd_idle r"
            using wait assms(3) True by (auto simp: close_inv_def)
          then show ?thesis by (intro step_exI [OF claim [OF assms(4)]]) (simp_all add: assms(4))
        next
          case False
          then obtain i js where f: "rd_fetching r = [] @ i # js" by (cases "rd_fetching r") auto
          then have none: "rd_results r i = None" using assms(2) by (auto simp: slots_inv_def)
          obtain res where "chunk (chunk_off r i) (rd_chunkSize r) res" using total by blast
          from publish [where chunk = chunk, OF f this none] show ?thesis
            by (rule step_exI) (simp add: assms(4))
        qed
      qed
    qed
  qed
qed

definition filled :: "rdr \<Rightarrow> nat set" where
  "filled r = {i. i < rd_nChunks r \<and> rd_results r i \<noteq> None}"

lemma finite_filled [simp]: "finite (filled r)"
  by (simp add: filled_def)

definition rd_todo :: "rdr \<Rightarrow> nat" where
  "rd_todo r = nat (rd_end r - rd_start r) - length (rd_got r)"

definition rd_measure :: "rdr \<Rightarrow> nat" where
  "rd_measure r = 8 * (rd_nChunks r - rd_idx r) + 7 * length (rd_fetching r) + rd_idle r + 5 * card (filled r) +
     (if rd_pending r = None then 0 else 4) + 3 * length (rd_out r) + (if rd_cur r = None then 0 else 2) +
     (if rd_err r = None then 1 else 0) + (if rd_closedOut r then 0 else 1) + (if rd_cancelled r then 0 else 1) +
     rd_todo r"

lemma filled_publish:
  assumes "i < rd_nChunks r" and "rd_results r i = None"
  shows "card (filled (rd_publish i b r)) = Suc (card (filled r))"
proof -
  have "filled (rd_publish i b r) = insert i (filled r)" "i \<notin> filled r"
    using assms by (auto simp: filled_def rd_publish_def split: if_splits)
  then show ?thesis by simp
qed

lemma filled_take:
  assumes "rd_di r < rd_nChunks r" and "rd_results r (rd_di r) = Some c"
  shows "card (filled r) = Suc (card (filled (rd_take b r)))"
proof -
  have "filled r = insert (rd_di r) (filled (rd_take b r))" "rd_di r \<notin> filled (rd_take b r)"
    using assms by (auto simp: filled_def rd_take_def split: if_splits)
  then show ?thesis by (metis card_insert_disjoint finite_filled)
qed

lemma got_bound:
  assumes "rd_inv obj r"
  shows "length (rd_got r) + length (cur_bytes r) \<le> nat (rd_end r - rd_start r)"
proof -
  have "rd_got r @ cur_bytes r @ concat (map bf_buf (rd_out r)) = window (rd_start r) (upto_off r (rd_di r)) obj"
    using assms by (simp add: rd_inv_def)
  then have "length (rd_got r) + length (cur_bytes r) \<le> length (window (rd_start r) (upto_off r (rd_di r)) obj)"
    by (metis append.assoc le_add1 length_append)
  also have "\<dots> \<le> nat (upto_off r (rd_di r) - rd_start r)" by (simp add: window_def)
  also have "\<dots> \<le> nat (rd_end r - rd_start r)"
    using assms by (auto simp: upto_off_def rd_inv_def geometry_def)
  finally show ?thesis .
qed

lemma rd_step_decreases:
  assumes "rd_step chunk r r'" and "rd_inv obj r"
  shows "rd_measure r' < rd_measure r"
  using assms(1)
proof cases
  case claim_cancelled
  let ?p = "rd_publish (rd_idx r) (fetched (Inl ErrCtx)) r"
  have "rd_results r (rd_idx r) = None \<Longrightarrow> card (filled ?p) = Suc (card (filled r))"
    using claim_cancelled by (intro filled_publish) auto
  moreover have "filled (q\<lparr>rd_idle := x, rd_idx := y\<rparr>) = filled q" for q x y by (simp add: filled_def)
  ultimately have "card (filled r') \<le> Suc (card (filled r))" using claim_cancelled(1) by auto
  moreover have "rd_nChunks r' = rd_nChunks r" "rd_idx r' = rd_idx r + 1" "rd_idle r' = rd_idle r - 1"
    "rd_fetching r' = rd_fetching r" "rd_pending r' = rd_pending r" "rd_out r' = rd_out r" "rd_cur r' = rd_cur r"
    "rd_err r' = rd_err r" "rd_closedOut r' = rd_closedOut r" "rd_cancelled r' = rd_cancelled r"
    "rd_todo r' = rd_todo r"
    using claim_cancelled(1) by (simp_all add: rd_publish_def rd_todo_def)
  ultimately show ?thesis using claim_cancelled(3,4) unfolding rd_measure_def by simp
next
  case (publish xs i ys res)
  let ?q = "r\<lparr>rd_fetching := xs @ ys, rd_idle := rd_idle r + 1\<rparr>"
  have "i < rd_nChunks r" using publish assms(2) by (auto simp: rd_inv_def)
  then have "card (filled (rd_publish i (fetched res) ?q)) = Suc (card (filled ?q))"
    using publish by (intro filled_publish) auto
  moreover have "filled ?q = filled r" by (simp add: filled_def)
  ultimately have "card (filled r') = Suc (card (filled r))" using publish(1) by simp
  moreover have "rd_nChunks r' = rd_nChunks r" "rd_idx r' = rd_idx r" "rd_idle r' = rd_idle r + 1"
    "rd_fetching r' = xs @ ys" "rd_pending r' = rd_pending r" "rd_out r' = rd_out r" "rd_cur r' = rd_cur r"
    "rd_err r' = rd_err r" "rd_closedOut r' = rd_closedOut r" "rd_cancelled r' = rd_cancelled r"
    "rd_todo r' = rd_todo r"
    using publish(1) by (simp_all add: rd_publish_def rd_todo_def)
  ultimately show ?thesis using publish(2) unfolding rd_measure_def by simp
next
  case (take_slot b)
  have "card (filled r) = Suc (card (filled (rd_take b r)))" using take_slot by (intro filled_take) auto
  moreover have "rd_nChunks r' = rd_nChunks r" "rd_idx r' = rd_idx r" "rd_idle r' = rd_idle r"
    "rd_fetching r' = rd_fetching r" "rd_pending r' \<noteq> None" "rd_out r' = rd_out r" "rd_cur r' = rd_cur r"
    "rd_err r' = rd_err r" "rd_closedOut r' = rd_closedOut r" "rd_cancelled r' = rd_cancelled r"
    "rd_todo r' = rd_todo r"
    using take_slot(1) by (simp_all add: rd_take_def rd_todo_def)
  ultimately show ?thesis using take_slot(1,3) unfolding rd_measure_def by simp
next
  case (copy b n)
  have k: "0 < min n (length (buf_bytes b))" using copy by (auto simp: isEmpty_def buf_bytes_def)
  have "length (rd_got r) + length (buf_bytes b) \<le> nat (rd_end r - rd_start r)"
    using got_bound [OF assms(2)] copy by (simp add: cur_bytes_def)
  moreover from this k have "length (rd_got r) < nat (rd_end r - rd_start r)" by linarith
  ultimately have "rd_todo r' < rd_todo r"
    using copy(1) k by (auto simp: rd_todo_def rd_copy_def Let_def intro!: diff_less_mono2)
  moreover have "rd_nChunks r' = rd_nChunks r" "rd_idx r' = rd_idx r" "rd_idle r' = rd_idle r" "filled r' = filled r"
    "rd_fetching r' = rd_fetching r" "rd_pending r' = rd_pending r" "rd_out r' = rd_out r" "rd_cur r' \<noteq> None"
    "rd_err r' = rd_err r" "rd_closedOut r' = rd_closedOut r" "rd_cancelled r' = rd_cancelled r"
    using copy(1) by (simp_all add: rd_copy_def Let_def filled_def)
  ultimately show ?thesis using copy(3) unfolding rd_measure_def by simp
qed (auto simp: rd_measure_def filled_def rd_todo_def rd_send_def rd_pull_def Let_def)

section \<open>Prime and Close\<close>

lemma Prime_reach:
  assumes "rd_err r = None" and "Prime r = Some (e, r')"
  shows "rd_reach chunk r r'" and "e = None \<Longrightarrow> rd_cur r' \<noteq> None"
proof -
  show "rd_reach chunk r r'"
  proof (cases "rd_cur r = None")
    case True
    with assms show ?thesis by (auto simp: Prime_def intro: pull split: list.splits if_splits)
  next
    case False
    with assms(2) show ?thesis by (simp add: Prime_def)
  qed
  show "rd_cur r' \<noteq> None" if "e = None"
    using that assms by (auto simp: Prime_def rd_pull_def split: list.splits if_splits)
qed

text \<open>What is left for the background goroutines once the reader is closed.\<close>

definition close_measure :: "rdr \<Rightarrow> nat" where
  "close_measure r = 8 * (rd_nChunks r - rd_idx r) + 7 * length (rd_fetching r) + rd_idle r + 5 * card (filled r) +
     (if rd_pending r = None then 0 else 4) + 3 * length (rd_out r) + (if rd_closedOut r then 0 else 1)"

lemma filled_publish_le: "card (filled (rd_publish i b r)) \<le> Suc (card (filled r))"
proof -
  have "filled (rd_publish i b r) \<subseteq> insert i (filled r)" by (auto simp: filled_def rd_publish_def split: if_splits)
  then have "card (filled (rd_publish i b r)) \<le> card (insert i (filled r))" by (intro card_mono) simp_all
  also have "\<dots> \<le> Suc (card (filled r))" by (simp add: card_insert_if)
  finally show ?thesis .
qed

lemma background_decreases:
  assumes "rd_cancelled r" and "rd_step chunk r r'" and "rd_cur r' = rd_cur r" and "rd_err r' = rd_err r" and "rd_got r' = rd_got r"
  shows "close_measure r' < close_measure r"
  using assms(2)
proof cases
  case claim_cancelled
  let ?p = "rd_publish (rd_idx r) (fetched (Inl ErrCtx)) r"
  have "filled (q\<lparr>rd_idle := x, rd_idx := y\<rparr>) = filled q" for q x y by (simp add: filled_def)
  then have "card (filled r') \<le> Suc (card (filled r))" using claim_cancelled(1) filled_publish_le [of "rd_idx r" _ r] by auto
  moreover have "rd_nChunks r' = rd_nChunks r" "rd_idx r' = rd_idx r + 1" "rd_idle r' = rd_idle r - 1"
    "rd_fetching r' = rd_fetching r" "rd_pending r' = rd_pending r" "rd_out r' = rd_out r" "rd_closedOut r' = rd_closedOut r"
    using claim_cancelled(1) by (simp_all add: rd_publish_def)
  ultimately show ?thesis using claim_cancelled(3,4) unfolding close_measure_def by simp
next
  case (publish xs i ys res)
  let ?q = "r\<lparr>rd_fetching := xs @ ys, rd_idle := rd_idle r + 1\<rparr>"
  have "card (filled r') \<le> Suc (card (filled ?q))" unfolding publish(1) by (rule filled_publish_le)
  moreover have "filled ?q = filled r" by (simp add: filled_def)
  moreover have "rd_nChunks r' = rd_nChunks r" "rd_idx r' = rd_idx r" "rd_idle r' = rd_idle r + 1" "rd_fetching r' = xs @ ys"
    "rd_pending r' = rd_pending r" "rd_out r' = rd_out r" "rd_closedOut r' = rd_closedOut r"
    using publish(1) by (simp_all add: rd_publish_def)
  ultimately show ?thesis using publish(2) unfolding close_measure_def by simp
next
  case (take_slot b)
  then have "card (filled r) = Suc (card (filled r'))" using filled_take [of r b b] by simp
  moreover have "rd_nChunks r' = rd_nChunks r" "rd_idx r' = rd_idx r" "rd_idle r' = rd_idle r" "rd_fetching r' = rd_fetching r"
    "rd_pending r' \<noteq> None" "rd_out r' = rd_out r" "rd_closedOut r' = rd_closedOut r"
    using take_slot(1) by (simp_all add: rd_take_def)
  ultimately show ?thesis using take_slot(3) unfolding close_measure_def by simp
next
  case (copy b n)
  then have "rd_got r' \<noteq> rd_got r" by (auto simp: rd_copy_def Let_def isEmpty_def buf_bytes_def)
  with assms(5) show ?thesis by simp
qed (use assms in \<open>auto simp: close_measure_def filled_def rd_send_def rd_pull_def Let_def split: if_splits\<close>)

lemma closing_decreases: "closing_step chunk r r' \<Longrightarrow> close_measure r' < close_measure r"
  by (cases rule: closing_step.cases) (auto dest: background_decreases simp: close_measure_def filled_def)

lemma rd_step_cancelled: "rd_step chunk r r' \<Longrightarrow> rd_cancelled r \<Longrightarrow> rd_cancelled r'"
  by (induction rule: rd_step.induct) (auto simp: rd_publish_def rd_take_def rd_send_def rd_pull_def rd_copy_def Let_def)

lemma closing_cancelled: "closing_step chunk r r' \<Longrightarrow> rd_cancelled r'"
  by (induction rule: closing_step.induct) (auto intro: rd_step_cancelled)

lemma closing_progress:
  assumes "rd_cancelled r" and "\<not> all_ended r"
  shows "\<exists>r'. closing_step chunk r r'"
proof -
  consider i ys where "rd_fetching r = i # ys" | "rd_fetching r = []" "0 < rd_idle r" | "\<not> rd_closedOut r"
    using assms(2) by (cases "rd_fetching r") (auto simp: all_ended_def)
  then show ?thesis
  proof cases
    case 1
    then have "rd_fetching r = [] @ i # ys" by simp
    show ?thesis by (rule exI, rule background [OF assms(1) drop_result [OF assms(1) \<open>rd_fetching r = [] @ i # ys\<close>]]) simp_all
  next
    case 2
    show ?thesis
    proof (cases "rd_idx r < rd_nChunks r")
      case True
      show ?thesis
        by (rule exI, rule background [OF assms(1) claim_cancelled [OF assms(1) 2(2) True]]) (simp_all add: rd_publish_def)
    next
      case False
      then have "rd_nChunks r \<le> rd_idx r" by simp
      show ?thesis by (rule exI, rule background [OF assms(1) retire [OF 2(2) \<open>rd_nChunks r \<le> rd_idx r\<close>]]) simp_all
    qed
  next
    case 3
    show ?thesis by (rule exI, rule background [OF assms(1) drain_cancelled [OF assms(1) 3]]) simp_all
  qed
qed

section \<open>The interface to the chunk source\<close>

locale chunk_source =
  fixes ok :: "'src \<Rightarrow> bool"
    and chunk :: "'src \<Rightarrow> int \<Rightarrow> int \<Rightarrow> goerr + bytes \<Rightarrow> bool"
    and csize :: "'src \<Rightarrow> int \<Rightarrow> int \<Rightarrow> int"
    and obj :: "'src \<Rightarrow> bytes"
  assumes csize_pos: "ok s \<Longrightarrow> 0 < csize s a b"
    and chunk_total: "ok s \<Longrightarrow> \<exists>res. chunk s off lim res"
    and chunk_exact: "ok s \<Longrightarrow> 0 \<le> off \<Longrightarrow> 0 < lim \<Longrightarrow> chunk s off lim (Inr bs) \<Longrightarrow> bs = window off (off + lim) (obj s)"
    and chunk_not_eof: "ok s \<Longrightarrow> 0 \<le> off \<Longrightarrow> 0 < lim \<Longrightarrow> \<not> chunk s off lim (Inl ErrEOF)"
begin

lemma exact: "ok s \<Longrightarrow> exact_chunks (obj s) (chunk s)"
  using chunk_exact chunk_not_eof by (auto simp: exact_chunks_def split: sum.splits)

lemma in_order:
  assumes "ok s" and "0 \<le> start" and "start \<le> en" and "en \<le> int (length (obj s))"
    and "rd_reach (chunk s) (NewReader (csize s) start en conc outs) r"
  shows "prefix (rd_got r) (window start en (obj s))"
proof -
  have inv: "rd_inv (obj s) r" "rd_start r = start" "rd_end r = en"
    using rd_reach_inv [OF exact [OF assms(1)] _ assms(5)] assms csize_pos by (auto simp: fits_def)
  then have geo: "geometry (obj s) r" and "rd_got r @ cur_bytes r @ concat (map bf_buf (rd_out r)) = window start (upto_off r (rd_di r)) (obj s)"
    by (auto simp: rd_inv_def)
  then have "prefix (rd_got r) (window start (upto_off r (rd_di r)) (obj s))" by (metis prefixI)
  moreover have "window start (upto_off r (rd_di r)) (obj s) @ window (upto_off r (rd_di r)) en (obj s) = window start en (obj s)"
    using geo inv upto_off_start [OF geo, of "rd_di r"] by (intro window_append) (auto simp: upto_off_def geometry_def)
  ultimately show ?thesis by (metis prefix_prefix)
qed

lemma complete_at_eof:
  assumes "ok s" and "0 \<le> start" and "start \<le> en" and "en \<le> int (length (obj s))"
    and "rd_reach (chunk s) (NewReader (csize s) start en conc outs) r" and "rd_err r = Some ErrEOF" and "\<not> rd_cancelled r"
  shows "rd_got r = window start en (obj s)"
proof -
  have inv: "rd_inv (obj s) r" "rd_start r = start" "rd_end r = en" "close_inv r"
    using rd_reach_inv [OF exact [OF assms(1)] _ assms(5)] assms csize_pos by (auto simp: fits_def)
  then have "rd_di r = rd_nChunks r" "rd_out r = []" "rd_cur r = None" "geometry (obj s) r"
    using assms(6) by (auto simp: close_inv_def rd_inv_def)
  with inv upto_off_n [of "obj s" r] show ?thesis by (simp add: rd_inv_def cur_bytes_def)
qed

lemma never_stuck:
  assumes "ok s" and "0 \<le> start" and "start \<le> en" and "en \<le> int (length (obj s))"
    and "rd_reach (chunk s) (NewReader (csize s) start en conc outs) r"
  shows "(\<forall>r'. rd_step (chunk s) r r' \<longrightarrow> rd_measure r' < rd_measure r) \<and>
    (rd_err r = None \<and> \<not> rd_cancelled r \<longrightarrow> (\<exists>r'. rd_step (chunk s) r r' \<and> \<not> rd_cancelled r'))"
proof -
  have inv: "rd_inv (obj s) r" "rd_cancelled r \<or> slots_inv r \<and> close_inv r"
    using rd_reach_inv [OF exact [OF assms(1)] _ assms(5)] assms csize_pos by (auto simp: fits_def)
  then show ?thesis using rd_step_decreases rd_progress chunk_total [OF assms(1)] by metis
qed

end

section \<open>The backend source provides it\<close>

record source =
  sr_src :: backend_source
  sr_content :: "chunk_ref \<Rightarrow> bytes"
  sr_fetches :: "(chunk_ref \<Rightarrow> int \<Rightarrow> int \<Rightarrow> goerr + bytes) \<Rightarrow> bool"

text \<open>
  \<open>sr_fetches\<close> are the behaviours a range read can have during the read of the object; each call of
  \<open>Chunk\<close> sees one of them.
\<close>

definition source_ok :: "source \<Rightarrow> bool" where
  "source_ok s \<longleftrightarrow> valid_source (sr_content s) (sr_src s) \<and> (\<exists>f. sr_fetches s f) \<and>
     (\<forall>f. sr_fetches s f \<longrightarrow> exact_fetch (sr_content s) f \<and> (\<forall>ref off len. f ref off len \<noteq> Inl ErrEOF))"

definition source_chunk :: "source \<Rightarrow> int \<Rightarrow> int \<Rightarrow> goerr + bytes \<Rightarrow> bool" where
  "source_chunk s off lim res \<longleftrightarrow> (\<exists>f. sr_fetches s f \<and> Chunk f (sr_src s) off lim = res)"

definition source_bytes :: "source \<Rightarrow> bytes" where
  "source_bytes s = object_bytes (sr_content s) (so_locs (sr_src s))"

interpretation backend: chunk_source source_ok source_chunk "\<lambda>s. ChunkSize (sr_src s)" source_bytes
proof
  fix s a b show "0 < ChunkSize (sr_src s) a b" by (rule ChunkSize_pos)
next
  fix s off lim assume "source_ok s"
  then show "\<exists>res. source_chunk s off lim res" by (auto simp: source_ok_def source_chunk_def)
next
  fix s off lim bs assume ok: "source_ok s" "0 \<le> off" "0 < lim" and c: "source_chunk s off lim (Inr bs)"
  then obtain f where f: "sr_fetches s f" "Chunk f (sr_src s) off lim = Inr bs" by (auto simp: source_chunk_def)
  have "valid_source (sr_content s) (sr_src s)" "exact_fetch (sr_content s) f" using ok f by (auto simp: source_ok_def)
  from Chunk_exact [OF this ok(2), of lim] ok(3) f show "bs = window off (off + lim) (source_bytes s)"
    by (simp add: source_bytes_def)
next
  fix s and off lim :: int assume ok: "source_ok s" "0 \<le> off" "0 < lim"
  show "\<not> source_chunk s off lim (Inl ErrEOF)"
  proof
    assume "source_chunk s off lim (Inl ErrEOF)"
    then obtain f where f: "sr_fetches s f" "Chunk f (sr_src s) off lim = Inl ErrEOF" by (auto simp: source_chunk_def)
    have "valid_source (sr_content s) (sr_src s)" "exact_fetch (sr_content s) f" using ok f by (auto simp: source_ok_def)
    from Chunk_exact [OF this ok(2), of lim] f(2) ok(3) obtain ref off len where "f ref off len = Inl ErrEOF" by auto
    with ok f show False by (auto simp: source_ok_def)
  qed
qed

section \<open>One executable schedule\<close>

text \<open>The next step of a fixed schedule, for evaluating a concrete run.\<close>

definition sched :: "(int \<Rightarrow> int \<Rightarrow> goerr + bytes) \<Rightarrow> rdr \<Rightarrow> rdr" where
  "sched f r =
     (if rd_err r \<noteq> None \<or> rd_cancelled r then r
      else case rd_cur r of
        Some b \<Rightarrow> if isEmpty b then r\<lparr>rd_cur := None\<rparr> else rd_copy 3 b r
      | None \<Rightarrow>
        (case rd_out r of
           b # bs \<Rightarrow> rd_pull b (r\<lparr>rd_out := bs\<rparr>)
         | [] \<Rightarrow>
           if rd_closedOut r then r\<lparr>rd_err := Some ErrEOF\<rparr>
           else case rd_pending r of
             Some b \<Rightarrow> if 0 < rd_outCap r then rd_send b r else r
           | None \<Rightarrow>
             if rd_nChunks r \<le> rd_di r then r\<lparr>rd_closedOut := True\<rparr>
             else case rd_results r (rd_di r) of
               Some b \<Rightarrow> rd_take b r
             | None \<Rightarrow>
               if 0 < rd_idle r \<and> rd_idx r < rd_nChunks r
               then r\<lparr>rd_idle := rd_idle r - 1, rd_fetching := rd_fetching r @ [rd_idx r], rd_idx := rd_idx r + 1\<rparr>
               else (case rev (rd_fetching r) of
                   [] \<Rightarrow> r
                 | i # is' \<Rightarrow> if rd_results r i \<noteq> None then r
                     else rd_publish i (fetched (f (chunk_off r i) (rd_chunkSize r)))
                       (r\<lparr>rd_fetching := rev is', rd_idle := rd_idle r + 1\<rparr>))))"

lemma sched_workers:
  assumes ch: "\<And>off lim. chunk off lim (f off lim)" and live: "rd_err r = None" "\<not> rd_cancelled r"
    and cur: "rd_cur r = None" and out: "rd_out r = []" and op: "\<not> rd_closedOut r" and pend: "rd_pending r = None"
    and ne: "sched f r \<noteq> r"
  shows "rd_step chunk r (sched f r)"
proof (cases "rd_nChunks r \<le> rd_di r")
  case True
  then show ?thesis using drained_all [OF op pend True] live cur out op pend by (simp add: sched_def)
next
  case di: False
  show ?thesis
  proof (cases "rd_results r (rd_di r)")
    case (Some b)
    then show ?thesis using take_slot [OF op pend _ Some] di live cur out op pend by (simp add: sched_def)
  next
    case res: None
    note here = live cur out op pend di res
    show ?thesis
    proof (cases "0 < rd_idle r \<and> rd_idx r < rd_nChunks r")
      case True
      then show ?thesis using claim [OF live(2), of chunk] here by (simp add: sched_def)
    next
      case False
      then obtain i js where js: "rev (rd_fetching r) = i # js" and none: "rd_results r i = None"
        using ne here by (auto simp: sched_def split: list.splits if_splits)
      then have "rd_fetching r = rev js @ i # []" by (metis rev.simps(2) rev_rev_ident)
      from publish [where chunk = chunk, OF this ch none] show ?thesis
        using False here js none by (auto simp: sched_def)
    qed
  qed
qed

lemma sched_step:
  assumes ch: "\<And>off lim. chunk off lim (f off lim)" and ne: "sched f r \<noteq> r"
  shows "rd_step chunk r (sched f r)"
proof -
  have live: "rd_err r = None" "\<not> rd_cancelled r" using ne by (auto simp: sched_def split: if_splits)
  show ?thesis
  proof (cases "rd_cur r")
    case (Some b)
    show ?thesis
    proof (cases "isEmpty b")
      case True
      then show ?thesis using skip_empty [OF live(1) Some True] live Some by (simp add: sched_def)
    next
      case False
      then show ?thesis using copy [OF live(1) Some False, of 3] live Some by (simp add: sched_def)
    qed
  next
    case cur: None
    show ?thesis
    proof (cases "rd_out r")
      case (Cons b bs)
      then show ?thesis using pull [OF live(1) cur Cons] live cur by (simp add: sched_def)
    next
      case out: Nil
      show ?thesis
      proof (cases "rd_closedOut r")
        case True
        then show ?thesis using end_of_file [OF live(1) cur out True] live cur out by (simp add: sched_def)
      next
        case op: False
        show ?thesis
        proof (cases "rd_pending r")
          case (Some b)
          then have "0 < rd_outCap r" using ne live cur out op by (auto simp: sched_def split: if_splits)
          then show ?thesis using send_out [OF op Some] live cur out op Some by (simp add: sched_def)
        next
          case pend: None
          show ?thesis by (rule sched_workers [where f = f and chunk = chunk, OF ch live cur out op pend ne])
        qed
      qed
    qed
  qed
qed

lemma sched_reach: "(\<And>off lim. chunk off lim (f off lim)) \<Longrightarrow> rd_reach chunk r (sched f r)"
  by (metis r_into_rtranclp rtranclp.rtrancl_refl sched_step)

lemma sched_reach_pow: "(\<And>off lim. chunk off lim (f off lim)) \<Longrightarrow> rd_reach chunk r ((sched f ^^ k) r)"
proof (induction k)
  case (Suc k)
  then show ?case using sched_reach [of chunk f "(sched f ^^ k) r"] by auto
qed simp

definition w_fetch :: "chunk_ref \<Rightarrow> int \<Rightarrow> int \<Rightarrow> goerr + bytes" where
  "w_fetch ref off len = Inr (range_of off len (if cr_size ref = 5 then ''hello'' else ''!!''))"

definition w_src :: backend_source where
  "w_src = \<lparr>so_objSize = 7, so_locs =
       [\<lparr>cl_ref = \<lparr>cr_size = 5, cr_replicas = []\<rparr>, cl_offset = 0, cl_size = 5\<rparr>,
        \<lparr>cl_ref = \<lparr>cr_size = 2, cr_replicas = []\<rparr>, cl_offset = 5, cl_size = 2\<rparr>], so_chunkSize = 4\<rparr>"

definition w_source :: source where
  "w_source = \<lparr>sr_src = w_src, sr_content = (\<lambda>ref. if cr_size ref = 5 then ''hello'' else ''!!''), sr_fetches = (\<lambda>f. f = w_fetch)\<rparr>"

lemma w_source_ok: "source_ok w_source"
  by (simp add: source_ok_def w_source_def w_src_def valid_source_def exact_fetch_def w_fetch_def)

definition w_r0 :: rdr where
  "w_r0 = NewReader (ChunkSize w_src) 1 4 2 1"

definition w_rend :: rdr where
  "w_rend = (sched (Chunk w_fetch w_src) ^^ 9) w_r0"

lemma w_rend_reach: "rd_reach (source_chunk w_source) w_r0 w_rend"
  unfolding w_rend_def by (rule sched_reach_pow) (simp add: source_chunk_def w_source_def)

lemma w_source_src: "sr_src w_source = w_src"
  by (simp add: w_source_def)

lemma w_bytes: "source_bytes w_source = ''hello!!''"
  by (simp add: source_bytes_def w_source_def w_src_def object_bytes_def)

lemma w_rend_eq: "rd_err w_rend = Some ErrEOF \<and> rd_cancelled w_rend = False"
proof -
  let ?f = "Chunk w_fetch w_src"
  have r0: "w_r0 = \<lparr>rd_chunkSize = 4, rd_start = 1, rd_end = 4, rd_alignedStart = 0, rd_nChunks = 1, rd_outCap = 1,
      rd_idx = 0, rd_idle = 1, rd_fetching = [], rd_results = (\<lambda>_. None), rd_di = 0, rd_pending = None,
      rd_closedOut = False, rd_out = [], rd_cur = None, rd_err = None, rd_cancelled = False, rd_got = []\<rparr>"
    by (simp add: w_r0_def NewReader_def ChunkSize_def halve_loop.simps w_src_def Let_def)
  have f: "?f 0 4 = Inr ''hell''" by code_simp
  show ?thesis
    by (simp add: w_rend_def eval_nat_numeral r0 sched_def rd_publish_def chunk_off_def f fetched_def
        rd_take_def trim_def rd_send_def rd_pull_def rd_copy_def isEmpty_def buf_bytes_def advance_def Let_def)
qed

section \<open>Properties\<close>

text \<open>
  C8 (safety). Bytes are delivered in order, whatever order the fetches complete in: at every
  moment of every interleaving, also under cancellation and after a failed chunk, what \<open>Read\<close> has
  returned is a prefix of the requested range of the object.
\<close>

theorem reader_in_order:
  assumes "source_ok s" and "0 \<le> start" and "start \<le> en" and "en \<le> int (length (source_bytes s))"
    and "rd_reach (source_chunk s) (NewReader (ChunkSize (sr_src s)) start en conc outs) r"
  shows "prefix (rd_got r) (window start en (source_bytes s))"
  using assms by (rule backend.in_order)

theorem reader_in_order_witness: "prefix (rd_got w_rend) (window 1 4 ''hello!!'')"
  using reader_in_order [OF w_source_ok, of 1 4 2 1 w_rend] w_rend_reach by (simp add: w_bytes w_r0_def w_source_src)



text \<open>
  C18 (termination). The reader neither deadlocks nor runs for ever: every step of workers, drainer
  and consumer decreases a measure, and as long as \<open>Read\<close> has not returned an error a step other
  than closing is possible. And \<open>Close\<close> returns: once the reader is closed every step decreases a
  measure, and there is one until all workers and the drainer have ended.
\<close>

theorem reader_never_stuck:
  assumes "source_ok s" and "0 \<le> start" and "start \<le> en" and "en \<le> int (length (source_bytes s))"
    and "rd_reach (source_chunk s) (NewReader (ChunkSize (sr_src s)) start en conc outs) r"
  shows "(\<forall>r'. rd_step (source_chunk s) r r' \<longrightarrow> rd_measure r' < rd_measure r) \<and>
    (rd_err r = None \<and> \<not> rd_cancelled r \<longrightarrow> (\<exists>r'. rd_step (source_chunk s) r r' \<and> \<not> rd_cancelled r')) \<and>
    (\<forall>r1. rd_cancelled r \<and> (closing_step (source_chunk s))\<^sup>*\<^sup>* r r1 \<longrightarrow>
       (\<forall>r2. closing_step (source_chunk s) r1 r2 \<longrightarrow> close_measure r2 < close_measure r1) \<and>
       (\<not> all_ended r1 \<longrightarrow> (\<exists>r2. closing_step (source_chunk s) r1 r2)))"
proof -
  have "rd_cancelled r1" if "rd_cancelled r" "(closing_step (source_chunk s))\<^sup>*\<^sup>* r r1" for r1
    using that(2,1) by (induction rule: rtranclp_induct) (auto intro: closing_cancelled)
  then show ?thesis using backend.never_stuck [OF assms] closing_decreases closing_progress by metis
qed

theorem reader_never_stuck_witness:
  "(\<exists>r'. rd_step (source_chunk w_source) w_r0 r' \<and> \<not> rd_cancelled r') \<and>
   (\<exists>r'. closing_step (source_chunk w_source) (w_r0\<lparr>rd_cancelled := True\<rparr>) r')"
proof
  have r0: "rd_err w_r0 = None \<and> \<not> rd_cancelled w_r0" by code_simp
  with reader_never_stuck [OF w_source_ok, of 1 4 2 1 w_r0] show "\<exists>r'. rd_step (source_chunk w_source) w_r0 r' \<and> \<not> rd_cancelled r'"
    by (simp add: w_bytes w_r0_def w_source_src)
  have "rd_reach (source_chunk w_source) w_r0 (w_r0\<lparr>rd_cancelled := True\<rparr>)" using r0 by (intro r_into_rtranclp close) simp
  moreover have "\<not> all_ended (w_r0\<lparr>rd_cancelled := True\<rparr>)" by code_simp
  ultimately show "\<exists>r'. closing_step (source_chunk w_source) (w_r0\<lparr>rd_cancelled := True\<rparr>) r'"
    using reader_never_stuck [OF w_source_ok, of 1 4 2 1 "w_r0\<lparr>rd_cancelled := True\<rparr>"] by (simp add: w_bytes w_r0_def w_source_src)
qed

text \<open>
  A range read over the chunk map returns the window of the concatenated chunks,
  also where it straddles chunk boundaries or runs past the end; it fails only when the read of a
  chunk fails.
\<close>

theorem chunk_read_exact:
  assumes "valid_source content src" and "exact_fetch content fetch" and "0 \<le> off" and "0 \<le> lim"
  shows "case Chunk fetch src off lim of
      Inr bs \<Rightarrow> bs = window off (off + lim) (concat (map (\<lambda>l. content (cl_ref l)) (so_locs src)))
    | Inl e \<Rightarrow> \<exists>ref off len. fetch ref off len = Inl e"
  using Chunk_exact [OF assms] unfolding object_bytes_def .

theorem chunk_read_exact_witness: "Chunk w_fetch w_src 3 3 = Inr (window 3 6 ''hello!!'')"
proof -
  have "valid_source (sr_content w_source) w_src" "exact_fetch (sr_content w_source) w_fetch"
    using w_source_ok by (auto simp: source_ok_def w_source_def)
  moreover have "isl (Chunk w_fetch w_src 3 3) = False" by code_simp
  ultimately show ?thesis
    using chunk_read_exact [of "sr_content w_source" w_src w_fetch 3 3]
    by (cases "Chunk w_fetch w_src 3 3") (auto simp: w_source_def w_src_def)
qed

end
