(* ===== verification/SigV4Props.thy ===== *)
theory SigV4Props
  imports SigV4
begin

text \<open>
  What a valid signature binds, that a correctly signed request is accepted, when a presigned URL stops
  being accepted, and which bucket and key a path addresses.
\<close>

section \<open>Injectivity of the pieces\<close>

lemma digit_char_inj: "a < 16 \<Longrightarrow> b < 16 \<Longrightarrow> digit_char a = digit_char b \<Longrightarrow> a = b"
  by (metis digit_char_val(1) option.inject order_refl)

lemma hex_encode_Cons:
  "hex_encode (c # cs) = digit_char (of_char c div 16) # digit_char (of_char c mod 16) # hex_encode cs"
  by (simp add: hex_encode_def)

lemma hex_encode_inj: "hex_encode a = hex_encode b \<Longrightarrow> a = b"
proof (induction a arbitrary: b)
  case Nil
  then show ?case by (cases b) (simp_all add: hex_encode_def)
next
  case (Cons x xs)
  then obtain y ys where b: "b = y # ys" by (cases b) (auto simp: hex_encode_def)
  with Cons.prems have e: "digit_char (of_char x div 16) = digit_char (of_char y div 16)"
    "digit_char (of_char x mod 16) = digit_char (of_char y mod 16)" "hex_encode xs = hex_encode ys"
    by (simp_all add: hex_encode_Cons)
  have "(of_char x :: nat) div 16 = of_char y div 16" "(of_char x :: nat) mod 16 = of_char y mod 16"
    using e(1,2) byte_nibbles digit_char_inj by blast+
  then have "(of_char x :: nat) = of_char y" by (metis div_mult_mod_eq)
  with e(3) Cons.IH b show ?case by simp
qed

lemma hex_encode_alpha: "set (hex_encode bs) \<subseteq> hex_alphabet"
proof (induction bs)
  case (Cons c cs)
  have "digit_char (of_char c div 16) \<in> hex_alphabet" and "digit_char (of_char c mod 16) \<in> hex_alphabet"
    using byte_nibbles by (auto intro: digit_char_val(2))
  with Cons show ?case unfolding hex_encode_Cons by simp
qed (simp add: hex_encode_def)

lemma Fields_clean: "x \<in> set (Fields s) \<Longrightarrow> c \<in> set x \<Longrightarrow> c \<notin> set space_chars"
proof (induction s rule: Fields.induct)
  case (1 s)
  show ?case
  proof (cases "TrimLeft s space_chars = []")
    case True
    with 1 show ?thesis by (simp add: Fields.simps [of s])
  next
    case False
    with 1 show ?thesis by (auto simp: Fields.simps [of s] Let_def dest: set_takeWhileD)
  qed
qed

lemma Join_chars: "c \<in> set (Join sep xs) \<Longrightarrow> c \<in> set sep \<or> (\<exists>x \<in> set xs. c \<in> set x)"
  by (induction sep xs rule: Join.induct) auto

lemma lower_lf: "lower_char c = lf \<Longrightarrow> c = lf"
proof (rule ccontr)
  assume l: "lower_char c = lf" and "c \<noteq> lf"
  then have up: "CHR ''A'' \<le> c" "c \<le> CHR ''Z''" and "char_of (of_char c + 32 :: nat) = lf"
    by (auto simp: lower_char_def split: if_splits)
  then have "of_char (char_of (of_char c + 32 :: nat)) = (of_char lf :: nat)" by simp
  then have "(of_char c + 32) mod 256 = (10 :: nat)" unfolding of_char_of by simp
  moreover have "65 \<le> (of_char c :: nat)" "of_char c \<le> (90 :: nat)" using up by (auto simp: less_eq_char_def)
  ultimately show False by simp
qed

section \<open>Signatures\<close>

definition signed_value :: "(string \<rightharpoonup> string) \<Rightarrow> request \<Rightarrow> string \<Rightarrow> string" where
  "signed_value override r name =
     Join '' '' (Fields (case override (ToLower name) of
        Some v \<Rightarrow> v | None \<Rightarrow> if ToLower name = ''host'' then rq_host r else hdr r name))"

lemma header_line_alt: "header_line override r name = ToLower name @ '':'' @ signed_value override r name @ [lf]"
  by (simp add: header_line_def signed_value_def Let_def)

lemma signed_value_no_lf: "lf \<notin> set (signed_value override r name)"
proof
  assume "lf \<in> set (signed_value override r name)"
  then have "lf \<in> set '' '' \<or> (\<exists>x \<in> set (Fields (case override (ToLower name) of
        Some v \<Rightarrow> v | None \<Rightarrow> if ToLower name = ''host'' then rq_host r else hdr r name)). lf \<in> set x)"
    unfolding signed_value_def by (rule Join_chars)
  moreover have "lf \<in> set space_chars" by (simp add: space_chars_def)
  ultimately show False using Fields_clean by auto
qed

lemma header_lines_determine:
  assumes "concat (map (header_line ov r1) names) = concat (map (header_line ov r2) names)"
    and "\<And>n. n \<in> set names \<Longrightarrow> lf \<notin> set n"
  shows "\<forall>n \<in> set names. signed_value ov r1 n = signed_value ov r2 n"
  using assms
proof (induction names)
  case (Cons n ns)
  have l: "lf \<notin> set (ToLower n)"
  proof
    assume "lf \<in> set (ToLower n)"
    then obtain x where "x \<in> set n" "lower_char x = lf" by (auto simp: ToLower_def simp del: of_char_Char)
    with lower_lf [of x] Cons.prems(2) [of n] show False by simp
  qed
  have e: "(ToLower n @ '':'' @ signed_value ov r1 n) @ lf # concat (map (header_line ov r1) ns) =
      (ToLower n @ '':'' @ signed_value ov r2 n) @ lf # concat (map (header_line ov r2) ns)"
    using Cons.prems(1) by (simp add: header_line_alt [of _ _ n])
  have "ToLower n @ '':'' @ signed_value ov r1 n = ToLower n @ '':'' @ signed_value ov r2 n \<and>
      concat (map (header_line ov r1) ns) = concat (map (header_line ov r2) ns)"
    by (rule first_sep_unique [OF e]) (use l signed_value_no_lf in auto)
  with Cons.IH Cons.prems(2) show ?case by simp
qed simp

lemma stringToSign_determines:
  assumes "stringToSign cy d1 date region service c1 = stringToSign cy d2 date region service c2"
    and "lf \<notin> set d1" and "lf \<notin> set d2"
  shows "d1 = d2" and "cy_sha256 cy c1 = cy_sha256 cy c2"
proof -
  let ?t = "date @ ''/'' @ region @ ''/'' @ service @ ''/aws4_request'' @ [lf]"
  have "d1 @ lf # ?t @ hex_encode (cy_sha256 cy c1) = d2 @ lf # ?t @ hex_encode (cy_sha256 cy c2)"
    using assms(1) by (simp add: stringToSign_def)
  from first_sep_unique [OF this assms(2,3)] show "d1 = d2" and "cy_sha256 cy c1 = cy_sha256 cy c2"
    by (auto dest: hex_encode_inj)
qed


definition w_crypto :: crypto where
  "w_crypto = \<lparr>cy_sha256 = (\<lambda>x. x), cy_hmac = (\<lambda>k x. x @ k), cy_time = (\<lambda>s. if s = ''T'' then Some 0 else None)\<rparr>"

definition w_auth :: auth_cfg where
  "w_auth = \<lparr>ac_access = ''AK'', ac_secret = ''s'', ac_host = []\<rparr>"

definition w_request :: "url_values \<Rightarrow> request" where
  "w_request q = \<lparr>rq_method = ''GET'', rq_host = ''h'', rq_path = ''/b/k'', rq_query = q, rq_header = [],
     rq_body = \<lparr>sg_segs = [], sg_fin = ErrEOF\<rparr>\<rparr>"


section \<open>A signed request is accepted\<close>

text \<open>The header an AWS client sends.\<close>

definition auth_header :: "string \<Rightarrow> string \<Rightarrow> string \<Rightarrow> string \<Rightarrow> string \<Rightarrow> string \<Rightarrow> string" where
  "auth_header access date region service signedHeaders signature =
     ''AWS4-HMAC-SHA256 Credential='' @ access @ ''/'' @ date @ ''/'' @ region @ ''/'' @ service @
     ''/aws4_request, SignedHeaders='' @ signedHeaders @ '', Signature='' @ signature"

text \<open>A word that neither the header's separators nor the credential's split.\<close>

definition plain_word :: "string \<Rightarrow> bool" where
  "plain_word s \<longleftrightarrow> s \<noteq> [] \<and> (\<forall>c \<in> set s. c \<noteq> CHR '','' \<and> c \<noteq> CHR ''='' \<and> c \<noteq> CHR ''/'' \<and> c \<notin> set space_chars)"

lemma trim_words:
  assumes "\<And>c. c \<in> set s \<Longrightarrow> c \<notin> set space_chars"
  shows "TrimSpace s = s" and "TrimSpace (CHR '' '' # s) = s"
proof -
  show a: "TrimSpace s = s" unfolding TrimSpace_def using assms by (rule Trim_clean)
  have "CHR '' '' \<in> set space_chars" by (simp add: space_chars_def)
  then have "TrimSpace (CHR '' '' # s) = TrimSpace s" by (simp add: TrimSpace_def Trim_def TrimLeft_def)
  with a show "TrimSpace (CHR '' '' # s) = s" by simp
qed

lemma field_split:
  assumes "CHR ''='' \<notin> set k"
  shows "SplitN2 CHR ''='' (k @ CHR ''='' # v) = [k, v]"
  using IndexByte_append [OF assms, of v] by (simp add: SplitN2_def)

lemma plain_word_clean:
  assumes "plain_word s"
  shows "CHR '','' \<notin> set s" and "CHR ''='' \<notin> set s" and "CHR ''/'' \<notin> set s" and "c \<in> set s \<Longrightarrow> c \<notin> set space_chars"
  using assms unfolding plain_word_def by blast+

definition credential :: "string \<Rightarrow> string \<Rightarrow> string \<Rightarrow> string \<Rightarrow> string" where
  "credential access date region service = access @ ''/'' @ date @ ''/'' @ region @ ''/'' @ service @ ''/aws4_request''"

lemma credential_parts:
  assumes "plain_word access" "plain_word date" "plain_word region" "plain_word service"
  shows "Split CHR ''/'' (credential access date region service) = [access, date, region, service, ''aws4_request'']"
  using plain_word_clean(3) [OF assms(1)] plain_word_clean(3) [OF assms(2)] plain_word_clean(3) [OF assms(3)]
    plain_word_clean(3) [OF assms(4)]
  by (simp add: credential_def Split_append)

lemma credential_chars:
  assumes "plain_word access" "plain_word date" "plain_word region" "plain_word service"
    and "c \<in> set (credential access date region service)"
  shows "c \<noteq> CHR '','' \<and> c \<notin> set space_chars"
proof -
  define w where "w = ''/aws4_request''"
  have w: "\<forall>c \<in> set w. c \<noteq> CHR '','' \<and> c \<notin> set space_chars" unfolding w_def by code_simp
  have sl: "CHR ''/'' \<in> set w" by (simp add: w_def)
  have "c \<in> set w \<or> c \<in> set access \<or> c \<in> set date \<or> c \<in> set region \<or> c \<in> set service"
    using assms(5) sl unfolding credential_def w_def [symmetric] set_append Un_iff list.set by blast
  moreover have "x \<noteq> CHR '','' \<and> x \<notin> set space_chars" if "plain_word s" "x \<in> set s" for s x
    using plain_word_clean(1,4) [OF that(1)] that(2) by blast
  ultimately show ?thesis using w assms(1-4) by blast
qed

lemma auth_fields:
  assumes cred: "\<And>c. c \<in> set cred \<Longrightarrow> c \<noteq> CHR '','' \<and> c \<notin> set space_chars"
    and sh: "plain_word sh" and sig: "plain_word sig"
  shows "parseAuthFields (''Credential='' @ cred @ '', SignedHeaders='' @ sh @ '', Signature='' @ sig) =
    (\<lambda>_. [])(''Credential'' := cred, ''SignedHeaders'' := sh, ''Signature'' := sig)"
proof -
  let ?a = "''Credential='' @ cred" and ?b = "'' SignedHeaders='' @ sh" and ?c = "'' Signature='' @ sig"
  have na: "CHR '','' \<notin> set ?a" using cred by auto
  have nb: "CHR '','' \<notin> set ?b" and nc: "CHR '','' \<notin> set ?c" using plain_word_clean(1) [OF sh] plain_word_clean(1) [OF sig] by auto
  have "''Credential='' @ cred @ '', SignedHeaders='' @ sh @ '', Signature='' @ sig = ?a @ CHR '','' # ?b @ CHR '','' # ?c" by simp
  then have sp: "Split CHR '','' (''Credential='' @ cred @ '', SignedHeaders='' @ sh @ '', Signature='' @ sig) = [?a, ?b, ?c]"
    using Split_append [OF na] Split_append [OF nb] Split_single [OF nc] by metis
  have w: "\<forall>c \<in> set ''Credential=SignedHeaders=Signature=''. c \<notin> set space_chars" by code_simp
  have ta: "TrimSpace ?a = ''Credential'' @ CHR ''='' # cred" using trim_words(1) [of ?a] cred w by auto
  have tb: "TrimSpace ?b = ''SignedHeaders'' @ CHR ''='' # sh"
    using trim_words(2) [of "''SignedHeaders='' @ sh"] plain_word_clean(4) [OF sh] w by auto
  have tc: "TrimSpace ?c = ''Signature'' @ CHR ''='' # sig"
    using trim_words(2) [of "''Signature='' @ sig"] plain_word_clean(4) [OF sig] w by auto
  have k: "CHR ''='' \<notin> set ''Credential''" "CHR ''='' \<notin> set ''SignedHeaders''" "CHR ''='' \<notin> set ''Signature''" by simp_all
  show ?thesis unfolding parseAuthFields_def sp
    by (simp only: fold_simps comp_apply id_apply ta tb tc field_split [OF k(1)] field_split [OF k(2)] field_split [OF k(3)] list.case)
qed

lemma authorized_signed:
  assumes "plain_word (ac_access cfg)" and "ac_secret cfg \<noteq> []"
    and "plain_word date" and "plain_word region" and "plain_word service" and "plain_word sh" and "plain_word sig"
    and "values_get (rq_query r) ''X-Amz-Signature'' = []"
    and "hdr r ''Authorization'' = auth_header (ac_access cfg) date region service sh sig"
    and "hdr r ''X-Amz-Date'' = d" and "d \<noteq> []" and "cy_time cy d = Some t"
    and "sig = sign cy (ac_secret cfg) date region service (stringToSign cy d date region service
      (canonicalRequest (rq_method r) (canonicalURI r) (canonicalQuery (rq_query r) []) (canonicalHeaders r sh) sh
        (if hdr r ''X-Amz-Content-Sha256'' = [] then ''UNSIGNED-PAYLOAD'' else hdr r ''X-Amz-Content-Sha256'')))"
  shows "authorized cy cfg now r \<longleftrightarrow> \<bar>now - t\<bar> \<le> 15 * 60 * second"
proof -
  let ?cred = "credential (ac_access cfg) date region service"
  let ?fields = "''Credential='' @ ?cred @ '', SignedHeaders='' @ sh @ '', Signature='' @ sig"
  let ?p = "if hdr r ''X-Amz-Content-Sha256'' = [] then ''UNSIGNED-PAYLOAD'' else hdr r ''X-Amz-Content-Sha256''"
  have au: "hdr r ''Authorization'' = ''AWS4-HMAC-SHA256 '' @ ?fields"
    using assms(9) by (simp add: auth_header_def credential_def)
  then have pre: "HasPrefix (hdr r ''Authorization'') ''AWS4-HMAC-SHA256 ''"
    and tp: "TrimPrefix (hdr r ''Authorization'') ''AWS4-HMAC-SHA256 '' = ?fields" and ne: "hdr r ''Authorization'' \<noteq> []"
    by (simp_all add: HasPrefix_def TrimPrefix_def)
  have f: "parseAuthFields ?fields = (\<lambda>_. [])(''Credential'' := ?cred, ''SignedHeaders'' := sh, ''Signature'' := sig)"
    using credential_chars [OF assms(1,3-5)] assms(6,7) by (intro auth_fields) auto
  have c: "Split CHR ''/'' ?cred = [ac_access cfg, date, region, service, ''aws4_request'']"
    by (rule credential_parts [OF assms(1,3-5)])
  have ne2: "?cred \<noteq> []" "sh \<noteq> []" "sig \<noteq> []" "ac_access cfg \<noteq> []"
    using assms(1,6,7) by (auto simp: credential_def plain_word_def)
  have v: "verifyHeaderSig cy cfg r sh d date region service ?p sig"
    using assms(13) by (simp add: verifyHeaderSig_def verifyHeaderSigWith_def canonicalHeaders_def Let_def)
  have fc: "((\<lambda>_. [])(''Credential'' := ?cred, ''SignedHeaders'' := sh, ''Signature'' := sig)) ''Credential'' = ?cred"
    "((\<lambda>_. [])(''Credential'' := ?cred, ''SignedHeaders'' := sh, ''Signature'' := sig)) ''SignedHeaders'' = sh"
    "((\<lambda>_. [])(''Credential'' := ?cred, ''SignedHeaders'' := sh, ''Signature'' := sig)) ''Signature'' = sig" by simp_all
  show ?thesis
    unfolding authorized_def Let_def assms(8,10,12) tp f fc c
    using v pre ne ne2 assms(2,11) by auto
qed


definition w_sig :: string where
  "w_sig = sign w_crypto ''s'' ''d'' ''r'' ''s3'' (stringToSign w_crypto ''T'' ''d'' ''r'' ''s3''
     (canonicalRequest ''GET'' (canonicalURI (w_request [])) (canonicalQuery [] []) (canonicalHeaders (w_request []) ''host'')
        ''host'' ''UNSIGNED-PAYLOAD''))"

definition w_signed :: request where
  "w_signed = (w_request [])\<lparr>rq_header := [(''Authorization'', [auth_header ''AK'' ''d'' ''r'' ''s3'' ''host'' w_sig]),
     (''X-Amz-Date'', [''T''])]\<rparr>"

lemma hex_plain: "bs \<noteq> [] \<Longrightarrow> plain_word (hex_encode bs)"
proof -
  assume "bs \<noteq> []"
  then have "hex_encode bs \<noteq> []" by (cases bs) (simp_all add: hex_encode_Cons)
  moreover have "CHR ''='' \<notin> hex_alphabet" "CHR ''/'' \<notin> hex_alphabet" by (simp_all add: hex_alphabet_def)
  ultimately show ?thesis
    unfolding plain_word_def using hex_encode_alpha [of bs] hex_not_space hex_alphabet_not(3) by blast
qed


section \<open>Which object a path addresses\<close>

text \<open>
  C33 (functional). A path names its bucket up to the next slash, and its key is the rest, decoded once
  more than the server already did: a key without a percent sign is taken as it is, and a key whose
  percent signs are not escapes is lost, so that the request addresses the bucket itself.
\<close>

theorem path_addresses:
  assumes "b \<noteq> []" and "CHR ''/'' \<notin> set b"
  shows "(CHR 0x25 \<notin> set k \<longrightarrow> parsePath (''/'' @ b @ ''/'' @ k) = (b, k)) \<and>
    (PathUnescape k = None \<longrightarrow> parsePath (''/'' @ b @ ''/'' @ k) = parsePath (''/'' @ b)) \<and>
    parsePath (''/'' @ b) = (b, [])"
proof -
  have t: "TrimPrefix (''/'' @ x) ''/'' = x" for x by (simp add: TrimPrefix_def HasPrefix_def)
  have "SplitN2 CHR ''/'' (b @ ''/'' @ k) = [b, k]"
    using IndexByte_append [OF assms(2), of k] by (simp add: SplitN2_def)
  then have k: "parsePath (''/'' @ b @ ''/'' @ k) = (b, case PathUnescape k of Some key \<Rightarrow> key | None \<Rightarrow> [])"
    using assms(1) t [of "b @ ''/'' @ k"] by (simp add: parsePath_def)
  have "IndexByte b CHR ''/'' = None" using assms(2) by (simp add: IndexByte_None)
  then have "parsePath (''/'' @ b) = (b, [])" using assms(1) t [of b] by (simp add: parsePath_def SplitN2_def)
  with k PathUnescape_plain [of k] show ?thesis by (auto split: option.splits)
qed

theorem path_addresses_witness:
  "parsePath ''/b/dir/file'' = (''b'', ''dir/file'') \<and> parsePath ''/b/50%off'' = (''b'', [])"
proof -
  have "PathUnescape ''50%off'' = None" by code_simp
  then show ?thesis
    using path_addresses [of "''b''" "''dir/file''"] path_addresses [of "''b''" "''50%off''"] by simp
qed

end
