(* ===== verification/MemEnv.thy ===== *)
theory MemEnv
  imports Gateway UploadWorld PrefetchProps SigV4Props
begin

text \<open>
  A concrete environment of the gateway, for the witnesses: hosts that keep their blobs in a list and
  never give out a locator twice, one replica per chunk, and the prefetch reader run under the fixed
  schedule of \<open>PrefetchProps\<close>.
\<close>

section \<open>Hosts\<close>

type_synonym store_world = "nat \<times> ((string \<times> string) \<times> bytes) list"

definition new_locator :: "nat \<Rightarrow> string" where
  "new_locator i = replicate i CHR ''x''"

definition list_hosts :: "store_world hosts" where
  "list_hosts = \<lparr>
     h_upload = (\<lambda>n data f ct w. (Inr (new_locator (fst w), []), (Suc (fst w), ((n, new_locator (fst w)), data) # snd w))),
     h_download = (\<lambda>n loc off len w.
       (case map_of (snd w) (n, loc) of None \<Rightarrow> Inl (ErrMsg ''404'') | Some d \<Rightarrow> Inr (range_of off len d, None), w)),
     h_delete = (\<lambda>n loc tok w. (Inr (), (fst w, filter (\<lambda>(k, _). k \<noteq> (n, loc)) (snd w))))\<rparr>"

definition list_blob :: "store_world \<Rightarrow> string \<Rightarrow> string \<Rightarrow> bytes option" where
  "list_blob w n loc = map_of (snd w) (n, loc)"

lemma list_honest: "honest list_hosts list_blob"
  by (auto simp: honest_def list_hosts_def list_blob_def fun_eq_iff split: option.splits)

section \<open>Uploading a chunk\<close>

definition one_replica :: bcfg where
  "one_replica = \<lparr>bc_chunkSize = 4, bc_replicas = 1, bc_sync = 1, bc_conc = 6\<rparr>"

definition list_chunk :: "string \<Rightarrow> bool \<Rightarrow> nat \<Rightarrow> int \<Rightarrow> bytes \<Rightarrow> (store_world bstate, chunk) act" where
  "list_chunk key async seq off data s =
     (case candidates (int (length data)) (bs_pool s) of
        ([], p) \<Rightarrow> (Inl (ErrMsg ''freehost: no provider can hold the chunk''), s\<lparr>bs_pool := p\<rparr>)
      | (q # _, p) \<Rightarrow>
          (case h_upload list_hosts (pv_name q) data key ''application/octet-stream'' (bs_world s) of
             (Inl e, w) \<Rightarrow> (Inl e, s\<lparr>bs_pool := p, bs_world := w\<rparr>)
           | (Inr (loc, tok), w) \<Rightarrow>
               (Inr \<lparr>ch_seq = seq, ch_size = int (length data), ch_offset = off,
                  ch_replicas = [\<lparr>rp_provider = pv_name q, rp_locator = loc, rp_token = tok\<rparr>]\<rparr>,
                s\<lparr>bs_pool := p, bs_world := w\<rparr>)))"

text \<open>It is a run of \<^verbatim>\<open>uploadChunk\<close>: the first candidate's upload succeeds, is collected, and is enough.\<close>

lemma one_upload_run:
  assumes "candidates (e_size E) p = (q # qs, p')" and "e_replicas E = 1"
    and up: "h_upload H (pv_name q) data fname ct w = (Inr (loc, tok), w')"
  shows "chunk_run H data E p w (Inr \<lparr>ch_seq = e_seq E, ch_size = e_size E, ch_offset = e_offset E,
    ch_replicas = [\<lparr>rp_provider = pv_name q, rp_locator = loc, rp_token = tok\<rparr>]\<rparr>) w'"
proof -
  let ?rep = "\<lparr>rp_provider = pv_name q, rp_locator = loc, rp_token = tok\<rparr>"
  define s0 where "s0 = \<lparr>uc_cands = q # qs, uc_launched = 1, uc_running = [q],
      uc_chan = [], uc_synced = [], uc_collected = 0, uc_inflight = 1, uc_phase = Sync,
      uc_result = None, uc_remaining = 0, uc_total = 0, uc_extras = [], uc_log = [], uc_pool = p'\<rparr>"
  have start: "uploadChunk_start E p = Inr s0"
    by (simp add: uploadChunk_start_def assms(1,2) launch_initial.simps launchNext_def s0_def)
  let ?s1 = "report_ok q loc tok (s0\<lparr>uc_running := []\<rparr>)"
  let ?s2 = "collect (Some ?rep) (?s1\<lparr>uc_chan := []\<rparr>)"
  have eff: "effective_sync E = 1" using assms(2) by (auto simp: effective_sync_def)
  have "uw_step H data E (s0, w) (?s1, w')" using stored [of s0 "[]" q "[]" H data fname ct w loc tok w' E] up by (simp add: s0_def)
  moreover have "uw_step H data E (?s1, w') (?s2, w')"
    by (rule loops [OF collected]) (simp_all add: s0_def report_ok_def sync_guard_def eff collect_def)
  moreover have "uw_step H data E (?s2, w') (leave_sync E ?s2, w')"
    by (rule loops [OF left]) (simp_all add: s0_def report_ok_def sync_guard_def collect_def leave_sync_def eff)
  ultimately have "uw_reach H data E (s0, w) (leave_sync E ?s2, w')" by (meson converse_rtranclp_into_rtranclp r_into_rtranclp)
  moreover have "uc_result (leave_sync E ?s2) =
      Some (Inr \<lparr>ch_seq = e_seq E, ch_size = e_size E, ch_offset = e_offset E, ch_replicas = [?rep]\<rparr>)"
    by (simp add: leave_sync_def collect_def report_ok_def s0_def)
  ultimately show ?thesis using start by (auto simp: chunk_run_def)
qed

lemma list_chunk_run:
  assumes "list_chunk key async seq off data s = (r, s')"
  shows "chunk_run list_hosts data (chunk_env one_replica syncN extra seq off data) (bs_pool s) (bs_world s) r (bs_world s')"
proof (cases "candidates (int (length data)) (bs_pool s)")
  case (Pair cands p)
  let ?E = "chunk_env one_replica syncN extra seq off data"
  have E: "e_size ?E = int (length data)" "e_replicas ?E = 1" "e_seq ?E = seq" "e_offset ?E = off"
    by (simp_all add: chunk_env_def one_replica_def)
  show ?thesis
  proof (cases cands)
    case Nil
    with assms show ?thesis
      by (auto simp: list_chunk_def Pair chunk_run_def uploadChunk_start_def E(1))
  next
    case (Cons q qs)
    with assms Pair one_upload_run [of ?E "bs_pool s" q qs p list_hosts data key "''application/octet-stream''" "bs_world s"] E show ?thesis
      by (auto simp: list_chunk_def list_hosts_def)
  qed
qed

section \<open>Reading an object\<close>

text \<open>
  The reader's fetches, each from the first enabled replica and given up when that one does not have
  the blob, and a run of the reader for so many steps of the schedule.
\<close>

definition list_fetch :: "pool \<Rightarrow> store_world \<Rightarrow> chunk_ref \<Rightarrow> int \<Rightarrow> int \<Rightarrow> goerr + bytes" where
  "list_fetch p w ref off len =
     (case filter (\<lambda>rep. pool_get p (rp_provider rep) \<noteq> None) (cr_replicas ref) of
        [] \<Rightarrow> Inl (ErrMsg ''freehost: chunk has no enabled replicas'')
      | rep # _ \<Rightarrow>
          (case list_blob w (rp_provider rep) (rp_locator rep) of
             None \<Rightarrow> Inl ErrCtx
           | Some d \<Rightarrow> Inr (range_of off len d)))"

definition list_read :: "backend_source \<Rightarrow> int \<Rightarrow> int \<Rightarrow> (store_world bstate, bytes \<times> goerr option) act" where
  "list_read src start en s =
     (let r = (sched (Chunk (list_fetch (bs_pool s) (bs_world s)) src) ^^ 24) (NewReader (ChunkSize src) start en 2 1)
      in (Inr (rd_got r, if rd_err r = Some ErrEOF \<and> \<not> rd_cancelled r then None else Some ErrCtx), s))"

section \<open>The environment\<close>

text \<open>A signature scheme with one signature, so that every request can be signed by hand.\<close>

definition one_signature :: crypto where
  "one_signature = \<lparr>cy_sha256 = (\<lambda>x. x), cy_hmac = (\<lambda>k x. ''h''), cy_time = (\<lambda>s. if s = ''T'' then Some 0 else None)\<rparr>"

definition list_env :: "store_world env" where
  "list_env = \<lparr>ev_crypto = one_signature, ev_auth = \<lparr>ac_access = ''AK'', ac_secret = ''s'', ac_host = []\<rparr>,
     ev_md5 = (\<lambda>bs. bs), ev_parseTime = (\<lambda>_. None), ev_httpTime = (\<lambda>_. ''date''), ev_listTime = (\<lambda>_. ''date''),
     ev_rfc3339 = (\<lambda>_. ''date''), ev_xmlComplete = (\<lambda>_. None), ev_xmlDelete = (\<lambda>_. None), ev_xmlEscape = (\<lambda>s. s),
     ev_hosts = list_hosts, ev_bcfg = one_replica, ev_streamChunk = 4, ev_chunk = list_chunk, ev_read = list_read\<rparr>"

definition one_provider :: pool where
  "one_provider = newPool [\<lparr>pv_name = ''p'', pv_max = 100, pv_durable = True\<rparr>]"

definition empty_gateway :: "store_world gw" where
  "empty_gateway = \<lparr>gw_db = \<lparr>tabs = migrate, faults = []\<rparr>, gw_be = \<lparr>bs_pool = one_provider, bs_world = (0, [])\<rparr>\<rparr>"

definition signed_request :: "string \<Rightarrow> string \<Rightarrow> bytes list \<Rightarrow> request" where
  "signed_request m path segs = \<lparr>rq_method = m, rq_host = ''h'', rq_path = path, rq_query = [],
     rq_header = [(''Authorization'', [auth_header ''AK'' ''d'' ''r'' ''s3'' ''host'' (hex_encode ''h'')]), (''X-Amz-Date'', [''T''])],
     rq_body = \<lparr>sg_segs = segs, sg_fin = ErrEOF\<rparr>\<rparr>"

lemma signed_keys:
  "CanonicalKey ''Authorization'' = ''Authorization''" "CanonicalKey ''X-Amz-Date'' = ''X-Amz-Date''"
  "CanonicalKey ''X-Amz-Content-Sha256'' = ''X-Amz-Content-Sha256''"
  by code_simp+

lemma header_authorized:
  assumes "hdr r ''Authorization'' = auth_header ''AK'' ''d'' ''r'' ''s3'' ''host'' (hex_encode ''h'')" and "hdr r ''X-Amz-Date'' = ''T''"
    and "values_get (rq_query r) ''X-Amz-Signature'' = []"
  shows "authorized one_signature (ev_auth list_env) 0 r"
proof -
  let ?cfg = "ev_auth list_env"
  have p: "plain_word (ac_access ?cfg)" "ac_secret ?cfg \<noteq> []" "plain_word ''d''" "plain_word ''r''" "plain_word ''s3''"
    "plain_word ''host''"
    by (simp_all add: plain_word_def list_env_def space_chars_def)
  have h: "hdr r ''Authorization'' = auth_header (ac_access ?cfg) ''d'' ''r'' ''s3'' ''host'' (hex_encode ''h'')"
    using assms(1) by (simp add: list_env_def)
  have t: "cy_time one_signature ''T'' = Some 0" by (simp add: one_signature_def)
  have s: "hex_encode ''h'' = sign one_signature (ac_secret ?cfg) ''d'' ''r'' ''s3'' x" for x
    by (simp add: sign_def one_signature_def Let_def)
  have "authorized one_signature ?cfg 0 r \<longleftrightarrow> \<bar>0 - 0\<bar> \<le> 15 * 60 * second"
    by (rule authorized_signed [OF p hex_plain assms(3) h assms(2) _ t s]) simp_all
  then show ?thesis by simp
qed

lemma signed_headers: "hdr (signed_request m path segs) ''Authorization'' = auth_header ''AK'' ''d'' ''r'' ''s3'' ''host'' (hex_encode ''h'')"
  "hdr (signed_request m path segs) ''X-Amz-Date'' = ''T''"
  by (simp_all add: header_get_def values_get_def signed_request_def signed_keys)

lemma signed_query_authorized:
  assumes "values_get qs ''X-Amz-Signature'' = []"
  shows "authorized one_signature (ev_auth list_env) 0 ((signed_request m path segs)\<lparr>rq_query := qs\<rparr>)"
  by (rule header_authorized) (simp_all add: signed_headers assms)

lemma signed_authorized: "authorized one_signature (ev_auth list_env) 0 (signed_request m path segs)"
proof -
  have "(signed_request m path segs)\<lparr>rq_query := []\<rparr> = signed_request m path segs" by (simp add: signed_request_def)
  with signed_query_authorized [of "[]" m path segs] show ?thesis by (simp add: values_get_def)
qed

end
