(* ===== verification/ExampleRun.thy ===== *)
theory ExampleRun
  imports MemEnv GatewayInv
begin

text \<open>
  A short history of the gateway in the concrete environment, request by request: a bucket is created
  and an object of two chunks is put into it. The witnesses of the theorems on whole histories use it.
\<close>

section \<open>The requests\<close>

abbreviation "put_bucket \<equiv> signed_request ''PUT'' ''/b'' []"
abbreviation "put_hello \<equiv> signed_request ''PUT'' ''/b/k'' [''hel'', ''lo'']"
abbreviation "get_hello \<equiv> signed_request ''GET'' ''/b/k'' []"

lemma request_paths:
  "splitBucketKey (ev_auth list_env) (signed_request m ''/b'' segs) = (''b'', [])"
  "splitBucketKey (ev_auth list_env) (signed_request m ''/b/k'' segs) = (''b'', ''k'')"
  by (simp add: splitBucketKey_def signed_request_def list_env_def, code_simp)+

lemma canon_bytes_length: "length (canon_bytes up k) = length k"
  by (induction up k rule: canon_bytes.induct) auto

lemma CanonicalKey_length [simp]: "length (CanonicalKey k) = length k"
  by (simp add: CanonicalKey_def canon_bytes_length)

text \<open>A header whose name has another length than the two of a signed request is absent.\<close>

lemma header_absent:
  assumes "length k \<noteq> 13" and "length k \<noteq> 10"
  shows "hdr (signed_request m p segs) k = []"
proof -
  have "length (CanonicalKey k) \<noteq> length ''Authorization''" "length (CanonicalKey k) \<noteq> length ''X-Amz-Date''"
    using assms by simp_all
  then have "CanonicalKey k \<noteq> ''Authorization''" "CanonicalKey k \<noteq> ''X-Amz-Date''" by metis+
  then show ?thesis by (auto simp: signed_request_def header_get_def values_get_def)
qed

lemma header_none_match: "hdr (signed_request m p segs) ''If-None-Match'' = []"
proof -
  have "CanonicalKey ''If-None-Match'' = ''If-None-Match''" by code_simp
  then show ?thesis by (simp add: signed_request_def header_get_def values_get_def)
qed

lemma request_fields [simp]:
  "rq_method (signed_request m p segs) = m" "rq_path (signed_request m p segs) = p" "rq_query (signed_request m p segs) = []"
  "rq_body (signed_request m p segs) = \<lparr>sg_segs = segs, sg_fin = ErrEOF\<rparr>"
  by (simp_all add: signed_request_def)

lemma request_not_chunked: "\<not> isAWSChunked (signed_request m p segs)"
  by (simp add: isAWSChunked_def header_absent Contains_def HasPrefix_def ToLower_def)

text \<open>A signed request reaches its handler.\<close>

lemma signed_routed:
  assumes "m \<noteq> ''OPTIONS''" and "p \<noteq> ''/healthz''" and "splitBucketKey (ev_auth list_env) (signed_request m p segs) = (b, k)"
  shows "\<exists>h. ServeHTTP list_env 0 rnd rid (signed_request m p segs) g = route list_env 0 rnd (signed_request m p segs) b k h g"
proof -
  have "authorized (ev_crypto list_env) (ev_auth list_env) 0 (signed_request m p segs)"
    using signed_authorized [of m p segs] by (simp add: list_env_def)
  with assms show ?thesis by (auto simp: ServeHTTP_def Let_def)
qed

section \<open>The history\<close>

definition bucket_gateway :: "store_world gw" where
  "bucket_gateway = empty_gateway\<lparr>gw_db := \<lparr>tabs = migrate\<lparr>t_buckets := [\<lparr>b_name = ''b'', b_created = 0\<rparr>]\<rparr>, faults = []\<rparr>\<rparr>"

lemma run_put_bucket:
  "\<exists>resp. ServeHTTP list_env 0 [] [] put_bucket empty_gateway = Some (resp, bucket_gateway)"
proof -
  obtain h where h: "ServeHTTP list_env 0 [] [] put_bucket empty_gateway = route list_env 0 [] put_bucket ''b'' [] h empty_gateway"
    using signed_routed [OF _ _ request_paths(1)] by fastforce
  have "CreateBucket 0 ''b'' (gw_db empty_gateway) = (Inr (), gw_db bucket_gateway)"
    by (simp add: CreateBucket_def insert_bucket_def insert_row_def stmt_def empty_gateway_def bucket_gateway_def migrate_def)
  then show ?thesis
    by (simp add: h route_def isBucketSubresource_def bucketSubresourceKeys_def values_has_def createBucket_def on_db_def)
      (simp add: bucket_gateway_def)
qed

definition hello_chunks :: "chunk list" where
  "hello_chunks = [\<lparr>ch_seq = 0, ch_size = 4, ch_offset = 0, ch_replicas = [\<lparr>rp_provider = ''p'', rp_locator = [], rp_token = []\<rparr>]\<rparr>,
     \<lparr>ch_seq = 1, ch_size = 1, ch_offset = 4, ch_replicas = [\<lparr>rp_provider = ''p'', rp_locator = ''x'', rp_token = []\<rparr>]\<rparr>]"

definition hello_world :: store_world where
  "hello_world = (2, [((''p'', ''x''), ''o''), ((''p'', []), ''hell'')])"

declare upload_loop.simps [code]

lemma hello_upload:
  "map_option (\<lambda>(cs, e, b, g). (cs, e, te_sum (ct_r b), ct_n b, bs_world (gw_be g),
      pool_get (bs_pool (gw_be g)) ''p'')) (backend_upload list_env ''k'' True
      (hashed_body (SrcPlain \<lparr>sg_segs = [''hel'', ''lo''], sg_fin = ErrEOF\<rparr>)) bucket_gateway) =
    Some (hello_chunks, None, ''hello'', 5, hello_world, Some \<lparr>pv_name = ''p'', pv_max = 100, pv_durable = True\<rparr>)"
  by code_simp

text \<open>The put of the object, whose captured metadata has each name once.\<close>

lemma map_put_keys: "distinct (map fst m) \<Longrightarrow> distinct (map fst (map_put k v m))"
  by (auto simp: map_put_def distinct_map_filter)

lemma fold_map_put_keys:
  "(\<And>x m. distinct (map fst m) \<Longrightarrow> distinct (map fst (f x m))) \<Longrightarrow> distinct (map fst m) \<Longrightarrow> distinct (map fst (fold f xs m))"
  by (induction xs arbitrary: m) simp_all

lemma captured_keys: "distinct (map fst (captureObjectMetadata h))"
  unfolding captureObjectMetadata_def Let_def
  by (intro fold_map_put_keys) (auto simp: map_put_keys split: prod.splits)

definition hello_object :: object where
  "hello_object = \<lparr>ob_bucket = ''b'', ob_key = ''k'', ob_size = 5, ob_etag = hex_encode ''hello'',
     ob_ctype = content_type put_hello, ob_created = zero_time, ob_updated = zero_time,
     ob_meta = captureObjectMetadata (rq_header put_hello)\<rparr>"

definition hello_tables :: tables where
  "hello_tables = put_tables (stamp 0 hello_object) (toMetaChunks hello_chunks) (tabs (gw_db bucket_gateway))"

lemma bucket_gateway_ok: "wf (gw_db bucket_gateway)" "nofault (gw_db bucket_gateway)"
  by (simp_all add: bucket_gateway_def wf_tables_def migrate_def uniq_def)

lemma hello_put:
  "PutObject 0 hello_object (toMetaChunks hello_chunks) (gw_db bucket_gateway) = (Inr (), (gw_db bucket_gateway)\<lparr>tabs := hello_tables\<rparr>)"
  unfolding hello_tables_def
  by (rule PutObject_nofault [OF bucket_gateway_ok(2,1)])
    (simp_all add: hello_object_def hello_chunks_def toMetaChunks_def captured_keys bucket_gateway_def)

lemma hello_tables_ok: "wf_tables hello_tables"
  using keepsD' [OF keeps_PutObject bucket_gateway_ok(1) hello_put] by simp

lemma hello_lookup:
  "lookup hello_tables (''b'', ''k'') =
     Some (stored_of (stamp 0 hello_object) (toMetaChunks hello_chunks) (tabs (gw_db bucket_gateway)))"
  using lookup_put [OF bucket_gateway_ok(1), of "toMetaChunks hello_chunks" "stamp 0 hello_object"]
  by (simp add: hello_tables_def stamp_def hello_object_def hello_chunks_def toMetaChunks_def)

lemma run_put_hello:
  "\<exists>resp g. ServeHTTP list_env 0 [] [] put_hello bucket_gateway = Some (resp, g) \<and> rs_status resp = 200 \<and>
     gw_db g = \<lparr>tabs = hello_tables, faults = []\<rparr> \<and> bs_world (gw_be g) = hello_world \<and>
     pool_get (bs_pool (gw_be g)) ''p'' \<noteq> None"
proof -
  obtain h where h: "ServeHTTP list_env 0 [] [] put_hello bucket_gateway = route list_env 0 [] put_hello ''b'' ''k'' h bucket_gateway"
    using signed_routed [OF _ _ request_paths(2)] by fastforce
  have route: "route list_env 0 [] put_hello ''b'' ''k'' h bucket_gateway = putObject list_env 0 put_hello ''b'' ''k'' h bucket_gateway"
    by (simp add: route_def values_get_def)
  have dec: "decodeUpload put_hello = hashed_body (SrcPlain \<lparr>sg_segs = [''hel'', ''lo''], sg_fin = ErrEOF\<rparr>)"
    by (simp add: decodeUpload_def request_not_chunked)
  obtain b g1 where up: "backend_upload list_env ''k'' True (decodeUpload put_hello) bucket_gateway = Some (hello_chunks, None, b, g1)"
    and b: "te_sum (ct_r b) = ''hello''" "ct_n b = 5" and w: "bs_world (gw_be g1) = hello_world" "pool_get (bs_pool (gw_be g1)) ''p'' \<noteq> None"
    using hello_upload unfolding dec by (auto split: prod.splits)
  have g1: "gw_db g1 = gw_db bucket_gateway" by (rule backend_upload_frame [OF up])
  have "read_chunks (tabs (gw_db bucket_gateway)) ''b'' ''k'' = []"
    by (simp add: read_chunks_def bucket_gateway_def migrate_def)
  then have q: "query_or [] (GetObjectChunks ''b'' ''k'') g1 = ([], g1)"
    using bucket_gateway_ok by (simp add: query_or_def on_db_def g1 [symmetric] GetObjectChunks_read)
  have "BucketExists ''b'' (gw_db bucket_gateway) = (Inr True, gw_db bucket_gateway)"
    by (simp add: bucket_gateway_def)
  moreover have "validateDecodedSize put_hello (ct_n b) h = Inr 5"
    by (simp add: validateDecodedSize_def header_absent b)
  moreover have "body_etag list_env b = hex_encode ''hello''" by (simp add: body_etag_def b list_env_def)
  ultimately show ?thesis
    using up q hello_put w(2) by (simp add: h route putObject_def on_db_def header_absent g1 Let_def hello_object_def)
      (simp add: writeHeader_def bucket_gateway_def w(1) reapSupersededChunks_def delete_refs_def chunkRefs_def)
qed

end
