(* ===== verification/GatewaySafety.thy ===== *)
theory GatewaySafety
  imports GatewayInv ExampleRun
begin

text \<open>
  The gateway as a whole: what a request without a valid signature can do, and what holds of the
  database after any history of requests, background replicas, janitor and keep-alive sweeps.
\<close>

section \<open>The two interpretations\<close>

interpretation same: db_reader "\<lambda>d. tabs d = t" for t
  by unfold_locales simp

interpretation layout: db_writer db_inv
proof
  show "db_inv d \<Longrightarrow> tabs d' = tabs d \<Longrightarrow> db_inv d'" for d d' by (simp add: db_inv_def)
qed (auto intro: inv_PutObject inv_FinalizeMultipartUpload inv_PutMultipartPart part_chunks_sized inv_CreateBucket
    inv_DeleteBucket inv_DeleteObject inv_UpdateChunkReplicas inv_AppendChunkReplica inv_CreateMultipartUpload
    inv_PutMultipartUploadMetadata inv_DeleteMultipartUpload)

section \<open>The gateway as a transition system\<close>

text \<open>
  A step is a request served to its response, a background replica reported for a put, a tick of the
  janitor, or a tick of the keep-alive sweep. While the sweep waits for the repair of a chunk, the
  backend works on the chunk and any number of other steps may happen.
\<close>

inductive gw_step :: "'w env \<Rightarrow> (int \<Rightarrow> string) \<Rightarrow> 'w gw \<Rightarrow> 'w gw \<Rightarrow> bool" for E secText where
  request: "ServeHTTP E now rnd rid r g = Some (resp, g') \<Longrightarrow> gw_step E secText g g'"
| extra: "gw_step E secText g (persistExtra committed b k etag seq rep g)"
| janitor: "gw_step E secText g (sweepStaleMultipartUploads E secText now ttl g)"
| backend: "gw_db g' = gw_db g \<Longrightarrow> gw_step E secText g g'"
| sweep: "(\<And>ref g. (gw_step E secText)\<^sup>*\<^sup>* g (snd (repair ref g))) \<Longrightarrow>
    RunOnce repair live s g = (res, s', g') \<Longrightarrow> gw_step E secText g g'"

text \<open>The chunk uploads of an environment are runs of \<^verbatim>\<open>uploadChunk\<close> against its hosts.\<close>

definition env_uploads :: "'w env \<Rightarrow> bool" where
  "env_uploads E \<longleftrightarrow> 0 < bc_chunkSize (ev_bcfg E) \<and> 0 < bc_replicas (ev_bcfg E) \<and>
     (\<forall>key async seq off data s r s'. ev_chunk E key async seq off data s = (r, s') \<longrightarrow>
        chunk_run (ev_hosts E) data
          (chunk_env (ev_bcfg E) (if async then bc_sync (ev_bcfg E) else int (bc_replicas (ev_bcfg E))) async seq off data)
          (bs_pool s) (bs_world s) r (bs_world s'))"

lemma uploads_shape:
  assumes "env_uploads E" and "ev_chunk E key async seq off data s = (Inr c, s')"
  shows "ch_seq c = seq \<and> ch_offset c = off \<and> ch_size c = int (length data) \<and> ch_replicas c \<noteq> [] \<and>
    length (ch_replicas c) \<le> bc_replicas (ev_bcfg E)"
proof -
  have "chunk_run (ev_hosts E) data (chunk_env (ev_bcfg E)
      (if async then bc_sync (ev_bcfg E) else int (bc_replicas (ev_bcfg E))) async seq off data)
      (bs_pool s) (bs_world s) (Inr c) (bs_world s')"
    using assms unfolding env_uploads_def by blast
  from uploadChunk_result_shape [OF chunk_run_result [OF this]] assms(1) show ?thesis
    by (simp add: chunk_env_def env_uploads_def)
qed

lemma uploads_env_ok: "env_uploads E \<Longrightarrow> env_ok E"
  using uploads_shape [of E] by (auto simp: env_ok_def env_uploads_def chunk_shape_def)

lemma gw_step_inv:
  assumes "gw_step E secText g g'" and "env_ok E" and "db_inv (gw_db g)"
  shows "db_inv (gw_db g')"
  using assms(1,3)
proof induction
  case (request now rnd rid r g resp g')
  then show ?case using layout.ServeHTTP_ends [OF assms(2), of g now rnd rid r] by (simp add: may_end_def ends_def)
next
  case (sweep repair live s g res s' g')
  have "db_inv (gw_db (snd (repair ref h)))" if "db_inv (gw_db h)" for ref h
    using sweep.IH [of h ref] that by (induction rule: rtranclp_induct) auto
  then have "keeps (\<lambda>g. db_inv (gw_db g)) (repair ref)" for ref by (simp add: keeps_def)
  then show ?case using sweep.prems sweep.hyps by (rule layout.RunOnce_keeps)
qed (simp_all add: layout.persistExtra_keeps layout.sweepStale_keeps)

lemma gw_reach_inv:
  assumes "(gw_step E secText)\<^sup>*\<^sup>* g g'" and "env_ok E" and "db_inv (gw_db g)"
  shows "db_inv (gw_db g')"
  using assms(1) by induction (use assms(2,3) gw_step_inv in auto)

lemma list_env_uploads: "env_uploads list_env"
  using list_chunk_run by (auto simp: env_uploads_def list_env_def) (simp_all add: one_replica_def)

section \<open>Properties\<close>

text \<open>
  C7 (safety). A request whose signature does not verify changes no table, whatever it asks for, and
  is answered 403 without touching the gateway at all, unless it is a health check, a CORS preflight, or
  a GET or HEAD of an object.
\<close>

theorem unsigned_request_harmless:
  assumes "\<not> authorized (ev_crypto E) (ev_auth E) now r" and "ServeHTTP E now rnd rid r g = Some (resp, g')"
  shows "tabs (gw_db g') = tabs (gw_db g) \<and>
    (rq_path r = ''/healthz'' \<or> rq_method r = ''OPTIONS'' \<or>
     (case splitBucketKey (ev_auth E) r of (b, k) \<Rightarrow> publicObjectRead r b k) \<or>
     rs_status resp = 403 \<and> g' = g)"
proof -
  obtain b k where bk: "splitBucketKey (ev_auth E) r = (b, k)" by (cases "splitBucketKey (ev_auth E) r")
  show ?thesis
  proof (cases "publicObjectRead r b k \<and> rq_path r \<noteq> ''/healthz'' \<and> rq_method r \<noteq> ''OPTIONS''")
    case True
    then have "may_end (\<lambda>d. tabs d = tabs (gw_db g)) (ServeHTTP E now rnd rid r g)"
      using same.public_route_ends [of g "tabs (gw_db g)" r b k] bk by (simp add: ServeHTTP_def Let_def)
    with assms(2) True bk show ?thesis by (simp add: may_end_def ends_def)
  next
    case False
    with assms bk show ?thesis
      by (auto simp: ServeHTTP_def Let_def writeError_def writeXML_def split: if_splits)
  qed
qed

theorem unsigned_request_harmless_witness:
  "\<exists>resp. ServeHTTP list_env 0 [] [] \<lparr>rq_method = ''DELETE'', rq_host = ''h'', rq_path = ''/b/k'', rq_query = [],
      rq_header = [], rq_body = \<lparr>sg_segs = [], sg_fin = ErrEOF\<rparr>\<rparr> empty_gateway = Some (resp, empty_gateway) \<and> rs_status resp = 403"
proof -
  let ?r = "\<lparr>rq_method = ''DELETE'', rq_host = ''h'', rq_path = ''/b/k'', rq_query = [],
      rq_header = [], rq_body = \<lparr>sg_segs = [], sg_fin = ErrEOF\<rparr>\<rparr>"
  have au: "\<not> authorized (ev_crypto list_env) (ev_auth list_env) 0 ?r"
    by (simp add: authorized_def values_get_def header_get_def HasPrefix_def list_env_def Let_def)
  have pub: "\<not> publicObjectRead ?r b k" for b k by (simp add: publicObjectRead_def)
  then obtain resp g' where run: "ServeHTTP list_env 0 [] [] ?r empty_gateway = Some (resp, g')"
    using au by (auto simp: ServeHTTP_def Let_def split: prod.splits)
  from unsigned_request_harmless [OF au run] pub run show ?thesis by (auto split: prod.splits)
qed

text \<open>
  C2 (invariant). After any history of the gateway, the chunks of every stored object are numbered
  from 0, contiguous from offset 0, none of them empty, and together exactly as long as the object, and
  the primary keys are unique: what the read path assumes of a chunk map is true of every object that
  plain puts, copies and multipart uploads ever stored.
\<close>

theorem gateway_layout:
  assumes "env_uploads E" and "gw_db g0 = \<lparr>tabs = migrate, faults = fs\<rparr>" and "(gw_step E secText)\<^sup>*\<^sup>* g0 g"
  shows "wf_tables (tabs (gw_db g)) \<and>
    (\<forall>b k v. lookup (tabs (gw_db g)) (b, k) = Some v \<longrightarrow>
       laid_out 0 0 (st_chunks v) \<and> o_size (st_row v) = sum_list (map mc_size (st_chunks v)))"
proof -
  have "db_inv (gw_db g)"
    using gw_reach_inv [OF assms(3) uploads_env_ok [OF assms(1)]] db_inv_migrate assms(2) by simp
  then show ?thesis by (auto simp: db_inv_def layout_ok_def chunk_map_ok_def)
qed

theorem gateway_layout_witness:
  "\<exists>g v. (gw_step list_env (\<lambda>_. []))\<^sup>*\<^sup>* empty_gateway g \<and> lookup (tabs (gw_db g)) (''b'', ''k'') = Some v \<and>
     map mc_size (st_chunks v) = [4, 1] \<and> laid_out 0 0 (st_chunks v) \<and> o_size (st_row v) = 5"
proof -
  obtain g where g: "(gw_step list_env (\<lambda>_. []))\<^sup>*\<^sup>* empty_gateway g" "gw_db g = \<lparr>tabs = hello_tables, faults = []\<rparr>"
    using run_put_bucket run_put_hello by (meson converse_rtranclp_into_rtranclp gw_step.request rtranclp.rtrancl_refl)
  let ?v = "stored_of (stamp 0 hello_object) (toMetaChunks hello_chunks) (tabs (gw_db bucket_gateway))"
  have v: "lookup (tabs (gw_db g)) (''b'', ''k'') = Some ?v"
    by (simp add: g(2) hello_lookup)
  have sizes: "map mc_size (st_chunks ?v) = [4, 1]" by (simp add: stored_of_def toMetaChunks_def hello_chunks_def)
  have "gw_db empty_gateway = \<lparr>tabs = migrate, faults = []\<rparr>" by (simp add: empty_gateway_def)
  from gateway_layout [OF list_env_uploads this g(1)] v
  have "laid_out 0 0 (st_chunks ?v)" "o_size (st_row ?v) = sum_list (map mc_size (st_chunks ?v))" by blast+
  with g(1) v sizes show ?thesis by (intro exI [of _ g] exI [of _ ?v]) simp
qed

end
