(* ===== verification/AwsChunkedProps.thy ===== *)
theory AwsChunkedProps
  imports AwsChunked
begin

text \<open>
  The aws-chunked reader delivers what the reference decoder decodes, whatever the sizes of the
  segments in which the body arrives and of the buffers it is read into.
\<close>

section \<open>The buffered reader is a reader\<close>

definition bu_stream :: "('r \<Rightarrow> bytes) \<Rightarrow> 'r bufio \<Rightarrow> bytes" where
  "bu_stream rest b = bu_buf b @ rest (bu_src b)"

definition bu_inv :: "('r \<Rightarrow> bool) \<Rightarrow> ('r \<Rightarrow> bytes) \<Rightarrow> ('r \<Rightarrow> goerr) \<Rightarrow> 'r bufio \<Rightarrow> bool" where
  "bu_inv ok rest fin b \<longleftrightarrow> ok (bu_src b) \<and> length (bu_buf b) \<le> bufsize \<and>
     (bu_err b \<noteq> None \<longrightarrow> rest (bu_src b) = [] \<and> bu_err b = Some (fin (bu_src b)))"

text \<open>
  What is still to be decoded in a state of the reader, and what one call may do: without an error it
  returns a non-empty piece of it; the call that ends a well-formed body reports \<^verbatim>\<open>io.EOF\<close>, and the one
  that meets the flaw of a malformed body reports \<^verbatim>\<open>ErrMalformedChunked\<close> with the last decoded bytes.
\<close>

definition ck_spec :: "('r \<Rightarrow> bytes) \<Rightarrow> 'r chunked \<Rightarrow> bytes \<times> bool" where
  "ck_spec rest c =
     (if ck_done c then ([], True)
      else if ck_remaining c = 0 then deframe (bu_stream rest (ck_br c))
      else deframe_body (nat (ck_remaining c)) (bu_stream rest (ck_br c)))"

definition ck_inv :: "('r \<Rightarrow> bool) \<Rightarrow> ('r \<Rightarrow> bytes) \<Rightarrow> ('r \<Rightarrow> goerr) \<Rightarrow> 'r chunked \<Rightarrow> bool" where
  "ck_inv ok rest fin c \<longleftrightarrow> bu_inv ok rest fin (ck_br c) \<and> fin (bu_src (ck_br c)) = ErrEOF \<and> 0 \<le> ck_remaining c"

definition delivers :: "('r \<Rightarrow> bool) \<Rightarrow> ('r \<Rightarrow> bytes) \<Rightarrow> ('r \<Rightarrow> goerr) \<Rightarrow> 'r chunked \<Rightarrow> nat \<Rightarrow> bytes \<Rightarrow> goerr option \<Rightarrow>
    'r chunked \<Rightarrow> bool" where
  "delivers ok rest fin c n bs e c' \<longleftrightarrow> length bs \<le> n \<and>
     (case e of
        None \<Rightarrow> bs \<noteq> [] \<and> ck_inv ok rest fin c' \<and>
          ck_spec rest c = (bs @ fst (ck_spec rest c'), snd (ck_spec rest c'))
      | Some err \<Rightarrow> bs = fst (ck_spec rest c) \<and>
          (if snd (ck_spec rest c) then err = ErrEOF \<and> ck_inv ok rest fin c' \<and> ck_spec rest c' = ([], True)
           else is_malformed err))"

lemma deframe_body_split:
  assumes "length bs < k"
  shows "deframe_body k (bs @ t) = (bs @ fst (deframe_body (k - length bs) t), snd (deframe_body (k - length bs) t))"
proof -
  obtain j where j: "k = length bs + j" using assms less_imp_le nat_le_iff_add by blast
  show ?thesis unfolding j
    by (subst (1 2 3) deframe_body.simps) (simp add: case_prod_beta add.assoc)
qed

lemma IndexByte_take:
  "IndexByte (take n s) c = Some i \<Longrightarrow> IndexByte s c = Some i"
  using IndexByte_Some [of "take n s" c i] IndexByte_append [of c "take i (take n s)"]
  by (metis (no_types, lifting) append.assoc append_Cons append_take_drop_id length_take less_imp_le min.absorb2)

lemma IndexByte_prefix: "IndexByte s c = Some i \<Longrightarrow> IndexByte (s @ t) c = Some i"
  using IndexByte_take [of "length s" "s @ t"] by simp

context eager_source
begin

lemma bufio_step:
  assumes "bu_inv ok rest fin b" and "0 < n" and "bufio_Read rd b n = (bs, e, b')"
  shows "bu_inv ok rest fin b'" and "bu_stream rest b = bs @ bu_stream rest b' \<and> length bs \<le> n"
    and "fin (bu_src b') = fin (bu_src b)" and "e = None \<Longrightarrow> bs \<noteq> []"
    and "e = Some err \<Longrightarrow> bu_stream rest b' = [] \<and> err = fin (bu_src b)"
proof -
  have *: "bu_inv ok rest fin b' \<and> (bu_stream rest b = bs @ bu_stream rest b' \<and> length bs \<le> n) \<and>
    fin (bu_src b') = fin (bu_src b) \<and> (e = None \<longrightarrow> bs \<noteq> []) \<and>
    (\<forall>err. e = Some err \<longrightarrow> bu_stream rest b' = [] \<and> err = fin (bu_src b))"
  proof (cases "bu_buf b \<noteq> [] \<or> bu_err b \<noteq> None")
    case True
    with assms show ?thesis by (auto simp: bufio_Read_def bu_inv_def bu_stream_def split: if_splits)
  next
    case False
    then have em: "bu_buf b = []" "bu_err b = None" and okb: "ok (bu_src b)" using assms(1) by (auto simp: bu_inv_def)
    define m where "m = (if bufsize \<le> n then n else bufsize)"
    have m: "0 < m" using assms(2) by (simp add: m_def bufsize_def)
    obtain cs e' r' where rd: "rd (bu_src b) m = (cs, e', r')" by (metis prod_cases3)
    note law = rd_ok [OF okb m rd] rd_rest [OF okb m rd] rd_fin [OF okb m rd]
    have ne: "e' = None \<Longrightarrow> cs \<noteq> []" using rd_some [OF okb m] rd by auto
    have en: "rest r' = [] \<and> err = fin (bu_src b)" if "e' = Some err" for err
      using rd_end [OF okb m] rd that by auto
    show ?thesis
    proof (cases "bufsize \<le> n")
      case True
      with em rd assms(3) have "bs = cs" "e = e'" "b' = b\<lparr>bu_src := r'\<rparr>"
        using assms(2) by (auto simp: bufio_Read_def m_def)
      with law ne en em True show ?thesis by (auto simp: bu_inv_def bu_stream_def m_def)
    next
      case False
      show ?thesis
      proof (cases "cs = []")
        case True
        with em rd assms(2,3) False have "bs = []" "e = e'" "b' = b\<lparr>bu_src := r'\<rparr>"
          by (auto simp: bufio_Read_def m_def)
        with law ne en em True show ?thesis by (auto simp: bu_inv_def bu_stream_def)
      next
        case ncs: False
        with em rd assms(2,3) False have "bs = take n cs" "e = None" "b' = \<lparr>bu_src = r', bu_buf = drop n cs, bu_err = e'\<rparr>"
          by (auto simp: bufio_Read_def m_def)
        with law en em ncs assms(2) False show ?thesis by (auto simp: bu_inv_def bu_stream_def m_def)
      qed
    qed
  qed
  from * show "bu_inv ok rest fin b'" and "bu_stream rest b = bs @ bu_stream rest b' \<and> length bs \<le> n"
    and "fin (bu_src b') = fin (bu_src b)" and "e = None \<Longrightarrow> bs \<noteq> []"
    and "e = Some err \<Longrightarrow> bu_stream rest b' = [] \<and> err = fin (bu_src b)" by auto
qed

lemma bufio_source:
  "eager_source (bufio_Read rd) (bu_inv ok rest fin) (bu_stream rest) (\<lambda>b. fin (bu_src b))
     (\<lambda>b. length (bu_stream rest b))"
proof
  fix b n bs e b' assume a: "bu_inv ok rest fin b" "0 < n" "bufio_Read rd b n = (bs, e, b')"
  show "bu_inv ok rest fin b'" and "bu_stream rest b = bs @ bu_stream rest b' \<and> length bs \<le> n"
    and "fin (bu_src b') = fin (bu_src b)" using bufio_step [OF a] by auto
next
  fix b n bs b' assume a: "bu_inv ok rest fin b" "0 < n" "bufio_Read rd b n = (bs, None, b')"
  show "length (bu_stream rest b') < length (bu_stream rest b)" and "bs \<noteq> []"
    using bufio_step(2,4) [OF a] by auto
next
  fix b n bs err b' assume a: "bu_inv ok rest fin b" "0 < n" "bufio_Read rd b n = (bs, Some err, b')"
  show "bu_stream rest b' = [] \<and> err = fin (bu_src b)" using bufio_step(5) [OF a] by auto
qed

lemma fill_step:
  assumes "bu_inv ok rest fin b" and "bu_err b = None" and "length (bu_buf b) < bufsize"
  shows "bu_inv ok rest fin (fill_loop rd 100 b)" and "bu_stream rest (fill_loop rd 100 b) = bu_stream rest b"
    and "fin (bu_src (fill_loop rd 100 b)) = fin (bu_src b)"
    and "bu_err (fill_loop rd 100 b) \<noteq> None \<or> length (bu_buf b) < length (bu_buf (fill_loop rd 100 b))"
proof -
  have okb: "ok (bu_src b)" and m: "0 < bufsize - length (bu_buf b)" using assms by (auto simp: bu_inv_def)
  obtain bs e r' where rd: "rd (bu_src b) (bufsize - length (bu_buf b)) = (bs, e, r')" by (metis prod_cases3)
  note law = rd_ok [OF okb m rd] rd_rest [OF okb m rd] rd_fin [OF okb m rd]
  have ne: "e = None \<Longrightarrow> bs \<noteq> []" using rd_some [OF okb m] rd by auto
  have en: "rest r' = [] \<and> err = fin (bu_src b)" if "e = Some err" for err using rd_end [OF okb m] rd that by auto
  have "100 = Suc 99" by simp
  then have f: "fill_loop rd 100 b = b\<lparr>bu_src := r', bu_buf := bu_buf b @ bs, bu_err := e\<rparr>"
    using rd ne assms(2) by (simp only: fill_loop.simps) (auto simp: Let_def)
  show "bu_inv ok rest fin (fill_loop rd 100 b)" and "bu_stream rest (fill_loop rd 100 b) = bu_stream rest b"
    and "fin (bu_src (fill_loop rd 100 b)) = fin (bu_src b)"
    using law en assms(3) by (auto simp: f bu_inv_def bu_stream_def)
  show "bu_err (fill_loop rd 100 b) \<noteq> None \<or> length (bu_buf b) < length (bu_buf (fill_loop rd 100 b))"
    by (rule fill_loop_progress)
qed

lemma ReadSlice_found:
  assumes "bu_inv ok rest fin b" and "IndexByte (take bufsize (bu_stream rest b)) c = Some i"
  shows "\<exists>b'. ReadSlice rd c b = (take (Suc i) (bu_stream rest b), None, b') \<and> bu_inv ok rest fin b' \<and>
    bu_stream rest b' = drop (Suc i) (bu_stream rest b) \<and> fin (bu_src b') = fin (bu_src b)"
  using assms
proof (induction "if bu_err b = None then Suc bufsize - length (bu_buf b) else 0" arbitrary: b rule: less_induct)
  case less
  note inv = less.prems(1) and ix = less.prems(2)
  show ?case
  proof (cases "IndexByte (bu_buf b) c")
    case (Some j)
    then have "IndexByte (bu_stream rest b) c = Some j" unfolding bu_stream_def by (rule IndexByte_prefix)
    with IndexByte_take [OF ix] have "j = i" by simp
    with Some IndexByte_Some(3) [OF Some] inv show ?thesis
      by (subst ReadSlice.simps) (auto simp: bu_stream_def bu_inv_def)
  next
    case None
    then have nb: "c \<notin> set (bu_buf b)" by (simp add: IndexByte_None)
    have cs: "c \<in> set (take bufsize (bu_stream rest b))" using ix IndexByte_None [of "take bufsize (bu_stream rest b)" c] by auto
    have err: "bu_err b = None"
      using inv nb cs in_set_takeD [OF cs] by (auto simp: bu_inv_def bu_stream_def)
    have short: "length (bu_buf b) < bufsize"
    proof (rule ccontr)
      assume "\<not> length (bu_buf b) < bufsize"
      then have "take bufsize (bu_stream rest b) = take bufsize (bu_buf b)" by (simp add: bu_stream_def)
      with cs nb show False by (metis in_set_takeD)
    qed
    note f = fill_step [OF inv err short]
    have "(if bu_err (fill_loop rd 100 b) = None then Suc bufsize - length (bu_buf (fill_loop rd 100 b)) else 0)
        < (if bu_err b = None then Suc bufsize - length (bu_buf b) else 0)"
      using f(4) err short by auto
    from less.hyps [OF this f(1)] f(2,3) ix None err short show ?thesis
      by (subst ReadSlice.simps) auto
  qed
qed

lemma ReadSlice_missing:
  assumes "bu_inv ok rest fin b" and "IndexByte (take bufsize (bu_stream rest b)) c = None"
  shows "\<exists>line err b'. ReadSlice rd c b = (line, Some err, b') \<and> (err = ErrBufferFull \<or> err = fin (bu_src b))"
  using assms
proof (induction "if bu_err b = None then Suc bufsize - length (bu_buf b) else 0" arbitrary: b rule: less_induct)
  case less
  note inv = less.prems(1) and ix = less.prems(2)
  have "c \<notin> set (bu_buf b)" using ix inv by (auto simp: IndexByte_None bu_stream_def bu_inv_def)
  then have None: "IndexByte (bu_buf b) c = None" by (simp add: IndexByte_None)
  show ?case
  proof (cases "bu_err b \<noteq> None \<or> bufsize \<le> length (bu_buf b)")
    case True
    with None inv show ?thesis by (subst ReadSlice.simps) (auto simp: bu_inv_def)
  next
    case False
    then have err: "bu_err b = None" and short: "length (bu_buf b) < bufsize" by auto
    note f = fill_step [OF inv err short]
    have "(if bu_err (fill_loop rd 100 b) = None then Suc bufsize - length (bu_buf (fill_loop rd 100 b)) else 0)
        < (if bu_err b = None then Suc bufsize - length (bu_buf b) else 0)"
      using f(4) err short by auto
    from less.hyps [OF this f(1)] f(2,3) ix None err short show ?thesis
      by (subst ReadSlice.simps) auto
  qed
qed

section \<open>Header and terminator\<close>

lemma readLine_found:
  assumes "bu_inv ok rest fin b" and "IndexByte (take bufsize (bu_stream rest b)) lf = Some i"
  shows "\<exists>b'. readLine rd b = (Inr (TrimRight (take i (bu_stream rest b)) crlf), b') \<and> bu_inv ok rest fin b' \<and>
    bu_stream rest b' = drop (Suc i) (bu_stream rest b) \<and> fin (bu_src b') = fin (bu_src b)"
proof -
  have "IndexByte (bu_stream rest b) lf = Some i" using assms(2) by (rule IndexByte_take)
  note ix = IndexByte_Some [OF this]
  have "take (Suc i) (bu_stream rest b) = take i (bu_stream rest b) @ [lf]"
    using ix(1,3) by (metis append_Cons append_Nil length_take less_imp_le min.absorb2 take_Suc_conv_app_nth nth_append_length)
  then have "TrimRight (take (Suc i) (bu_stream rest b)) crlf = TrimRight (take i (bu_stream rest b)) crlf"
    by (simp add: TrimRight_append)
  with ReadSlice_found [OF assms] show ?thesis by (auto simp: readLine_def)
qed

lemma readLine_missing:
  assumes "bu_inv ok rest fin b" and "IndexByte (take bufsize (bu_stream rest b)) lf = None"
    and "fin (bu_src b) = ErrEOF"
  shows "\<exists>err b'. readLine rd b = (Inl err, b') \<and> is_malformed err"
  using ReadSlice_missing [OF assms(1,2)] assms(3)
  by (auto simp: readLine_def is_malformed_def ErrBufferFull_def)

lemma consumeCRLF_spec:
  assumes "bu_inv ok rest fin b" and "fin (bu_src b) = ErrEOF"
  shows "\<exists>e b'. consumeCRLF rd b = Some (e, b') \<and>
    (if take 2 (bu_stream rest b) = crlf
     then e = None \<and> bu_inv ok rest fin b' \<and> bu_stream rest b' = drop 2 (bu_stream rest b) \<and> fin (bu_src b') = ErrEOF
     else \<exists>err. e = Some err \<and> is_malformed err)"
proof -
  have src: "byte_source (bufio_Read rd) (bu_inv ok rest fin) (bu_stream rest) (\<lambda>b. fin (bu_src b)) (\<lambda>b. length (bu_stream rest b))"
    using bufio_source by (simp add: eager_source_def)
  obtain b' where rf: "ReadFull (bufio_Read rd) 2 b = Some (take 2 (bu_stream rest b),
      if 2 \<le> length (bu_stream rest b) then None
      else if bu_stream rest b \<noteq> [] \<and> fin (bu_src b) = ErrEOF then Some ErrUnexpectedEOF else Some (fin (bu_src b)), b')"
    and b': "bu_inv ok rest fin b'" "bu_stream rest b' = drop 2 (bu_stream rest b)" "fin (bu_src b') = fin (bu_src b)"
    using byte_source.ReadFull_spec [OF src assms(1), of 2] by blast
  show ?thesis
  proof (cases "2 \<le> length (bu_stream rest b)")
    case True
    with rf b' assms(2) show ?thesis by (auto simp: consumeCRLF_def is_malformed_def)
  next
    case False
    then have "take 2 (bu_stream rest b) \<noteq> crlf" by (metis One_nat_def Suc_1 length_Cons length_take list.size(3) min.absorb1 nat_le_linear min_def)
    with False rf assms(2) show ?thesis by (auto simp: consumeCRLF_def is_malformed_def)
  qed
qed

section \<open>Every call delivers the next decoded bytes\<close>

lemma read_body_exact:
  assumes "ck_inv ok rest fin c" and "0 < ck_remaining c" and "\<not> ck_done c" and "0 < n"
  shows "\<exists>bs e c'. read_body rd c n = Some (bs, e, c') \<and> delivers ok rest fin c n bs e c'"
proof -
  have inv: "bu_inv ok rest fin (ck_br c)" and eof: "fin (bu_src (ck_br c)) = ErrEOF" using assms(1) by (auto simp: ck_inv_def)
  define m where "m = (if int n > ck_remaining c then nat (ck_remaining c) else n)"
  have m: "0 < m" "int m \<le> ck_remaining c" using assms by (auto simp: m_def)
  obtain bs e0 b where rd: "bufio_Read rd (ck_br c) m = (bs, e0, b)" by (metis prod_cases3)
  note st = bufio_step [OF inv m(1) rd]
  let ?s = "bu_stream rest (ck_br c)" and ?k = "nat (ck_remaining c)"
  have s: "?s = bs @ bu_stream rest b" and len: "length bs \<le> ?k" and ln: "length bs \<le> n"
    using st(2) m(2) by (auto simp: m_def split: if_splits)
  have spec: "ck_spec rest c = deframe_body ?k ?s" using assms(2,3) by (simp add: ck_spec_def)
  show ?thesis
  proof (cases e0)
    case (Some err)
    then have e: "bu_stream rest b = []" "err = ErrEOF" using st(5) eof by auto
    then have "ck_spec rest c = (bs, False)" using spec s len by (simp add: deframe_body.simps)
    with Some e rd show ?thesis
      by (auto simp: read_body_def Let_def m_def [symmetric] delivers_def ln is_malformed_def)
  next
    case None
    have ne: "bs \<noteq> []" using st(4) None by simp
    show ?thesis
    proof (cases "ck_remaining c = int (length bs)")
      case False
      then have lt: "length bs < ?k" using len assms(2) by linarith
      let ?c = "c\<lparr>ck_br := b, ck_remaining := ck_remaining c - int (length bs)\<rparr>"
      have "read_body rd c n = Some (bs, None, ?c)"
        using rd None False by (simp add: read_body_def Let_def m_def [symmetric])
      moreover have "nat (ck_remaining c - int (length bs)) = ?k - length bs" by simp
      then have "ck_spec rest ?c = deframe_body (?k - length bs) (bu_stream rest b)"
        using False lt assms(3) by (simp add: ck_spec_def)
      then have "ck_spec rest c = (bs @ fst (ck_spec rest ?c), snd (ck_spec rest ?c))"
        using spec s deframe_body_split [OF lt, of "bu_stream rest b"] by simp
      moreover have "ck_inv ok rest fin ?c" using st(1,3) eof lt by (auto simp: ck_inv_def)
      ultimately show ?thesis using ne by (auto simp: delivers_def ln)
    next
      case True
      then have k: "?k = length bs" by simp
      have eof': "fin (bu_src b) = ErrEOF" using st(3) eof by simp
      obtain e b' where cc: "consumeCRLF rd b = Some (e, b')"
        and e: "if take 2 (bu_stream rest b) = crlf
          then e = None \<and> bu_inv ok rest fin b' \<and> bu_stream rest b' = drop 2 (bu_stream rest b) \<and> fin (bu_src b') = ErrEOF
          else \<exists>err. e = Some err \<and> is_malformed err"
        using consumeCRLF_spec [OF st(1) eof'] by blast
      let ?c = "c\<lparr>ck_br := b', ck_remaining := 0\<rparr>"
      have rb: "read_body rd c n = Some (bs, e, ?c)"
        unfolding read_body_def m_def [symmetric] rd None using True cc by (simp add: Let_def)
      show ?thesis
      proof (cases "take 2 (bu_stream rest b) = crlf")
        case t: True
        then have "ck_spec rest c = (bs @ fst (ck_spec rest ?c), snd (ck_spec rest ?c))"
          using spec s k e assms(3) by (subst (asm) deframe_body.simps) (simp add: ck_spec_def case_prod_beta)
        with t e rb ne show ?thesis by (auto simp: delivers_def ln ck_inv_def)
      next
        case f: False
        then have "ck_spec rest c = (bs, False)"
          using spec s k by (subst (asm) deframe_body.simps) simp
        with f e rb show ?thesis by (auto simp: delivers_def ln)
      qed
    qed
  qed
qed

lemma chunked_Read_exact:
  assumes "ck_inv ok rest fin c" and "0 < n"
  shows "\<exists>bs e c'. chunked_Read rd c n = Some (bs, e, c') \<and> delivers ok rest fin c n bs e c'"
proof (cases "ck_done c")
  case True
  then show ?thesis using assms(1) by (simp add: chunked_Read_def delivers_def ck_spec_def)
next
  case nd: False
  have inv: "bu_inv ok rest fin (ck_br c)" and eof: "fin (bu_src (ck_br c)) = ErrEOF" using assms(1) by (auto simp: ck_inv_def)
  let ?s = "bu_stream rest (ck_br c)"
  show ?thesis
  proof (cases "ck_remaining c = 0")
    case False
    then show ?thesis using read_body_exact [OF assms(1) _ nd assms(2)] nd assms(1) by (simp add: chunked_Read_def ck_inv_def)
  next
    case rem: True
    then have spec: "ck_spec rest c = deframe ?s" using nd by (simp add: ck_spec_def)
    show ?thesis
    proof (cases "IndexByte (take bufsize ?s) lf")
      case None
      obtain err b' where "readLine rd (ck_br c) = (Inl err, b')" "is_malformed err"
        using readLine_missing [OF inv None eof] by blast
      moreover have "ck_spec rest c = ([], False)" using spec None by (simp add: deframe.simps)
      ultimately show ?thesis using nd rem by (simp add: chunked_Read_def readChunkSize_def delivers_def)
    next
      case (Some i)
      let ?line = "TrimRight (take i ?s) crlf"
      obtain b' where rl: "readLine rd (ck_br c) = (Inr ?line, b')" and b': "bu_inv ok rest fin b'"
        "bu_stream rest b' = drop (Suc i) ?s" "fin (bu_src b') = ErrEOF"
        using readLine_found [OF inv Some] eof by auto
      show ?thesis
      proof (cases "parse_size ?line")
        case None
        then have "ck_spec rest c = ([], False)" using spec Some by (simp add: deframe.simps)
        with None rl nd rem show ?thesis
          by (simp add: chunked_Read_def readChunkSize_def delivers_def is_malformed_def)
      next
        case sz: (Some sz)
        have nn: "0 \<le> sz" using sz by (auto simp: parse_size_def Let_def split: if_splits prod.splits)
        show ?thesis
        proof (cases "sz = 0")
          case True
          then have "ck_spec rest c = ([], True)" using spec Some sz by (simp add: deframe.simps)
          with True rl nd rem sz b' show ?thesis
            by (simp add: chunked_Read_def readChunkSize_def delivers_def ck_inv_def ck_spec_def)
        next
          case False
          let ?c = "c\<lparr>ck_br := b', ck_remaining := sz\<rparr>"
          have sp: "ck_spec rest ?c = ck_spec rest c" using spec Some sz False nd b'(2) by (simp add: deframe.simps ck_spec_def)
          have "ck_inv ok rest fin ?c" using b' nn by (simp add: ck_inv_def)
          then obtain bs e c' where "read_body rd ?c n = Some (bs, e, c')" "delivers ok rest fin ?c n bs e c'"
            using read_body_exact [of ?c n] nd nn False assms(2) by auto
          moreover from this(2) have "delivers ok rest fin c n bs e c'" unfolding delivers_def sp .
          ultimately show ?thesis using rl nd rem sz False by (auto simp: chunked_Read_def readChunkSize_def)
        qed
      qed
    qed
  qed
qed

lemma chunked_rd_delivers:
  "ck_inv ok rest fin c \<Longrightarrow> 0 < n \<Longrightarrow> chunked_rd rd c n = (bs, e, c') \<Longrightarrow> delivers ok rest fin c n bs e c'"
  using chunked_Read_exact [of c n] by (auto simp: chunked_rd_def)

text \<open>Reading past the end of the decoded bytes returns all of them and the error that ends the body.\<close>

lemma read_at_least_deframed:
  assumes "ck_inv ok rest fin c" and "length acc + length (fst (ck_spec rest c)) < n"
  shows "\<exists>err c'. read_at_least (chunked_rd rd) n acc c = Some (acc @ fst (ck_spec rest c), Some err, c') \<and>
    (if snd (ck_spec rest c) then err = ErrEOF else is_malformed err)"
  using assms
proof (induction "length (fst (ck_spec rest c))" arbitrary: c acc rule: less_induct)
  case less
  have m: "0 < n - length acc" using less.prems(2) by simp
  obtain bs e c' where rd: "chunked_rd rd c (n - length acc) = (bs, e, c')" by (metis prod_cases3)
  note d = chunked_rd_delivers [OF less.prems(1) m rd]
  show ?case
  proof (cases e)
    case (Some err)
    with d rd m show ?thesis by (subst read_at_least.simps) (auto simp: delivers_def split: if_splits)
  next
    case None
    with d have ne: "bs \<noteq> []" and inv: "ck_inv ok rest fin c'"
      and sp: "ck_spec rest c = (bs @ fst (ck_spec rest c'), snd (ck_spec rest c'))" by (auto simp: delivers_def)
    have "length (fst (ck_spec rest c')) < length (fst (ck_spec rest c))" using ne sp by simp
    moreover have "length (acc @ bs) + length (fst (ck_spec rest c')) < n" using less.prems(2) sp by simp
    ultimately obtain err c2 where
      "read_at_least (chunked_rd rd) n (acc @ bs) c' = Some ((acc @ bs) @ fst (ck_spec rest c'), Some err, c2)"
      "if snd (ck_spec rest c') then err = ErrEOF else is_malformed err"
      using less.hyps [OF _ inv] by blast
    with None rd m sp show ?thesis by (subst read_at_least.simps) simp
  qed
qed

text \<open>A body with well-formed framing makes the decoding reader a reader of its object bytes.\<close>

lemma chunked_source:
  "eager_source (chunked_rd rd) (\<lambda>c. ck_inv ok rest fin c \<and> snd (ck_spec rest c)) (\<lambda>c. fst (ck_spec rest c))
     (\<lambda>_. ErrEOF) (\<lambda>c. length (fst (ck_spec rest c)))"
proof
  fix c n bs e c' assume a: "ck_inv ok rest fin c \<and> snd (ck_spec rest c)" "0 < n" "chunked_rd rd c n = (bs, e, c')"
  then have d: "delivers ok rest fin c n bs e c'" using chunked_rd_delivers by blast
  show "ck_inv ok rest fin c' \<and> snd (ck_spec rest c')"
    and "fst (ck_spec rest c) = bs @ fst (ck_spec rest c') \<and> length bs \<le> n"
    using d a(1) by (auto simp: delivers_def split: option.splits)
next
  fix c n bs c' assume a: "ck_inv ok rest fin c \<and> snd (ck_spec rest c)" "0 < n" "chunked_rd rd c n = (bs, None, c')"
  then have d: "delivers ok rest fin c n bs None c'" using chunked_rd_delivers by blast
  show "length (fst (ck_spec rest c')) < length (fst (ck_spec rest c))" and "bs \<noteq> []"
    using d by (auto simp: delivers_def)
next
  fix c n bs err c' assume a: "ck_inv ok rest fin c \<and> snd (ck_spec rest c)" "0 < n" "chunked_rd rd c n = (bs, Some err, c')"
  then have d: "delivers ok rest fin c n bs (Some err) c'" using chunked_rd_delivers by blast
  show "fst (ck_spec rest c') = [] \<and> err = ErrEOF" using d a(1) by (auto simp: delivers_def)
qed simp

end

section \<open>Request bodies\<close>

abbreviation seg_rest :: "seg_reader \<Rightarrow> bytes" where
  "seg_rest r \<equiv> concat (sg_segs r)"

interpretation ck: eager_source "chunked_rd seg_read"
  "\<lambda>c. ck_inv segs_ok seg_rest sg_fin c \<and> snd (ck_spec seg_rest c)" "\<lambda>c. fst (ck_spec seg_rest c)"
  "\<lambda>_. ErrEOF" "\<lambda>c. length (fst (ck_spec seg_rest c))"
  by (rule full_seg.chunked_source)

definition body_of :: "bytes list \<Rightarrow> seg_reader" where
  "body_of segs = \<lparr>sg_segs = segs, sg_fin = ErrEOF\<rparr>"

lemma new_chunked:
  assumes "[] \<notin> set segs"
  shows "ck_inv segs_ok seg_rest sg_fin (newAWSChunkedReader (body_of segs))"
    and "ck_spec seg_rest (newAWSChunkedReader (body_of segs)) = deframe (concat segs)"
  using assms by (auto simp: ck_inv_def bu_inv_def ck_spec_def newAWSChunkedReader_def NewBufio_def body_of_def
      segs_ok_def bu_stream_def)

section \<open>Framing and decoding\<close>

text \<open>
  A streaming client's encoding: each piece under a header of its size in hexadecimal, optionally with
  an extension (the signature), then the final empty chunk and a trailer.
\<close>

definition frame :: "string \<times> bytes \<Rightarrow> bytes" where
  "frame f = (case f of (ext, data) \<Rightarrow> format_nat 16 (length data) @ ext @ crlf @ data @ crlf)"

definition framed :: "(string \<times> bytes) list \<Rightarrow> string \<Rightarrow> bytes \<Rightarrow> bytes" where
  "framed fs ext trailer = concat (map frame fs) @ ''0'' @ ext @ crlf @ trailer"

definition good_ext :: "nat \<Rightarrow> string \<Rightarrow> bool" where
  "good_ext n ext \<longleftrightarrow> (ext = [] \<or> hd ext = CHR '';'') \<and> cr \<notin> set ext \<and> lf \<notin> set ext \<and>
     length (format_nat 16 n) + length ext + 2 \<le> bufsize"

lemma hex_no_special: "c \<in> set (format_nat 16 n) \<Longrightarrow> c \<in> hex_alphabet"
  using format_nat_digits(3) [of 16 n] by auto

lemma parse_size_header:
  assumes "ext = [] \<or> hd ext = CHR '';''" and "int n < 2 ^ 63"
  shows "parse_size (format_nat 16 n @ ext) = Some (int n)"
proof -
  have ns: "CHR '';'' \<notin> set (format_nat 16 n)" using hex_no_special by (metis hex_alphabet_not(4))
  have sp: "c \<notin> set space_chars" if "c \<in> set (format_nat 16 n)" for c
    using hex_no_special [OF that] by (rule hex_not_space)
  have line: "(case IndexByte (format_nat 16 n @ ext) CHR '';'' of
      Some i \<Rightarrow> take i (format_nat 16 n @ ext) | None \<Rightarrow> format_nat 16 n @ ext) = format_nat 16 n"
  proof (cases ext)
    case Nil
    then show ?thesis using ns IndexByte_None [of "format_nat 16 n" "CHR '';''"] by (auto split: option.splits)
  next
    case (Cons x xs)
    then have "ext = CHR '';'' # xs" using assms(1) by simp
    with IndexByte_append [OF ns] show ?thesis by simp
  qed
  have "TrimSpace (format_nat 16 n) = format_nat 16 n" unfolding TrimSpace_def by (rule Trim_clean) (rule sp)
  then have "ParseInt 16 (TrimSpace (format_nat 16 n)) = (int n, None)" using assms(2) by (simp add: ParseInt_format)
  then show ?thesis unfolding parse_size_def line Let_def by simp
qed

lemma deframe_header:
  assumes "good_ext n ext" and "int n < 2 ^ 63"
  shows "deframe (format_nat 16 n @ ext @ crlf @ t) = (if n = 0 then ([], True) else deframe_body n t)"
proof -
  let ?l = "format_nat 16 n @ ext @ [cr]"
  have cl: "c \<notin> set crlf" if "c \<in> set (format_nat 16 n @ ext)" for c
    using that assms(1) hex_no_special [of c n] by (auto simp: good_ext_def)
  then have nl: "lf \<notin> set ?l" by fastforce
  have sp: "format_nat 16 n @ ext @ crlf @ t = ?l @ lf # t" by simp
  have len: "length ?l < bufsize" using assms(1) by (simp add: good_ext_def)
  have "take bufsize (?l @ lf # t) = ?l @ lf # take (bufsize - Suc (length ?l)) t"
    using len by (simp add: take_Cons')
  then have ix: "IndexByte (take bufsize (?l @ lf # t)) lf = Some (length ?l)" using IndexByte_append [OF nl] by metis
  have "TrimRight ?l crlf = TrimRight (format_nat 16 n @ ext) crlf"
    using TrimRight_append [of "[cr]" crlf "format_nat 16 n @ ext"] by simp
  also have "\<dots> = format_nat 16 n @ ext" by (rule TrimRight_clean) (rule cl)
  finally have "parse_size (TrimRight (take (length ?l) (?l @ lf # t)) crlf) = Some (int n)"
    using assms by (simp add: parse_size_header good_ext_def)
  with ix have "deframe (?l @ lf # t) = (if n = 0 then ([], True) else deframe_body n t)"
    by (simp only: deframe.simps [of "?l @ lf # t"] option.case) simp
  with sp show ?thesis by simp
qed

lemma ReadFull_deframed:
  assumes "[] \<notin> set segs" and "length (fst (deframe (concat segs))) < n"
  shows "\<exists>err c'. ReadFull (chunked_rd seg_read) n (newAWSChunkedReader (body_of segs)) =
      Some (fst (deframe (concat segs)), Some err, c') \<and>
    (if snd (deframe (concat segs)) then err = ErrEOF \<or> err = ErrUnexpectedEOF else is_malformed err)"
proof -
  let ?c = "newAWSChunkedReader (body_of segs)"
  obtain err c' where r: "read_at_least (chunked_rd seg_read) n [] ?c = Some (fst (deframe (concat segs)), Some err, c')"
    and e: "if snd (deframe (concat segs)) then err = ErrEOF else is_malformed err"
    using full_seg.read_at_least_deframed [OF new_chunked(1) [OF assms(1)], of "[]" n] assms(2)
    by (auto simp: new_chunked(2) [OF assms(1)])
  have "is_malformed err \<Longrightarrow> err \<noteq> ErrEOF" by (auto simp: is_malformed_def)
  with r e assms(2) show ?thesis by (auto simp: ReadFull_def)
qed

text \<open>
  C27 (equivalence). However the request body is cut into segments, reading the decoder past its end
  returns, with exactly the bytes the reference decoder finds; the error is the end of file of a
  well-formed body, and \<^verbatim>\<open>ErrMalformedChunked\<close> for a body that is truncated or otherwise malformed.
\<close>

theorem aws_chunked_decodes:
  assumes "[] \<notin> set segs" and "length (fst (deframe (concat segs))) < n"
  shows "\<exists>err c'. ReadFull (chunked_rd seg_read) n (newAWSChunkedReader (body_of segs)) =
      Some (fst (deframe (concat segs)), Some err, c') \<and>
    (if snd (deframe (concat segs)) then err = ErrEOF \<or> err = ErrUnexpectedEOF else is_malformed err)"
  by (rule ReadFull_deframed [OF assms])

theorem aws_chunked_decodes_witness:
  "\<exists>err c'. ReadFull (chunked_rd seg_read) 4 (newAWSChunkedReader (body_of [''3'', crlf, ''ab''])) =
      Some (''ab'', Some err, c') \<and> is_malformed err"
proof -
  have "format_nat 16 3 = ''3''" and "good_ext 3 []" by code_simp+
  then have "deframe (concat [''3'', crlf, ''ab'']) = (''ab'', False)"
    using deframe_header [of 3 "[]" "''ab''"] by (simp add: deframe_body.simps)
  with aws_chunked_decodes [of "[''3'', crlf, ''ab'']" 4] show ?thesis by simp
qed

lemma deframe_framed:
  assumes "\<forall>(e, data) \<in> set fs. data \<noteq> [] \<and> good_ext (length data) e \<and> int (length data) < 2 ^ 63"
    and "good_ext 0 ext"
  shows "deframe (framed fs ext trailer) = (concat (map snd fs), True)"
  using assms(1)
proof (induction fs)
  case Nil
  have "format_nat 16 0 = ''0''" by code_simp
  with deframe_header [OF assms(2), of trailer] show ?case by (simp add: framed_def)
next
  case (Cons f fs)
  obtain e data where f: "f = (e, data)" by (cases f)
  with Cons.prems have d: "data \<noteq> []" "good_ext (length data) e" "int (length data) < 2 ^ 63" by auto
  let ?t = "data @ crlf @ framed fs ext trailer"
  have "framed (f # fs) ext trailer = format_nat 16 (length data) @ e @ crlf @ ?t"
    by (simp add: framed_def frame_def f)
  then have "deframe (framed (f # fs) ext trailer) = deframe_body (length data) ?t"
    using deframe_header [OF d(2,3), of ?t] d(1) by simp
  moreover have "deframe_body (length data) ?t = (data @ concat (map snd fs), True)"
    using Cons by (subst deframe_body.simps) simp
  ultimately show ?case by (simp add: f)
qed

text \<open>
  C28 (roundtrip). The decoder undoes the framing: of a framed body, signed or unsigned, with frames of
  any sizes, in whatever segments the network delivers it, a caller with enough room reads the
  concatenated payload and the end of the stream; the trailer is left alone.
\<close>

theorem aws_chunked_roundtrip:
  assumes "\<forall>(e, data) \<in> set fs. data \<noteq> [] \<and> good_ext (length data) e \<and> int (length data) < 2 ^ 63"
    and "good_ext 0 ext" and "concat segs = framed fs ext trailer" and "[] \<notin> set segs"
    and "length (concat (map snd fs)) < n"
  shows "\<exists>err c'. ReadFull (chunked_rd seg_read) n (newAWSChunkedReader (body_of segs)) =
      Some (concat (map snd fs), Some err, c') \<and> (err = ErrEOF \<or> err = ErrUnexpectedEOF)"
  using ReadFull_deframed [OF assms(4), of n] deframe_framed [OF assms(1,2), of trailer] assms(3,5) by simp

theorem aws_chunked_roundtrip_witness:
  "\<exists>err c'. ReadFull (chunked_rd seg_read) 9
      (newAWSChunkedReader (body_of [framed [('';chunk-signature=ab'', ''hello''), ([], ''!'')] [] ''x''])) =
      Some (''hello!'', Some err, c') \<and> (err = ErrEOF \<or> err = ErrUnexpectedEOF)"
proof -
  have "good_ext 5 '';chunk-signature=ab''" and "good_ext 1 []" and "good_ext 0 []"
    by (simp_all add: good_ext_def bufsize_def format_nat.simps)
  moreover have "length ''hello'' = 5" and "length ''!'' = 1" by simp_all
  ultimately have e: "good_ext (length ''hello'') '';chunk-signature=ab''" "good_ext (length ''!'') []" "good_ext 0 []"
    by (simp_all only:)
  let ?fs = "[('';chunk-signature=ab'', ''hello''), ([], ''!'')]"
  have "\<forall>(e, data) \<in> set ?fs. data \<noteq> [] \<and> good_ext (length data) e \<and> int (length data) < 2 ^ 63"
    using e(1,2) by (simp del: list.size) (simp add: less_trans)
  moreover have "framed ?fs [] ''x'' \<noteq> []" by (simp add: framed_def frame_def)
  ultimately show ?thesis
    using aws_chunked_roundtrip [of ?fs "[]" "[framed ?fs [] ''x'']" "''x''" 9] e(3) by simp
qed

end
