(* ===== verification/RoundTrip.thy ===== *)
theory RoundTrip
  imports GatewaySafety AwsChunkedProps PrefetchProps
begin

text \<open>
  The gateway end to end: what a put stored, a get returns. The upload loop over the decoded body, the
  chunks and their replicas on the hosts, the chunk map in the database, and the prefetch reader over it
  are composed here, each by what was shown of it.
\<close>

section \<open>The decoded body is a reader of the payload\<close>

fun src_ok :: "upload_src \<Rightarrow> bool" where
  "src_ok (SrcPlain r) = True"
| "src_ok (SrcChunked c) = (ck_inv segs_ok seg_rest sg_fin c \<and> snd (ck_spec seg_rest c))"

fun src_rest :: "upload_src \<Rightarrow> bytes" where
  "src_rest (SrcPlain r) = seg_rest r"
| "src_rest (SrcChunked c) = fst (ck_spec seg_rest c)"

fun src_fin :: "upload_src \<Rightarrow> goerr" where
  "src_fin (SrcPlain r) = sg_fin r"
| "src_fin (SrcChunked c) = ErrEOF"

fun src_rank :: "upload_src \<Rightarrow> nat" where
  "src_rank (SrcPlain r) = length (seg_rest r) + length (sg_segs r)"
| "src_rank (SrcChunked c) = length (fst (ck_spec seg_rest c))"

lemma src_ReadE:
  assumes "src_Read r n = (bs, e, r')"
  obtains (plain) s s' where "r = SrcPlain s" and "r' = SrcPlain s'" and "seg_read s n = (bs, e, s')"
  | (framed) c c' where "r = SrcChunked c" and "r' = SrcChunked c'" and "chunked_rd seg_read c n = (bs, e, c')"
proof (cases r)
  case (SrcPlain s)
  obtain bs1 e1 s1 where "seg_read s n = (bs1, e1, s1)" by (metis prod_cases3)
  with assms SrcPlain plain show ?thesis by (auto simp del: seg_read.simps)
next
  case (SrcChunked c)
  obtain bs1 e1 c1 where "chunked_rd seg_read c n = (bs1, e1, c1)" by (metis prod_cases3)
  with assms SrcChunked framed show ?thesis by auto
qed

interpretation src: byte_source src_Read src_ok src_rest src_fin src_rank
proof
  fix r n bs e r' assume a: "src_ok r" "0 < n" "src_Read r n = (bs, e, r')"
  from a(3) show "src_ok r'"
  proof (cases rule: src_ReadE)
    case framed
    then show ?thesis using ck.rd_ok [OF _ a(2) framed(3)] a(1) by simp
  qed simp
  from a(3) show "src_rest r = bs @ src_rest r' \<and> length bs \<le> n"
  proof (cases rule: src_ReadE)
    case plain
    then show ?thesis using seg.rd_rest [OF TrueI a(2) plain(3)] by (simp del: seg_read.simps)
  next
    case framed
    then show ?thesis using ck.rd_rest [OF _ a(2) framed(3)] a(1) by simp
  qed
  from a(3) show "src_fin r' = src_fin r"
  proof (cases rule: src_ReadE)
    case plain
    then show ?thesis using seg.rd_fin [OF TrueI a(2) plain(3)] by (simp del: seg_read.simps)
  qed simp
next
  fix r n bs r' assume a: "src_ok r" "0 < n" "src_Read r n = (bs, None, r')"
  from a(3) show "src_rank r' < src_rank r"
  proof (cases rule: src_ReadE)
    case plain
    then show ?thesis using seg.rd_rank [OF TrueI a(2) plain(3)] by (simp del: seg_read.simps)
  next
    case framed
    then show ?thesis using ck.rd_rank [OF _ a(2) framed(3)] a(1) by simp
  qed
next
  fix r n bs err r' assume a: "src_ok r" "0 < n" "src_Read r n = (bs, Some err, r')"
  from a(3) show "src_rest r' = [] \<and> err = src_fin r"
  proof (cases rule: src_ReadE)
    case plain
    then show ?thesis using seg.rd_end [OF TrueI a(2) plain(3)] by (simp del: seg_read.simps)
  next
    case framed
    then show ?thesis using ck.rd_end [OF _ a(2) framed(3)] a(1) by simp
  qed
qed

text \<open>Hashing and counting: what was hashed and what is to come is the payload.\<close>

definition body_ok :: "bytes \<Rightarrow> upload_body \<Rightarrow> bool" where
  "body_ok data b \<longleftrightarrow> src_ok (te_r (ct_r b)) \<and> te_sum (ct_r b) @ src_rest (te_r (ct_r b)) = data \<and>
     ct_n b = int (length (te_sum (ct_r b)))"

lemma body_Read_src:
  "body_Read b n = (bs, e, b') \<Longrightarrow> src_Read (te_r (ct_r b)) n = (bs, e, te_r (ct_r b')) \<and>
     te_sum (ct_r b') = te_sum (ct_r b) @ bs \<and> ct_n b' = ct_n b + int (length bs)"
  by (auto simp: body_Read_def counting_Read_def tee_Read_def split: prod.splits)

interpretation body: byte_source body_Read "body_ok data" "\<lambda>b. src_rest (te_r (ct_r b))" "\<lambda>b. src_fin (te_r (ct_r b))"
  "\<lambda>b. src_rank (te_r (ct_r b))" for data
proof
  fix b n bs e b' assume a: "body_ok data b" "0 < n" "body_Read b n = (bs, e, b')"
  note r = body_Read_src [OF a(3)]
  have ok: "src_ok (te_r (ct_r b))" using a(1) by (simp add: body_ok_def)
  show "body_ok data b'" and "src_rest (te_r (ct_r b)) = bs @ src_rest (te_r (ct_r b')) \<and> length bs \<le> n"
    and "src_fin (te_r (ct_r b')) = src_fin (te_r (ct_r b))"
    using r a(1) src.rd_ok [OF ok a(2)] src.rd_rest [OF ok a(2)] src.rd_fin [OF ok a(2)] by (auto simp: body_ok_def)
next
  fix b n bs b' assume a: "body_ok data b" "0 < n" "body_Read b n = (bs, None, b')"
  then show "src_rank (te_r (ct_r b')) < src_rank (te_r (ct_r b))"
    using body_Read_src [OF a(3)] src.rd_rank by (auto simp: body_ok_def)
next
  fix b n bs err b' assume a: "body_ok data b" "0 < n" "body_Read b n = (bs, Some err, b')"
  then show "src_rest (te_r (ct_r b')) = [] \<and> err = src_fin (te_r (ct_r b))"
    using body_Read_src [OF a(3)] src.rd_end by (auto simp: body_ok_def)
qed

text \<open>The payload of a request, when its framing is sound and it arrived whole.\<close>

definition payload :: "request \<Rightarrow> bytes option" where
  "payload r =
     (if sg_fin (rq_body r) \<noteq> ErrEOF then None
      else if \<not> isAWSChunked r then Some (seg_rest (rq_body r))
      else if segs_ok (rq_body r) \<and> snd (deframe (seg_rest (rq_body r))) then Some (fst (deframe (seg_rest (rq_body r))))
      else None)"

lemma decoded_body:
  assumes "payload r = Some data"
  shows "body_ok data (decodeUpload r)" and "src_rest (te_r (ct_r (decodeUpload r))) = data"
proof -
  have body: "rq_body r = body_of (sg_segs (rq_body r))" if "sg_fin (rq_body r) = ErrEOF"
    using that by (simp add: body_of_def)
  show "body_ok data (decodeUpload r)" and "src_rest (te_r (ct_r (decodeUpload r))) = data"
    using assms body new_chunked [of "sg_segs (rq_body r)"]
    by (auto simp: payload_def decodeUpload_def hashed_body_def body_ok_def segs_ok_def split: if_splits)
qed

lemma plain_body:
  "body_ok (seg_rest s) (hashed_body (SrcPlain s))" "src_rest (te_r (ct_r (hashed_body (SrcPlain s)))) = seg_rest s"
  "src_fin (te_r (ct_r (hashed_body (SrcPlain s)))) = sg_fin s"
  by (simp_all add: hashed_body_def body_ok_def)

section \<open>What the hosts keep\<close>

text \<open>
  \<open>blob w n l\<close> is what host \<open>n\<close> serves at locator \<open>l\<close> in world \<open>w\<close>, \<open>issued w\<close> the locators given out so far.
  An upload stores its data under locators not given out before and leaves the others alone; a delete
  affects only its own locator. A host that gives out a locator again breaks this: see the note on
  Internet Archive in the root theory.
\<close>

definition env_hosts :: "('w \<Rightarrow> string \<Rightarrow> string \<Rightarrow> bytes option) \<Rightarrow> ('w \<Rightarrow> (string \<times> string) set) \<Rightarrow> 'w env \<Rightarrow> bool" where
  "env_hosts blob issued E \<longleftrightarrow>
     (\<forall>key async seq off data s r s'. ev_chunk E key async seq off data s = (r, s') \<longrightarrow>
        issued (bs_world s) \<subseteq> issued (bs_world s') \<and>
        (\<forall>(n, l) \<in> issued (bs_world s). blob (bs_world s') n l = blob (bs_world s) n l) \<and>
        (\<forall>c. r = Inr c \<longrightarrow> (\<forall>rep \<in> set (ch_replicas c).
           holds blob (bs_world s') data rep \<and> loc_of rep \<in> issued (bs_world s') - issued (bs_world s)))) \<and>
     (\<forall>n l tok w r w'. h_delete (ev_hosts E) n l tok w = (r, w') \<longrightarrow> issued w \<subseteq> issued w' \<and>
        (\<forall>n' l'. (n', l') \<noteq> (n, l) \<longrightarrow> blob w' n' l' = blob w n' l'))"

lemma env_hosts_chunk:
  assumes "env_hosts blob issued E" and "ev_chunk E key async seq off data s = (r, s')"
  shows "issued (bs_world s) \<subseteq> issued (bs_world s')"
    and "loc_of rep \<in> issued (bs_world s) \<Longrightarrow> holds blob (bs_world s) d rep \<Longrightarrow> holds blob (bs_world s') d rep"
    and "r = Inr c \<Longrightarrow> rep \<in> set (ch_replicas c) \<Longrightarrow> holds blob (bs_world s') data rep"
    and "r = Inr c \<Longrightarrow> rep \<in> set (ch_replicas c) \<Longrightarrow> loc_of rep \<in> issued (bs_world s') - issued (bs_world s)"
  using assms unfolding env_hosts_def by (fastforce simp: loc_of_def)+

lemma upload_all_stores:
  assumes "env_hosts blob issued E" and "upload_all (ev_chunk E key async) seq off ps chunks s = (cs, None, s')"
  shows "\<exists>cs'. cs = chunks @ cs' \<and> issued (bs_world s) \<subseteq> issued (bs_world s') \<and>
    (\<forall>rep d. loc_of rep \<in> issued (bs_world s) \<longrightarrow> holds blob (bs_world s) d rep \<longrightarrow> holds blob (bs_world s') d rep) \<and>
    list_all2 (\<lambda>c p. \<forall>rep \<in> set (ch_replicas c). holds blob (bs_world s') p rep \<and> loc_of rep \<in> issued (bs_world s') - issued (bs_world s)) cs' ps"
  using assms(2)
proof (induction ps arbitrary: seq off chunks s)
  case (Cons p ps)
  obtain res s1 where u: "ev_chunk E key async seq off p s = (res, s1)" by (metis surj_pair)
  note law = env_hosts_chunk [OF assms(1) u]
  from Cons.prems u obtain c where c: "res = Inr c"
    and rest: "upload_all (ev_chunk E key async) (seq + 1) (off + int (length p)) ps (chunks @ [c]) s1 = (cs, None, s')"
    by (auto split: sum.splits)
  obtain cs' where cs: "cs = (chunks @ [c]) @ cs'" and mono: "issued (bs_world s1) \<subseteq> issued (bs_world s')"
    and keep: "\<And>rep d. loc_of rep \<in> issued (bs_world s1) \<Longrightarrow> holds blob (bs_world s1) d rep \<Longrightarrow> holds blob (bs_world s') d rep"
    and all: "list_all2 (\<lambda>c p. \<forall>rep \<in> set (ch_replicas c). holds blob (bs_world s') p rep \<and> loc_of rep \<in> issued (bs_world s') - issued (bs_world s1)) cs' ps"
    using Cons.IH [OF rest] by blast
  have "list_all2 (\<lambda>c p. \<forall>rep \<in> set (ch_replicas c). holds blob (bs_world s') p rep \<and> loc_of rep \<in> issued (bs_world s') - issued (bs_world s)) cs' ps"
    using all by (rule list_all2_mono) (use law(1) in blast)
  moreover have "\<forall>rep \<in> set (ch_replicas c). holds blob (bs_world s') p rep \<and> loc_of rep \<in> issued (bs_world s') - issued (bs_world s)"
    using law(3,4) [OF c] keep mono by blast
  ultimately show ?case using cs law(1,2) mono keep by (intro exI [of _ "c # cs'"]) auto
qed simp

text \<open>Deleting the replicas of a superseded version spares every other locator.\<close>

lemma fold_delete_spares:
  assumes "env_hosts blob issued E" and "loc_of rep \<notin> loc_of ` set reps" and "holds blob w d rep"
  shows "holds blob (fold (delete_call (ev_hosts E)) reps w) d rep"
  using assms(2,3)
proof (induction reps arbitrary: w)
  case (Cons q reps)
  have "blob (delete_call (ev_hosts E) q w) (rp_provider rep) (rp_locator rep) = blob w (rp_provider rep) (rp_locator rep)"
    using assms(1) Cons.prems(1) unfolding env_hosts_def delete_call_def loc_of_def
    by (metis (no_types, lifting) image_eqI list.set_intros(1) prod.collapse)
  with Cons show ?case by simp
qed simp

lemma fold_delete_issued:
  assumes "env_hosts blob issued E"
  shows "issued w \<subseteq> issued (fold (delete_call (ev_hosts E)) reps w)"
proof (induction reps arbitrary: w)
  case (Cons q reps)
  have "issued w \<subseteq> issued (delete_call (ev_hosts E) q w)"
    using assms unfolding env_hosts_def delete_call_def by (metis prod.collapse)
  with Cons show ?case by fastforce
qed simp

lemma reap_issued:
  "env_hosts blob issued E \<Longrightarrow> issued (bs_world (gw_be g)) \<subseteq> issued (bs_world (gw_be (reapSupersededChunks E old g)))"
  using fold_delete_issued [of blob issued E] by (simp add: reapSupersededChunks_def delete_refs_def Let_def DeleteBatch_def delete_batch_loop_world)

lemma reap_spares:
  assumes "env_hosts blob issued E" and "holds blob (bs_world (gw_be g)) d rep"
    and "\<And>c q. c \<in> set old \<Longrightarrow> q \<in> set (mc_replicas c) \<Longrightarrow> (mr_provider q, mr_locator q) \<noteq> loc_of rep"
  shows "holds blob (bs_world (gw_be (reapSupersededChunks E old g))) d rep"
proof -
  let ?reps = "filter (enabled (bs_pool (gw_be g))) (concat (map cr_replicas (chunkRefs old)))"
  have "loc_of rep \<notin> loc_of ` set ?reps"
    using assms(3) by (fastforce simp: chunkRefs_def metaChunkRef_def storageReplicas_def storage_replica_def loc_of_def)
  from fold_delete_spares [OF assms(1) this assms(2)] show ?thesis
    using assms(2) by (simp add: reapSupersededChunks_def delete_refs_def Let_def DeleteBatch_def delete_batch_loop_world)
qed

section \<open>Putting an object\<close>

text \<open>The parts of the environment's contract that the upload of one request uses.\<close>

lemma backend_upload_stores:
  assumes "env_uploads E" and "env_hosts blob issued E" and "body_ok data b" and "src_rest (te_r (ct_r b)) = data"
    and "backend_upload E key async b g = Some (cs, None, b', g')"
  shows "te_sum (ct_r b') = data" and "ct_n b' = int (length data)"
    and "issued (bs_world (gw_be g)) \<subseteq> issued (bs_world (gw_be g'))"
    and "\<exists>ps. concat ps = data \<and> list_all2 (\<lambda>c p. ch_size c = int (length p) \<and> ch_replicas c \<noteq> [] \<and>
      (\<forall>rep \<in> set (ch_replicas c). holds blob (bs_world (gw_be g')) p rep \<and> loc_of rep \<in> issued (bs_world (gw_be g')) - issued (bs_world (gw_be g)))) cs ps"
    and "loc_of rep \<in> issued (bs_world (gw_be g)) \<Longrightarrow> holds blob (bs_world (gw_be g)) d rep \<Longrightarrow> holds blob (bs_world (gw_be g')) d rep"
    and "src_fin (te_r (ct_r b)) = ErrEOF \<or> src_fin (te_r (ct_r b)) = ErrUnexpectedEOF"
proof -
  let ?sz = "nat (bc_chunkSize (ev_bcfg E))" and ?uc = "ev_chunk E key async"
  have sz: "0 < ?sz" using assms(1) by (simp add: env_uploads_def)
  let ?ps = "pieces ?sz data"
  obtain r1 s1 where "upload_loop body_Read ?uc ?sz 0 0 [] b (gw_be g) = Some (cs, None, r1, s1)"
    using assms(5) by (auto simp: backend_upload_def upload_def split: option.splits prod.splits)
  from body.upload_loop_fin [OF assms(3) sz this]
  show fin: "src_fin (te_r (ct_r b)) = ErrEOF \<or> src_fin (te_r (ct_r b)) = ErrUnexpectedEOF" .
  obtain r' where loop: "upload_loop body_Read ?uc ?sz 0 0 [] b (gw_be g) =
      (case upload_all ?uc 0 0 ?ps [] (gw_be g) of (cs, e, s') \<Rightarrow> Some (cs, e, r', s'))"
    and r': "body_ok data r'" "fst (snd (upload_all ?uc 0 0 ?ps [] (gw_be g))) = None \<longrightarrow> src_rest (te_r (ct_r r')) = []"
    using body.upload_loop_pieces [OF assms(3) fin sz, of ?uc 0 0 "[]" "gw_be g"] assms(4) by auto
  have all: "upload_all ?uc 0 0 ?ps [] (gw_be g) = (cs, None, gw_be g')" and b': "r' = b'"
    using assms(5) loop by (auto simp: backend_upload_def upload_def split: option.splits prod.splits)
  with r' show "te_sum (ct_r b') = data" and "ct_n b' = int (length data)" by (auto simp: body_ok_def)
  obtain cs' where cs': "cs = [] @ cs'" and mono: "issued (bs_world (gw_be g)) \<subseteq> issued (bs_world (gw_be g'))"
    and keep: "loc_of rep \<in> issued (bs_world (gw_be g)) \<Longrightarrow> holds blob (bs_world (gw_be g)) d rep \<Longrightarrow> holds blob (bs_world (gw_be g')) d rep"
    and st: "list_all2 (\<lambda>c p. \<forall>rep \<in> set (ch_replicas c). holds blob (bs_world (gw_be g')) p rep \<and>
        loc_of rep \<in> issued (bs_world (gw_be g')) - issued (bs_world (gw_be g))) cs' ?ps"
    using upload_all_stores [OF assms(2) all] by blast
  show "issued (bs_world (gw_be g)) \<subseteq> issued (bs_world (gw_be g'))" by (rule mono)
  show "holds blob (bs_world (gw_be g')) d rep" if "loc_of rep \<in> issued (bs_world (gw_be g))" "holds blob (bs_world (gw_be g)) d rep"
    by (rule keep [OF that])
  have shape: "ch_seq c = seq \<and> ch_offset c = off \<and> ch_size c = int (length d) \<and> ch_replicas c \<noteq> [] \<and>
      length (ch_replicas c) \<le> bc_replicas (ev_bcfg E)" if "?uc seq off d t = (Inr c, t')" for seq off d t c t'
    by (rule uploads_shape [OF assms(1) that])
  have lay: "lays_out (bc_replicas (ev_bcfg E)) 0 0 cs ?ps \<and> length cs = length ?ps"
    using upload_all_lays_out [OF all, of "bc_replicas (ev_bcfg E)"] shape by (metis append_Nil)
  have sizes: "list_all2 (\<lambda>c p. ch_size c = int (length p) \<and> ch_replicas c \<noteq> []) cs ps"
    if "lays_out R seq off cs ps" "length cs = length ps" for R seq off cs ps
    using that by (induction R seq off cs ps rule: lays_out.induct) auto
  have "list_all2 (\<lambda>c p. ch_size c = int (length p) \<and> ch_replicas c \<noteq> []) cs ?ps" using sizes lay by blast
  with st cs' have "list_all2 (\<lambda>c p. ch_size c = int (length p) \<and> ch_replicas c \<noteq> [] \<and>
      (\<forall>rep \<in> set (ch_replicas c). holds blob (bs_world (gw_be g')) p rep \<and> loc_of rep \<in> issued (bs_world (gw_be g')) - issued (bs_world (gw_be g)))) cs ?ps"
    by (simp add: list_all2_conv_all_nth)
  then show "\<exists>ps. concat ps = data \<and> list_all2 (\<lambda>c p. ch_size c = int (length p) \<and> ch_replicas c \<noteq> [] \<and>
      (\<forall>rep \<in> set (ch_replicas c). holds blob (bs_world (gw_be g')) p rep \<and> loc_of rep \<in> issued (bs_world (gw_be g')) - issued (bs_world (gw_be g)))) cs ps"
    using concat_pieces [OF sz] by blast
qed

section \<open>Reading an object\<close>

text \<open>
  A read of the object is a run of the prefetch reader whose range reads, when they return bytes, return
  the range of a blob that a replica of the chunk holds: what \<open>hedged_read_exact\<close> shows of
  \<^verbatim>\<open>DownloadRangeBytes\<close>.
\<close>

definition world_content :: "('w \<Rightarrow> string \<Rightarrow> string \<Rightarrow> bytes option) \<Rightarrow> 'w \<Rightarrow> chunk_ref \<Rightarrow> bytes" where
  "world_content blob w ref =
     (case cr_replicas ref of
        [] \<Rightarrow> []
      | rep # _ \<Rightarrow> (case blob w (rp_provider rep) (rp_locator rep) of None \<Rightarrow> [] | Some d \<Rightarrow> d))"

definition world_fetches :: "('w \<Rightarrow> string \<Rightarrow> string \<Rightarrow> bytes option) \<Rightarrow> 'w \<Rightarrow> backend_source \<Rightarrow>
    (chunk_ref \<Rightarrow> int \<Rightarrow> int \<Rightarrow> goerr + bytes) \<Rightarrow> bool" where
  "world_fetches blob w src f \<longleftrightarrow> (\<forall>ref off len. f ref off len \<noteq> Inl ErrEOF \<and>
     (\<forall>bs. f ref off len = Inr bs \<longrightarrow> ref \<in> cl_ref ` set (so_locs src) \<and>
        (\<exists>rep \<in> set (cr_replicas ref). \<exists>d. holds blob w d rep \<and> bs = range_of off len d)))"

definition world_source :: "('w \<Rightarrow> string \<Rightarrow> string \<Rightarrow> bytes option) \<Rightarrow> 'w \<Rightarrow> backend_source \<Rightarrow> source" where
  "world_source blob w src = \<lparr>sr_src = src, sr_content = world_content blob w, sr_fetches = world_fetches blob w src\<rparr>"

definition env_reads :: "('w \<Rightarrow> string \<Rightarrow> string \<Rightarrow> bytes option) \<Rightarrow> 'w env \<Rightarrow> bool" where
  "env_reads blob E \<longleftrightarrow> (\<forall>src start en s bs e s'. ev_read E src start en s = (Inr (bs, e), s') \<longrightarrow>
     (\<exists>conc outs r. rd_reach (source_chunk (world_source blob (bs_world s) src)) (NewReader (ChunkSize src) start en conc outs) r \<and>
        rd_got r = bs \<and> (e = None \<longrightarrow> rd_err r = Some ErrEOF \<and> \<not> rd_cancelled r)))"

text \<open>A chunk map stores some bytes: every replica of every chunk holds its piece.\<close>

definition stores :: "('w \<Rightarrow> string \<Rightarrow> string \<Rightarrow> bytes option) \<Rightarrow> 'w \<Rightarrow> mchunk list \<Rightarrow> bytes \<Rightarrow> bool" where
  "stores blob w mcs data \<longleftrightarrow> (\<exists>ps. concat ps = data \<and>
     list_all2 (\<lambda>c p. mc_size c = int (length p) \<and> mc_replicas c \<noteq> [] \<and>
       (\<forall>q \<in> set (mc_replicas c). holds blob w p (storage_replica q))) mcs ps)"

abbreviation locs_of :: "mchunk list \<Rightarrow> chunk_loc list" where
  "locs_of mcs \<equiv> map (\<lambda>c. \<lparr>cl_ref = metaChunkRef c, cl_offset = mc_offset c, cl_size = mc_size c\<rparr>) mcs"

lemma locs_tile: "laid_out seq off mcs \<Longrightarrow> tiles off (locs_of mcs)"
  by (induction mcs arbitrary: seq off) auto

lemma locs_span: "span_of (locs_of mcs) = span mcs"
  by (induction mcs) auto

lemma storageReplicas_set: "set (storageReplicas reps) = storage_replica ` set reps"
  by (auto simp: storageReplicas_def)

lemma ref_content:
  assumes "mc_replicas c \<noteq> []" and "\<forall>q \<in> set (mc_replicas c). holds blob w p (storage_replica q)"
  shows "world_content blob w (metaChunkRef c) = p"
    and "rep \<in> set (cr_replicas (metaChunkRef c)) \<Longrightarrow> holds blob w p rep"
proof -
  show r: "holds blob w p rep" if "rep \<in> set (cr_replicas (metaChunkRef c))" for rep
    using that assms(2) by (auto simp: metaChunkRef_def storageReplicas_set)
  have "cr_replicas (metaChunkRef c) \<noteq> []"
    using assms(1) storageReplicas_set [of "mc_replicas c"] by (auto simp: metaChunkRef_def)
  then show "world_content blob w (metaChunkRef c) = p"
    using r by (cases "cr_replicas (metaChunkRef c)") (auto simp: world_content_def)
qed

lemma stored_source:
  assumes "laid_out 0 0 mcs" and "stores blob w mcs data" and "src = \<lparr>so_objSize = int (length data), so_locs = locs_of mcs, so_chunkSize = k\<rparr>"
  shows "source_ok (world_source blob w src)" and "source_bytes (world_source blob w src) = data"
proof -
  obtain ps where ps: "concat ps = data" and all: "list_all2 (\<lambda>c p. mc_size c = int (length p) \<and> mc_replicas c \<noteq> [] \<and>
       (\<forall>q \<in> set (mc_replicas c). holds blob w p (storage_replica q))) mcs ps"
    using assms(2) by (auto simp: stores_def)
  have cont: "map (\<lambda>l. world_content blob w (cl_ref l)) (locs_of mcs) = ps" and sz: "map mc_size mcs = map (int \<circ> length) ps"
    using all by (induction mcs ps rule: list_all2_induct) (simp_all add: ref_content(1))
  have "span mcs = int (length data)"
    unfolding sz ps [symmetric] by (simp add: length_concat comp_def flip: sum_list_of_nat)
  moreover have piece: "\<exists>p. mc_size c = int (length p) \<and> mc_replicas c \<noteq> [] \<and>
      (\<forall>q \<in> set (mc_replicas c). holds blob w p (storage_replica q))" if "c \<in> set mcs" for c
    using all that by (induction mcs ps rule: list_all2_induct) auto
  moreover have "int (length (world_content blob w (metaChunkRef c))) = mc_size c" if "c \<in> set mcs" for c
    using piece [OF that] ref_content(1) [of c blob w] by metis
  ultimately have "valid_source (world_content blob w) src"
    using locs_tile [OF assms(1)] by (auto simp: valid_source_def assms(3) locs_span)
  moreover have "exact_fetch (world_content blob w) f" if "world_fetches blob w src f" for f
    unfolding exact_fetch_def
  proof (intro allI impI)
    fix ref off len bs assume "f ref off len = Inr bs"
    with that obtain rep d where "ref \<in> cl_ref ` set (so_locs src)" and rep: "rep \<in> set (cr_replicas ref)" "holds blob w d rep"
      and bs: "bs = range_of off len d" unfolding world_fetches_def by blast
    then obtain c where c: "c \<in> set mcs" "ref = metaChunkRef c" by (auto simp: assms(3))
    then obtain p where "mc_replicas c \<noteq> []" "\<forall>q \<in> set (mc_replicas c). holds blob w p (storage_replica q)"
      using piece by blast
    from ref_content [of c blob w p, OF this] rep c(2) bs show "bs = range_of off len (world_content blob w ref)" by auto
  qed
  moreover have "world_fetches blob w src (\<lambda>_ _ _. Inl ErrCtx)" by (simp add: world_fetches_def)
  ultimately show "source_ok (world_source blob w src)"
    by (auto simp: source_ok_def world_source_def) (auto simp: world_fetches_def)
  show "source_bytes (world_source blob w src) = data"
    using cont ps by (simp add: source_bytes_def world_source_def assms(3) object_bytes_def comp_def)
qed

lemma read_stored:
  assumes "env_reads blob E" and "laid_out 0 0 mcs" and "stores blob (bs_world s) mcs data"
    and "ob_size obj = int (length data)" and "0 \<le> start" and "start \<le> en" and "en \<le> int (length data)"
    and "ev_read E (object_source E obj (locs_of mcs)) start en s = (Inr (bs, e), s')"
  shows "prefix bs (window start en data) \<and> (e = None \<longrightarrow> bs = window start en data)"
proof -
  let ?src = "object_source E obj (locs_of mcs)" and ?w = "bs_world s"
  have src: "?src = \<lparr>so_objSize = int (length data), so_locs = locs_of mcs, so_chunkSize = ev_streamChunk E\<rparr>"
    using assms(4) by (simp add: object_source_def)
  note ok = stored_source [OF assms(2,3) src]
  obtain conc outs r where r: "rd_reach (source_chunk (world_source blob ?w ?src)) (NewReader (ChunkSize ?src) start en conc outs) r"
    "rd_got r = bs" "e = None \<longrightarrow> rd_err r = Some ErrEOF \<and> \<not> rd_cancelled r"
    using assms(1,8) unfolding env_reads_def by blast
  have sr: "sr_src (world_source blob ?w ?src) = ?src" by (simp add: world_source_def)
  have len: "en \<le> int (length (source_bytes (world_source blob ?w ?src)))" using assms(7) by (simp only: ok(2))
  have run: "rd_reach (source_chunk (world_source blob ?w ?src))
      (NewReader (ChunkSize (sr_src (world_source blob ?w ?src))) start en conc outs) r"
    unfolding sr by (rule r(1))
  show ?thesis
    using backend.in_order [OF ok(1) assms(5,6) len run] backend.complete_at_eof [OF ok(1) assms(5,6) len run] r(2,3)
    unfolding ok(2) by blast
qed

end
