(* ===== verification/EnvRuns.thy ===== *)
theory EnvRuns
  imports RoundTrip HedgedRead
begin

text \<open>
  Where the contracts of \<open>RoundTrip\<close> come from: the chunk uploads of an environment are runs of
  \<^verbatim>\<open>uploadChunk\<close> beside the hosts, its range reads are runs of \<^verbatim>\<open>DownloadRangeBytes\<close> under the prefetch
  reader. Then what is left to assume is about the hosts alone: they keep what they store, and give
  out no locator twice.
\<close>

section \<open>Uploads\<close>

lemma uploads_hosts:
  assumes "env_uploads E" and "fresh_hosts (ev_hosts E) blob issued"
  shows "env_hosts blob issued E"
proof -
  have "kept blob issued (bs_world s) (bs_world s') \<and> (\<forall>c. r = Inr c \<longrightarrow> (\<forall>rep \<in> set (ch_replicas c).
      holds blob (bs_world s') data rep \<and> loc_of rep \<in> issued (bs_world s') - issued (bs_world s)))"
    if "ev_chunk E key async seq off data s = (r, s')" for key async seq off data s r s'
    using chunk_run_kept [OF assms(2)] assms(1) that unfolding env_uploads_def by blast
  then have up: "\<forall>key async seq off data s r s'. ev_chunk E key async seq off data s = (r, s') \<longrightarrow>
      issued (bs_world s) \<subseteq> issued (bs_world s') \<and>
      (\<forall>(n, l) \<in> issued (bs_world s). blob (bs_world s') n l = blob (bs_world s) n l) \<and>
      (\<forall>c. r = Inr c \<longrightarrow> (\<forall>rep \<in> set (ch_replicas c).
         holds blob (bs_world s') data rep \<and> loc_of rep \<in> issued (bs_world s') - issued (bs_world s)))"
    unfolding kept_def by blast
  show ?thesis unfolding env_hosts_def by (rule conjI [OF up]) (use assms(2) in \<open>simp add: fresh_hosts_def\<close>)
qed

section \<open>Reads in the world\<close>

text \<open>
  A range read is a run of \<^verbatim>\<open>DownloadRangeBytes\<close>, during which the stored blobs stay what they are; a read
  of an object is a run of the prefetch reader over such range reads of the object's chunks. A read that
  does not end cleanly ends with the reader's error, or, when it was cancelled, with that of the context:
  \<^verbatim>\<open>Read\<close> reports \<^verbatim>\<open>io.EOF\<close> then, and the calls that follow on the cancelled context fail.
\<close>

definition hedged_run :: "'w hosts \<Rightarrow> ('w \<Rightarrow> string \<Rightarrow> string \<Rightarrow> bytes option) \<Rightarrow> pool \<Rightarrow> 'w \<Rightarrow> chunk_ref \<Rightarrow> int \<Rightarrow> int \<Rightarrow>
    goerr + bytes \<Rightarrow> bool" where
  "hedged_run H blob p w ref off len r \<longleftrightarrow>
     (\<exists>hedge. case DownloadRangeBytes_start hedge p ref of
        Inl e \<Rightarrow> r = Inl e
      | Inr s0 \<Rightarrow> (\<exists>s. hr_reach (answers H (\<lambda>w'. blob w' = blob w) off len) hedge s0 s \<and> hr_result s = Some r))"

definition hedged_chunk :: "'w hosts \<Rightarrow> ('w \<Rightarrow> string \<Rightarrow> string \<Rightarrow> bytes option) \<Rightarrow> pool \<Rightarrow> 'w \<Rightarrow> backend_source \<Rightarrow>
    int \<Rightarrow> int \<Rightarrow> goerr + bytes \<Rightarrow> bool" where
  "hedged_chunk H blob p w src off lim res \<longleftrightarrow>
     (\<exists>f. (\<forall>l \<in> set (so_locs src). \<forall>off len. hedged_run H blob p w (cl_ref l) off len (f (cl_ref l) off len)) \<and>
        Chunk f src off lim = res)"

definition env_hedged :: "('w \<Rightarrow> string \<Rightarrow> string \<Rightarrow> bytes option) \<Rightarrow> 'w env \<Rightarrow> bool" where
  "env_hedged blob E \<longleftrightarrow> (\<forall>src start en s bs e s'. ev_read E src start en s = (Inr (bs, e), s') \<longrightarrow>
     (\<exists>conc outs r. rd_reach (hedged_chunk (ev_hosts E) blob (bs_pool s) (bs_world s) src)
          (NewReader (ChunkSize src) start en conc outs) r \<and>
        rd_got r = bs \<and>
        (case e of None \<Rightarrow> rd_err r = Some ErrEOF \<and> \<not> rd_cancelled r
         | Some x \<Rightarrow> x = ErrCtx \<or> (x \<noteq> ErrEOF \<and> rd_err r = Some x))))"

section \<open>What a read returns\<close>

lemma hedged_run_holds:
  assumes "honest H blob" and "hedged_run H blob p w ref off len r"
  shows "r \<notin> {Inl ErrEOF, Inl ErrUnexpectedEOF}" and "r = Inr bs \<Longrightarrow> \<exists>rep \<in> set (cr_replicas ref). \<exists>d. holds blob w d rep \<and> bs = range_of off len d"
proof -
  obtain hedge where h: "case DownloadRangeBytes_start hedge p ref of
        Inl e \<Rightarrow> r = Inl e
      | Inr s0 \<Rightarrow> (\<exists>s. hr_reach (answers H (\<lambda>w'. blob w' = blob w) off len) hedge s0 s \<and> hr_result s = Some r)"
    using assms(2) by (auto simp: hedged_run_def)
  show "\<exists>rep \<in> set (cr_replicas ref). \<exists>d. holds blob w d rep \<and> bs = range_of off len d" if bs: "r = Inr bs"
  proof -
    obtain s0 s where s: "DownloadRangeBytes_start hedge p ref = Inr s0"
      "hr_reach (answers H (\<lambda>w'. blob w' = blob w) off len) hedge s0 s" "hr_result s = Some (Inr bs)"
      using h bs by (auto split: sum.splits)
    have "hr_inv (answers H (\<lambda>w'. blob w' = blob w) off len) s" and "set (hr_cands s) \<subseteq> set (cr_replicas ref)"
      using hr_reach_inv [OF s(1,2)] by auto
    then obtain rep where "rep \<in> set (cr_replicas ref)" "answers H (\<lambda>w'. blob w' = blob w) off len rep (Inr bs)"
      using s(3) by (auto simp: hr_inv_def)
    moreover from answers_honest [OF assms(1) this(2)] obtain w' d where "blob w' = blob w" "holds blob w' d rep" "bs = range_of off len d"
      by blast
    ultimately show ?thesis by (intro bexI [of _ rep] exI [of _ d]) simp_all
  qed
  show "r \<notin> {Inl ErrEOF, Inl ErrUnexpectedEOF}"
  proof
    assume "r \<in> {Inl ErrEOF, Inl ErrUnexpectedEOF}"
    then obtain x s0 s where x: "x = ErrEOF \<or> x = ErrUnexpectedEOF" and s: "DownloadRangeBytes_start hedge p ref = Inr s0"
      "hr_reach (answers H (\<lambda>w'. blob w' = blob w) off len) hedge s0 s" "hr_result s = Some (Inl x)"
      using h by (auto simp: DownloadRangeBytes_start_def Let_def split: sum.splits if_splits)
    have "hr_result s \<noteq> Some (Inl x)"
      using s(2,1)
    proof (induction rule: rtranclp_induct)
      case base
      then show ?case by (auto simp: DownloadRangeBytes_start_def armHedge_def hr_launch_def Let_def split: if_splits)
    next
      case (step y z)
      from step(2,3,4) x show ?case
        by cases (auto simp: hr_hedge_def armHedge_def hr_launch_def hr_receive_def hr_exhausted_def Let_def split: sum.splits)
    qed
    with s(3) show False by simp
  qed
qed

text \<open>The chunk source asks for its own chunks only.\<close>

lemma search_loop_le: "i \<le> j \<Longrightarrow> search_loop f i j \<le> j"
proof (induction f i j rule: search_loop.induct)
  case (1 f i j)
  show ?case
  proof (cases "i < j")
    case True
    then have "i \<le> (i + j) div 2" "(i + j) div 2 + 1 \<le> j" by auto
    with 1 True show ?thesis by (subst search_loop.simps) (force simp: Let_def)
  next
    case False
    with 1 show ?thesis by (simp add: search_loop.simps)
  qed
qed

lemma locate_mem: "locate src offset = Some (loc, lo) \<Longrightarrow> loc \<in> set (so_locs src)"
proof -
  let ?P = "\<lambda>i. cl_offset (so_locs src ! i) > offset"
  assume "locate src offset = Some (loc, lo)"
  moreover have "search_loop ?P 0 (length (so_locs src)) \<le> length (so_locs src)" by (rule search_loop_le) simp
  ultimately show ?thesis by (auto simp: locate_def sort_Search_def Let_def split: if_splits)
qed

lemma chunk_loop_cong:
  assumes "\<And>l off len. l \<in> set (so_locs src) \<Longrightarrow> f (cl_ref l) off len = g (cl_ref l) off len"
  shows "chunk_loop f src en cur out = chunk_loop g src en cur out"
proof (induction "nat (en - cur)" arbitrary: cur out rule: less_induct)
  case less
  show ?case
  proof (cases "cur < en")
    case False
    then show ?thesis by (simp add: chunk_loop.simps)
  next
    case True
    show ?thesis
    proof (cases "locate src cur")
      case None
      then show ?thesis by (simp add: chunk_loop.simps)
    next
      case (Some p)
      obtain loc lo where p: "p = (loc, lo)" by (cases p)
      have eq: "f (cl_ref loc) lo x = g (cl_ref loc) lo x" for x
        by (rule assms) (rule locate_mem [OF Some [unfolded p]])
      have "chunk_loop f src en (cur + int (length buf)) out' = chunk_loop g src en (cur + int (length buf)) out'"
        if "buf \<noteq> []" for buf :: bytes and out'
        by (rule less) (use that True in simp)
      then show ?thesis
        by (subst (1 2) chunk_loop.simps) (simp add: Some p eq Let_def split: sum.splits)
    qed
  qed
qed

lemma Chunk_cong:
  assumes "\<And>l off len. l \<in> set (so_locs src) \<Longrightarrow> f (cl_ref l) off len = g (cl_ref l) off len"
  shows "Chunk f src off lim = Chunk g src off lim"
  using chunk_loop_cong [of src f g, OF assms] by (simp add: Chunk_def Let_def)

lemma rd_step_mono: "rd_step c r r' \<Longrightarrow> (\<And>off lim res. c off lim res \<Longrightarrow> c' off lim res) \<Longrightarrow> rd_step c' r r'"
  by (induction rule: rd_step.induct) (blast intro: rd_step.intros)+

lemma hedged_source:
  assumes "honest H blob" and "hedged_chunk H blob p w src off lim res"
  shows "source_chunk (world_source blob w src) off lim res"
proof -
  obtain f where f: "\<And>l off len. l \<in> set (so_locs src) \<Longrightarrow> hedged_run H blob p w (cl_ref l) off len (f (cl_ref l) off len)"
    and res: "Chunk f src off lim = res"
    using assms(2) by (auto simp: hedged_chunk_def)
  define g where "g ref off len = (if ref \<in> cl_ref ` set (so_locs src) then f ref off len else Inl ErrCtx)" for ref off len
  have "world_fetches blob w src g"
    unfolding world_fetches_def
  proof (intro allI conjI impI)
    fix ref off len
    show "g ref off len \<noteq> Inl ErrEOF"
    proof (cases "ref \<in> cl_ref ` set (so_locs src)")
      case True
      then obtain l where "l \<in> set (so_locs src)" "ref = cl_ref l" by blast
      with hedged_run_holds(1) [OF assms(1) f, of l off len] show ?thesis by (auto simp: g_def)
    qed (simp add: g_def)
    fix bs assume bs: "g ref off len = Inr bs"
    then show ref: "ref \<in> cl_ref ` set (so_locs src)" by (simp add: g_def split: if_splits)
    then obtain l where l: "l \<in> set (so_locs src)" "ref = cl_ref l" by blast
    have "f (cl_ref l) off len = Inr bs" using bs ref by (simp add: g_def l(2))
    from hedged_run_holds(2) [OF assms(1) f [OF l(1), of off len] this]
    show "\<exists>rep \<in> set (cr_replicas ref). \<exists>d. holds blob w d rep \<and> bs = range_of off len d" by (simp add: l(2))
  qed
  moreover have "Chunk g src off lim = res"
    unfolding res [symmetric] by (rule Chunk_cong) (simp add: g_def)
  ultimately show ?thesis by (auto simp: source_chunk_def world_source_def)
qed

lemma hedged_reads:
  assumes "honest (ev_hosts E) blob" and "env_hedged blob E"
  shows "env_reads blob E"
proof -
  have "rd_step (source_chunk (world_source blob w src)) r r'" if "rd_step (hedged_chunk (ev_hosts E) blob p w src) r r'"
    for p w src r r'
    using that by (rule rd_step_mono) (rule hedged_source [OF assms(1)])
  then have reach: "rd_reach (source_chunk (world_source blob w src)) r r'" if "rd_reach (hedged_chunk (ev_hosts E) blob p w src) r r'"
    for p w src r r'
    using that rtranclp_mono [of "rd_step (hedged_chunk (ev_hosts E) blob p w src)"] by blast
  have "\<exists>conc outs r. rd_reach (source_chunk (world_source blob (bs_world s) src)) (NewReader (ChunkSize src) start en conc outs) r \<and>
      rd_got r = bs \<and> (e = None \<longrightarrow> rd_err r = Some ErrEOF \<and> \<not> rd_cancelled r)"
    if run: "ev_read E src start en s = (Inr (bs, e), s')" for src start en s bs e s'
  proof -
    obtain conc outs r where r: "rd_reach (hedged_chunk (ev_hosts E) blob (bs_pool s) (bs_world s) src) (NewReader (ChunkSize src) start en conc outs) r"
      "rd_got r = bs" "e = None \<longrightarrow> rd_err r = Some ErrEOF \<and> \<not> rd_cancelled r"
      using assms(2) [unfolded env_hedged_def, rule_format, OF run] by (cases e) auto
    with reach [OF r(1)] show ?thesis by blast
  qed
  then show ?thesis unfolding env_reads_def by blast
qed

section \<open>The errors of a read\<close>

lemma chunk_loop_error:
  assumes "chunk_loop f src en cur out = Inl e"
  shows "(\<exists>l \<in> set (so_locs src). \<exists>off len. f (cl_ref l) off len = Inl e) \<or> e = ErrMsg ''reader: offset outside chunk map''"
  using assms
proof (induction f src en cur out rule: chunk_loop.induct)
  case (1 f src en cur out)
  show ?case
  proof (cases "locate src cur")
    case None
    with 1(2) show ?thesis by (subst (asm) chunk_loop.simps) (auto split: if_splits)
  next
    case (Some p)
    obtain l lo where p: "p = (l, lo)" by (cases p)
    note l = locate_mem [OF Some [unfolded p]]
    have "cur < en" using 1(2) by (subst (asm) chunk_loop.simps) (auto split: if_splits)
    note IH = 1(1) [OF this Some p [symmetric] refl refl _ refl]
    let ?want = "(if cl_offset l + cl_size l > en then en else cl_offset l + cl_size l) - cur"
    show ?thesis
    proof (cases "f (cl_ref l) lo ?want")
      case (Inl e')
      with 1(2) \<open>cur < en\<close> have "e' = e" by (subst (asm) chunk_loop.simps) (simp add: Some p Let_def)
      with Inl l show ?thesis by blast
    next
      case (Inr buf)
      with 1(2) \<open>cur < en\<close> have "\<not> (int (length buf) = 0 \<or> int (length buf) < ?want)"
        and "chunk_loop f src en (cur + int (length buf)) (out @ buf) = Inl e"
        by (subst (asm) chunk_loop.simps; simp add: Some p Let_def split: if_splits)+
      from IH [OF Inr this] show ?thesis .
    qed
  qed
qed

lemma hedged_chunk_error:
  assumes "honest H blob" and "hedged_chunk H blob p w src off lim (Inl e)"
  shows "e \<noteq> ErrUnexpectedEOF"
proof -
  obtain f where f: "\<And>l off len. l \<in> set (so_locs src) \<Longrightarrow> hedged_run H blob p w (cl_ref l) off len (f (cl_ref l) off len)"
    and e: "Chunk f src off lim = Inl e"
    using assms(2) by (auto simp: hedged_chunk_def)
  then show ?thesis
    using chunk_loop_error [of f src] hedged_run_holds(1) [OF assms(1) f] by (fastforce simp: Chunk_def Let_def split: if_splits)
qed

text \<open>Every error a reader holds is one of a fetch, of the context, or the end of the stream.\<close>

definition errs_in :: "goerr set \<Rightarrow> rdr \<Rightarrow> bool" where
  "errs_in S r \<longleftrightarrow> set_option (rd_err r) \<subseteq> S \<and> (\<forall>i b. rd_results r i = Some b \<longrightarrow> set_option (bf_err b) \<subseteq> S) \<and>
     (\<forall>b. rd_pending r = Some b \<longrightarrow> set_option (bf_err b) \<subseteq> S) \<and> (\<forall>b \<in> set (rd_out r). set_option (bf_err b) \<subseteq> S)"

lemma trim_err [simp]: "bf_err (trim r i b) = bf_err b"
  by (simp add: trim_def Let_def)

lemma rd_step_errors:
  assumes "rd_step chunk r r'" and "errs_in S r" and "ErrEOF \<in> S" and "ErrCtx \<in> S" and "\<And>off lim e. chunk off lim (Inl e) \<Longrightarrow> e \<in> S"
  shows "errs_in S r'"
  using assms(1)
proof cases
  case (publish xs i ys res)
  then have "set_option (bf_err (fetched res)) \<subseteq> S" using assms(5) by (cases res) (auto simp: fetched_def)
  with publish assms(2) show ?thesis by (simp add: errs_in_def rd_publish_def)
qed (use assms(2-4) in \<open>simp_all add: errs_in_def rd_publish_def rd_take_def rd_send_def rd_pull_def rd_copy_def fetched_def Let_def\<close>)

lemma new_reader_empty: "rd_err (NewReader c s e n m) = None" "rd_results (NewReader c s e n m) i = None"
  "rd_pending (NewReader c s e n m) = None" "rd_out (NewReader c s e n m) = []"
  unfolding NewReader_def Let_def by (simp_all only: if_distrib [of rd_err] if_distrib [of rd_results] if_distrib [of rd_pending]
      if_distrib [of rd_out] rdr.simps if_cancel)

lemma rd_reach_errors:
  assumes "rd_reach chunk (NewReader csize start en conc outs) r" and "\<And>off lim e. chunk off lim (Inl e) \<Longrightarrow> e \<in> S"
  shows "errs_in ({ErrEOF, ErrCtx} \<union> S) r"
  using assms(1)
proof (induction rule: rtranclp_induct)
  case base
  show ?case by (simp add: errs_in_def new_reader_empty)
next
  case (step y z)
  show ?case by (rule rd_step_errors [OF step(2,3)]) (use assms(2) in auto)
qed

lemma hedged_read_error:
  assumes "honest (ev_hosts E) blob" and "env_hedged blob E" and "ev_read E src start en s = (Inr (bs, Some x), s')"
  shows "x \<noteq> ErrEOF" and "x \<noteq> ErrUnexpectedEOF"
proof -
  obtain conc outs r where r: "rd_reach (hedged_chunk (ev_hosts E) blob (bs_pool s) (bs_world s) src)
      (NewReader (ChunkSize src) start en conc outs) r" and x: "x = ErrCtx \<or> (x \<noteq> ErrEOF \<and> rd_err r = Some x)"
    using assms(2) [unfolded env_hedged_def, rule_format, OF assms(3)] by auto
  then show "x \<noteq> ErrEOF" by auto
  show "x \<noteq> ErrUnexpectedEOF"
  proof
    assume u: "x = ErrUnexpectedEOF"
    have "errs_in ({ErrEOF, ErrCtx} \<union> - {ErrUnexpectedEOF}) r"
      by (rule rd_reach_errors [OF r]) (use hedged_chunk_error [OF assms(1)] in blast)
    with x u show False by (auto simp: errs_in_def)
  qed
qed

end
