(* ===== verification/PutGet.thy ===== *)
theory PutGet
  imports EnvRuns
begin

text \<open>
  A put and a later get of the same object, through the router and the handlers.
\<close>

section \<open>Requests on one object\<close>

definition object_request :: "'w env \<Rightarrow> string \<Rightarrow> string \<Rightarrow> string \<Rightarrow> request \<Rightarrow> bool" where
  "object_request E m b k r \<longleftrightarrow> rq_method r = m \<and> rq_path r \<noteq> ''/healthz'' \<and>
     splitBucketKey (ev_auth E) r = (b, k) \<and> b \<noteq> [] \<and> k \<noteq> [] \<and> values_get (rq_query r) ''uploadId'' = []"

lemma serve_put:
  assumes "object_request E ''PUT'' b k r" and "ServeHTTP E now rnd rid r g = Some (resp, g')" and "rs_status resp = 200"
  obtains h where "putObject E now r b k h g = Some (resp, g')"
proof -
  have "rs_status (writeError 403 c m h) \<noteq> 200" for c m h by (simp add: writeError_def writeXML_def)
  with assms that show ?thesis
    by (auto simp: object_request_def ServeHTTP_def route_def Let_def split: if_splits)
qed

lemma serve_get:
  assumes "object_request E ''GET'' b k r" and "ServeHTTP E now rnd rid r g = Some (resp, g')"
  obtains h where "getObject E r b k h g = (resp, g')"
  using assms by (auto simp: object_request_def ServeHTTP_def route_def publicObjectRead_def Let_def)

section \<open>The put\<close>

lemma GetObjectChunks_value:
  assumes "GetObjectChunks b k d = (Inr cs, d')" and "wf d"
  shows "cs = read_chunks (tabs d) b k"
proof -
  have "fst (GetObjectChunks b k (d\<lparr>faults := []\<rparr>)) = Inr cs"
    using assms(1) unfolding GetObjectChunks_def Let_def
    by (auto simp: bindE_def query_def stmt_def retE_def split: list.splits option.splits prod.splits if_splits)
  then show ?thesis using GetObjectChunks_read [of "d\<lparr>faults := []\<rparr>" b k] assms(2) by simp
qed

definition row_loc :: "replica_row \<Rightarrow> string \<times> string" where
  "row_loc q = (r_provider q, r_locator q)"

lemma read_chunks_locs:
  assumes "c \<in> set (read_chunks t b k)" and "q \<in> set (mc_replicas c)"
  shows "(mr_provider q, mr_locator q) \<in> row_loc ` set (t_replicas t)"
  using assms by (auto simp: read_chunks_def read_replicas_def replica_of_row_def row_loc_def)

text \<open>Every locator in the database was given out by a host.\<close>

definition db_issued :: "('w \<Rightarrow> (string \<times> string) set) \<Rightarrow> 'w gw \<Rightarrow> bool" where
  "db_issued issued g \<longleftrightarrow> row_loc ` set (t_replicas (tabs (gw_db g))) \<subseteq> issued (bs_world (gw_be g))"

lemma stored_meta:
  assumes "concat ps = data" and "list_all2 (\<lambda>c p. ch_size c = int (length p) \<and> ch_replicas c \<noteq> [] \<and>
      (\<forall>rep \<in> set (ch_replicas c). holds blob w p rep)) cs ps"
  shows "stores blob w (toMetaChunks cs) data"
proof -
  have "list_all2 (\<lambda>c p. mc_size c = int (length p) \<and> mc_replicas c \<noteq> [] \<and>
      (\<forall>q \<in> set (mc_replicas c). holds blob w p (storage_replica q))) (toMetaChunks cs) ps"
    using assms(2) by (simp add: toMetaChunks_def list.rel_map storage_replica_def)
  with assms(1) show ?thesis by (auto simp: stores_def)
qed

lemma stores_kept:
  assumes "stores blob w mcs data" and "\<And>n l. blob w n l \<noteq> None \<Longrightarrow> blob w' n l = blob w n l"
  shows "stores blob w' mcs data"
proof -
  have "holds blob w' p rep" if "holds blob w p rep" for p rep using assms(2) that by force
  then have "list_all2 (\<lambda>c p. mc_size c = int (length p) \<and> mc_replicas c \<noteq> [] \<and>
      (\<forall>q \<in> set (mc_replicas c). holds blob w' p (storage_replica q))) mcs ps"
    if "list_all2 (\<lambda>c p. mc_size c = int (length p) \<and> mc_replicas c \<noteq> [] \<and>
      (\<forall>q \<in> set (mc_replicas c). holds blob w p (storage_replica q))) mcs ps" for ps
    using that by (elim list_all2_mono) blast
  with assms(1) show ?thesis unfolding stores_def by blast
qed

lemma same_query:
  assumes "query_or x q g = (y, g')" and "\<And>t. keeps (\<lambda>d. tabs d = t) q"
  shows "tabs (gw_db g') = tabs (gw_db g)" and "gw_be g' = gw_be g"
  using assms(1) keepsD [OF assms(2), of "gw_db g" "tabs (gw_db g)"]
  by (auto simp: query_or_def on_db_def split: prod.splits sum.splits)

text \<open>The run of a put that is answered 200, call by call.\<close>

lemma putObject_run:
  assumes r: "hdr r ''X-Amz-Copy-Source'' = []" and run: "putObject E now r b k h g = Some (resp, g')" "rs_status resp = 200"
  obtains g1 cs bd g2 old g3 obj g4 where "tabs (gw_db g1) = tabs (gw_db g)" and "gw_be g1 = gw_be g"
    and "backend_upload E k True (decodeUpload r) g1 = Some (cs, None, bd, g2)"
    and "query_or [] (GetObjectChunks b k) g2 = (old, g3)"
    and "PutObject now obj (toMetaChunks cs) (gw_db g3) = (Inr (), gw_db g4)" and "gw_be g4 = gw_be g3"
    and "ob_bucket obj = b" and "ob_key obj = k" and "ob_size obj = ct_n bd" and "ob_etag obj = body_etag E bd"
    and "g' = reapSupersededChunks E old g4" and "on_db (BucketExists b) g = (Inr True, g1)"
proof -
  obtain e g1 where be: "on_db (BucketExists b) g = (e, g1)" by (metis surj_pair)
  have g1: "tabs (gw_db g1) = tabs (gw_db g)" "gw_be g1 = gw_be g"
    using be keepsD [OF same.plain_reads(2), of "gw_db g" "tabs (gw_db g)" b] by (auto simp: on_db_def split: prod.splits)
  have no: "rs_status (writeError st c m h) = st" for st c m h by (simp add: writeError_def writeXML_def)
  obtain cs err bd g2 where up: "backend_upload E k True (decodeUpload r) g1 = Some (cs, err, bd, g2)"
    and e: "e = Inr True"
    using run be r by (auto simp: putObject_def no split: sum.splits if_splits option.splits)
  have err: "err = None"
    using run be r up e by (cases err) (auto simp: putObject_def upload_failed_def no split: if_splits)
  note up = up [unfolded err]
  obtain sz where sz: "validateDecodedSize r (ct_n bd) h = Inr sz"
    using run be r up e by (auto simp: putObject_def validateDecodedSize_def no Let_def split: sum.splits if_splits prod.splits)
  obtain old g3 where q: "query_or [] (GetObjectChunks b k) g2 = (old, g3)" by (metis surj_pair)
  define obj where "obj = \<lparr>ob_bucket = b, ob_key = k, ob_size = sz, ob_etag = body_etag E bd,
      ob_ctype = content_type r, ob_created = zero_time, ob_updated = zero_time, ob_meta = captureObjectMetadata (rq_header r)\<rparr>"
  obtain p g4 where put: "on_db (PutObject now obj (toMetaChunks cs)) g3 = (p, g4)" by (metis surj_pair)
  have p: "p = Inr ()" and g': "g' = reapSupersededChunks E old g4"
    using run be r up e sz q put by (auto simp: putObject_def no obj_def Let_def split: sum.splits)
  have "PutObject now obj (toMetaChunks cs) (gw_db g3) = (Inr (), gw_db g4)" "gw_be g4 = gw_be g3"
    using put p by (auto simp: on_db_def split: prod.splits)
  then show thesis using that g1 up q g' validateDecodedSize_got [OF sz] be e by (auto simp: obj_def)
qed

text \<open>Committing an upload: the chunk map is written, then the superseded version is deleted at the hosts.\<close>

lemma commit_stores:
  assumes E: "env_uploads E" "env_hosts blob issued E" and g: "wf (gw_db g1)" "db_issued issued g1"
    and body: "body_ok data bd0" "src_rest (te_r (ct_r bd0)) = data" and "ct_n bd0 = 0"
    and up: "backend_upload E k async bd0 g1 = Some (cs, None, bd, g2)"
    and q: "query_or [] (GetObjectChunks b k) g2 = (old, g3)"
    and put: "PutObject now obj (toMetaChunks cs) (gw_db g3) = (Inr (), gw_db g4)" "gw_be g4 = gw_be g3"
    and obj: "ob_bucket obj = b" "ob_key obj = k" "ob_size obj = ct_n bd" "ob_etag obj = body_etag E bd"
    and g': "g' = reapSupersededChunks E old g4"
  obtains v where "lookup (tabs (gw_db g')) (b, k) = Some v" and "o_size (st_row v) = int (length data)"
    and "o_etag (st_row v) = hex_encode (ev_md5 E data)"
    and "laid_out 0 0 (st_chunks v)" and "stores blob (bs_world (gw_be g')) (st_chunks v) data"
    and "src_fin (te_r (ct_r bd0)) = ErrEOF \<or> src_fin (te_r (ct_r bd0)) = ErrUnexpectedEOF"
proof -
  have g2: "gw_db g2 = gw_db g1" by (rule backend_upload_frame [OF up])
  have g3: "tabs (gw_db g3) = tabs (gw_db g1)" "gw_be g3 = gw_be g2"
    and old: "old = [] \<or> (\<exists>d. GetObjectChunks b k (gw_db g2) = (Inr old, d))"
    using q keepsD [OF same.chunk_reads(1), of "gw_db g2" "tabs (gw_db g1)" b k] g2
    by (auto simp: query_or_def on_db_def split: prod.splits sum.splits)
  have lay: "laid_out 0 0 (toMetaChunks cs)"
    using backend_upload_laid_out [OF up] uploads_env_ok [OF E(1)] \<open>ct_n bd0 = 0\<close> by (auto simp: env_ok_def)
  note up_stores = backend_upload_stores [OF E body up]
  have lk: "lookup (tabs (gw_db g')) (b, k) = Some (stored_of (stamp now obj) (toMetaChunks cs) (tabs (gw_db g3)))"
    using lookup_put [OF _ laid_out_ascending [OF lay], of "tabs (gw_db g3)" "stamp now obj"] PutObject_effect [OF put(1)] g(1) g3(1) obj
    by (simp add: g')
  have given: "(mr_provider q, mr_locator q) \<in> issued (bs_world (gw_be g1))" if "c \<in> set old" "q \<in> set (mc_replicas c)" for c q
    using that old GetObjectChunks_value [of b k "gw_db g2" old] read_chunks_locs [of c "tabs (gw_db g1)" b k q] g g2
    by (auto simp: db_issued_def)
  have kept: "holds blob (bs_world (gw_be g')) d rep"
    if "holds blob (bs_world (gw_be g2)) d rep" "loc_of rep \<notin> issued (bs_world (gw_be g1))" for d rep
    unfolding g' using that given put(2) g3(2) by (intro reap_spares [OF E(2)]) (simp, metis)
  obtain ps where ps: "concat ps = data" and all: "list_all2 (\<lambda>c p. ch_size c = int (length p) \<and> ch_replicas c \<noteq> [] \<and>
      (\<forall>rep \<in> set (ch_replicas c). holds blob (bs_world (gw_be g2)) p rep \<and> loc_of rep \<in> issued (bs_world (gw_be g2)) - issued (bs_world (gw_be g1)))) cs ps"
    using up_stores(4) by blast
  from all have "list_all2 (\<lambda>c p. ch_size c = int (length p) \<and> ch_replicas c \<noteq> [] \<and>
      (\<forall>rep \<in> set (ch_replicas c). holds blob (bs_world (gw_be g')) p rep)) cs ps"
    by (rule list_all2_mono) (use kept in blast)
  from stored_meta [of ps data blob "bs_world (gw_be g')" cs, OF ps this] lk that lay up_stores(1,2,6) obj show thesis
    by (simp add: stored_of_def upserted_row_def body_etag_def)
qed

lemma putObject_stores:
  assumes E: "env_uploads E" "env_hosts blob issued E" and g: "wf (gw_db g)" "db_issued issued g"
    and r: "hdr r ''X-Amz-Copy-Source'' = []"
    and body: "body_ok data (decodeUpload r)" "src_rest (te_r (ct_r (decodeUpload r))) = data"
    and run: "putObject E now r b k h g = Some (resp, g')" "rs_status resp = 200"
  obtains v where "lookup (tabs (gw_db g')) (b, k) = Some v" and "o_size (st_row v) = int (length data)"
    and "o_etag (st_row v) = hex_encode (ev_md5 E data)"
    and "laid_out 0 0 (st_chunks v)" and "stores blob (bs_world (gw_be g')) (st_chunks v) data"
    and "src_fin (te_r (ct_r (decodeUpload r))) = ErrEOF \<or> src_fin (te_r (ct_r (decodeUpload r))) = ErrUnexpectedEOF"
proof -
  obtain g1 cs bd g2 old g3 obj g4 where g1: "tabs (gw_db g1) = tabs (gw_db g)" "gw_be g1 = gw_be g"
    and up: "backend_upload E k True (decodeUpload r) g1 = Some (cs, None, bd, g2)"
    and q: "query_or [] (GetObjectChunks b k) g2 = (old, g3)"
    and put: "PutObject now obj (toMetaChunks cs) (gw_db g3) = (Inr (), gw_db g4)" "gw_be g4 = gw_be g3"
    and obj: "ob_bucket obj = b" "ob_key obj = k" "ob_size obj = ct_n bd" "ob_etag obj = body_etag E bd"
    and g': "g' = reapSupersededChunks E old g4"
    by (rule putObject_run [OF r run])
  have "wf (gw_db g1)" "db_issued issued g1" using g g1 by (simp_all add: db_issued_def)
  from commit_stores [OF E this body _ up q put obj g'] that show thesis by simp blast
qed

text \<open>An overwrite deletes what the superseded version had at the hosts.\<close>

lemma fold_delete_gone:
  assumes "\<And>n l tok w n' l'. blob (snd (h_delete H n l tok w)) n' l' = (if (n', l') = (n, l) then None else blob w n' l')"
    and "rep \<in> set reps \<or> blob w (rp_provider rep) (rp_locator rep) = None"
  shows "blob (fold (delete_call H) reps w) (rp_provider rep) (rp_locator rep) = None"
  using assms(2) by (induction reps arbitrary: w) (auto simp: delete_call_def assms(1))

lemma reap_gone:
  assumes "\<And>n l tok w n' l'. blob (snd (h_delete (ev_hosts E) n l tok w)) n' l' = (if (n', l') = (n, l) then None else blob w n' l')"
    and "c \<in> set old" and "q \<in> set (mc_replicas c)" and "pool_get (bs_pool (gw_be g)) (mr_provider q) \<noteq> None"
  shows "blob (bs_world (gw_be (reapSupersededChunks E old g))) (mr_provider q) (mr_locator q) = None"
proof -
  let ?reps = "filter (enabled (bs_pool (gw_be g))) (concat (map cr_replicas (chunkRefs old)))"
  have "storage_replica q \<in> set ?reps"
    using assms(2-4) by (auto simp: chunkRefs_def metaChunkRef_def storageReplicas_set enabled_def storage_replica_def)
  with fold_delete_gone [OF assms(1), of "storage_replica q" ?reps "bs_world (gw_be g)"] assms(2)
  show ?thesis
    by (auto simp: reapSupersededChunks_def delete_refs_def Let_def DeleteBatch_def delete_batch_loop_world chunkRefs_def storage_replica_def)
qed

section \<open>The get\<close>

text \<open>The bytes of a response, and the error that cut them short.\<close>

fun sent :: "rbody \<Rightarrow> bytes \<times> goerr option" where
  "sent (BStream bs e) = (bs, e)"
| "sent _ = ([], None)"

lemma parseByteRange_bounds:
  assumes "parseByteRange s sz = (rng, True, isr)" and "0 \<le> sz"
  shows "0 \<le> hr_start rng \<and> hr_start rng \<le> hr_end rng \<and> hr_end rng < sz"
  using assms unfolding parseByteRange_def Let_def
  by (auto split: if_splits option.splits prod.splits)

text \<open>The window a get asks for: that of its range when the status says so, the whole object otherwise.\<close>

definition asked :: "request \<Rightarrow> int \<Rightarrow> bytes \<Rightarrow> bytes" where
  "asked r status data =
     (if status = 206
      then (case parseByteRange (hdr r ''Range'') (int (length data)) of
              (rng, _) \<Rightarrow> window (hr_start rng) (hr_end rng + 1) data)
      else data)"

lemma streamObject_sent:
  assumes "env_reads blob E" and "laid_out 0 0 mcs" and "stores blob (bs_world (gw_be g)) mcs data"
    and "ob_size obj = int (length data)" and "streamObject E obj mcs rng st hdrs h g = (resp, g')"
    and "planRead obj mcs rng = (locs, start, en)" and "0 \<le> start" and "en \<le> int (length data)" and "st \<noteq> 502"
  shows "rs_status resp = 502 \<or> rs_status resp = st \<and>
    (case sent (rs_body resp) of (bs, e) \<Rightarrow> prefix bs (window start en data) \<and> (e = None \<longrightarrow> bs = window start en data))"
proof (cases "start \<ge> en")
  case True
  with assms(5,6) show ?thesis by (auto simp: streamObject_def writeHeader_def window_def)
next
  case False
  have locs: "locs = locs_of mcs" using assms(6) by (auto simp: planRead_def Let_def split: option.splits)
  show ?thesis
  proof (cases "ev_read E (object_source E obj locs) start en (gw_be g)")
    case (Pair x s')
    then show ?thesis
      using assms(5,6) False read_stored [OF assms(1-4) assms(7) _ assms(8), of _ _ s'] locs
      by (cases x) (auto simp: streamObject_def on_be_def writeError_def writeXML_def)
  qed
qed

lemma getObject_sent:
  assumes "env_reads blob E" and "nofault (gw_db g)" and "wf (gw_db g)" and "lookup (tabs (gw_db g)) (b, k) = Some v"
    and "laid_out 0 0 (st_chunks v)" and "stores blob (bs_world (gw_be g)) (st_chunks v) data"
    and "o_size (st_row v) = int (length data)" and "getObject E r b k h g = (resp, g')"
  shows "rs_status resp \<in> {200, 206, 304, 412, 416, 502} \<and>
    (rs_status resp \<in> {200, 206} \<longrightarrow>
       (case sent (rs_body resp) of (bs, e) \<Rightarrow> prefix bs (asked r (rs_status resp) data) \<and>
          (e = None \<longrightarrow> bs = asked r (rs_status resp) data)))"
proof -
  let ?obj = "object_of_row (st_row v)"
  have sz: "ob_size ?obj = int (length data)" using assms(7) by (simp add: object_of_row_def)
  have cs: "read_chunks (tabs (gw_db g)) b k = st_chunks v" using assms(4) by (auto simp: lookup_def split: list.splits)
  have q: "on_db (GetObject b k) g = (Inr ?obj, g)" "on_db (GetObjectChunks b k) g = (Inr (st_chunks v), g)"
    "on_db (GetObjectMetadata b k) g = (Inr (read_meta (tabs (gw_db g)) b k), g)"
    using assms(2-4) cs by (simp_all add: on_db_def GetObject_lookup GetObjectChunks_read GetObjectMetadata_read)
  obtain rng sat isr where pr: "(if hdr r ''Range'' \<noteq> [] \<and> ifRangeAllows (ev_parseTime E) r ?obj
      then parseByteRange (hdr r ''Range'') (ob_size ?obj) else (\<lparr>hr_start = 0, hr_end = 0\<rparr>, False, False)) = (rng, sat, isr)"
    by (metis prod_cases3)
  let ?st = "conditionalStatus (ev_parseTime E) r ?obj"
  let ?use = "isr \<and> sat"
  let ?rng = "if ?use then Some rng else None" and ?code = "if ?use then 206 else 200 :: int"
  have st: "?st \<in> {0, 304, 412}" by (simp add: conditionalStatus_def Let_def)
  consider "?st \<noteq> 0" | "?st = 0" "isr" "\<not> sat"
    | hdrs where "?st = 0" "streamObject E ?obj (st_chunks v) ?rng ?code hdrs h g = (resp, g')"
    using assms(8) unfolding getObject_def q Let_def sum.case prod.case pr by (cases "?st \<noteq> 0"; cases isr; cases sat) simp_all
  then show ?thesis
  proof cases
    case 1
    with assms(8) st show ?thesis
      by (auto simp: getObject_def q Let_def writeConditional_def writeHeader_def writeError_def writeXML_def)
  next
    case 2
    with assms(8) pr show ?thesis by (auto simp: getObject_def q Let_def writeError_def writeXML_def)
  next
    case (3 hdrs)
    obtain locs start en where plan: "planRead ?obj (st_chunks v) ?rng = (locs, start, en)" by (metis prod_cases3)
    have range: "0 \<le> hr_start rng \<and> hr_start rng \<le> hr_end rng \<and> hr_end rng < int (length data)" if "?use"
      using pr that parseByteRange_bounds [of _ "ob_size ?obj" rng isr] sz by (auto split: if_splits)
    have bounds: "0 \<le> start" "en \<le> int (length data)" and win: "window start en data = asked r ?code data"
      using plan sz range pr by (auto simp: planRead_def asked_def split: if_splits)
    have "?code \<noteq> 502" by simp
    from streamObject_sent [OF assms(1,5,6) sz 3(2) plan bounds this] win show ?thesis by (auto split: if_splits)
  qed
qed

section \<open>The concrete environment meets the contracts\<close>

definition list_issued :: "store_world \<Rightarrow> (string \<times> string) set" where
  "list_issued w = {(n, l). \<exists>i < fst w. l = new_locator i}"

lemma new_locator_eq [simp]: "new_locator i = new_locator j \<longleftrightarrow> i = j"
  by (metis length_replicate new_locator_def)

lemma map_of_filter_other: "y \<noteq> x \<Longrightarrow> map_of (filter (\<lambda>(k, _). k \<noteq> x) xs) y = map_of xs y"
  by (induction xs) auto

lemma list_fresh: "fresh_hosts list_hosts list_blob list_issued"
  by (auto simp: fresh_hosts_def list_hosts_def list_blob_def list_issued_def less_Suc_eq map_of_filter_other)

text \<open>A fetch is a run of \<^verbatim>\<open>DownloadRangeBytes\<close> without hedging: the first replica answers, or the caller gives up.\<close>

lemma list_fetch_run: "hedged_run list_hosts list_blob p w ref off len (list_fetch p w ref off len)"
proof (cases "filter (\<lambda>rep. pool_get p (rp_provider rep) \<noteq> None) (cr_replicas ref)")
  case Nil
  then show ?thesis unfolding hedged_run_def DownloadRangeBytes_start_def list_fetch_def Let_def by simp
next
  case (Cons rep reps)
  let ?ans = "answers list_hosts (\<lambda>w'. list_blob w' = list_blob w) off len"
  define s0 where "s0 = \<lparr>hr_cands = rep # reps, hr_next = 1, hr_inflight = 1, hr_running = [rep], hr_chan = [],
      hr_armed = False, hr_lastErr = None, hr_result = None, hr_log = []\<rparr>"
  have start: "DownloadRangeBytes_start 0 p ref = Inr s0"
    unfolding DownloadRangeBytes_start_def Cons Let_def by (simp add: armHedge_def hr_launch_def s0_def)
  have fetch: "list_fetch p w ref off len = (case list_blob w (rp_provider rep) (rp_locator rep) of
      None \<Rightarrow> Inl ErrCtx | Some d \<Rightarrow> Inr (range_of off len d))"
    unfolding list_fetch_def Cons by simp
  have "\<exists>s. hr_reach ?ans 0 s0 s \<and> hr_result s = Some (list_fetch p w ref off len)"
  proof (cases "list_blob w (rp_provider rep) (rp_locator rep)")
    case None
    have "hr_step ?ans 0 s0 (s0\<lparr>hr_result := Some (Inl ErrCtx)\<rparr>)"
      by (rule hr_step.cancelled) (simp_all add: s0_def)
    then have "hr_reach ?ans 0 s0 (s0\<lparr>hr_result := Some (Inl ErrCtx)\<rparr>)" by (rule r_into_rtranclp)
    moreover have "hr_result (s0\<lparr>hr_result := Some (Inl ErrCtx)\<rparr>) = Some (list_fetch p w ref off len)" by (simp add: fetch None)
    ultimately show ?thesis by blast
  next
    case (Some d)
    let ?r = "(rep, Inr (range_of off len d) :: goerr + bytes)"
    let ?s1 = "s0\<lparr>hr_running := [], hr_chan := [?r]\<rparr>"
    have "fst (readReplicaBytes list_hosts (rp_provider rep) (rp_locator rep) off len w) = Inr (range_of off len d)"
      using Some by (simp add: readReplicaBytes_def bindE_def list_hosts_def list_blob_def limit_reader_def range_of_def ReadAll_def)
    then have "?ans rep (Inr (range_of off len d))" unfolding answers_def by (intro exI [of _ w] conjI) simp_all
    then have "hr_step ?ans 0 s0 ?s1"
      using reported [of s0 "[]" rep "[]" ?ans "Inr (range_of off len d)" 0] by (simp add: s0_def)
    moreover have "hr_step ?ans 0 ?s1 (hr_receive 0 ?r (?s1\<lparr>hr_chan := []\<rparr>))"
      by (rule received) (simp_all add: s0_def)
    ultimately have "hr_reach ?ans 0 s0 (hr_receive 0 ?r (?s1\<lparr>hr_chan := []\<rparr>))" by (meson converse_rtranclp_into_rtranclp r_into_rtranclp)
    moreover have "hr_result (hr_receive 0 ?r (?s1\<lparr>hr_chan := []\<rparr>)) = Some (list_fetch p w ref off len)"
      by (simp add: fetch Some hr_receive_def)
    ultimately show ?thesis by blast
  qed
  with start show ?thesis unfolding hedged_run_def by (intro exI [of _ 0]) simp
qed

lemma list_env_hedged: "env_hedged list_blob list_env"
  unfolding env_hedged_def
proof (intro allI impI)
  fix src start en s bs e s' assume run: "ev_read list_env src start en s = (Inr (bs, e), s')"
  let ?r0 = "NewReader (ChunkSize src) start en 2 1" and ?f = "Chunk (list_fetch (bs_pool s) (bs_world s)) src"
  have hosts: "ev_hosts list_env = list_hosts" by (simp add: list_env_def)
  have "rd_reach (hedged_chunk list_hosts list_blob (bs_pool s) (bs_world s) src) ?r0 ((sched ?f ^^ 24) ?r0)"
    by (rule sched_reach_pow) (auto simp: hedged_chunk_def intro: list_fetch_run)
  moreover have "bs = rd_got ((sched ?f ^^ 24) ?r0) \<and> (case e of
      None \<Rightarrow> rd_err ((sched ?f ^^ 24) ?r0) = Some ErrEOF \<and> \<not> rd_cancelled ((sched ?f ^^ 24) ?r0) | Some x \<Rightarrow> x = ErrCtx)"
    using run by (auto simp: list_env_def list_read_def Let_def split: if_splits)
  ultimately show "\<exists>conc outs r. rd_reach (hedged_chunk (ev_hosts list_env) list_blob (bs_pool s) (bs_world s) src)
        (NewReader (ChunkSize src) start en conc outs) r \<and>
      rd_got r = bs \<and> (case e of None \<Rightarrow> rd_err r = Some ErrEOF \<and> \<not> rd_cancelled r
        | Some x \<Rightarrow> x = ErrCtx \<or> (x \<noteq> ErrEOF \<and> rd_err r = Some x))"
    unfolding hosts by (intro exI [of _ 2] exI [of _ 1] exI [of _ "(sched ?f ^^ 24) ?r0"]) (auto split: option.splits)
qed

section \<open>Properties\<close>


definition hello_source :: backend_source where
  "hello_source = \<lparr>so_objSize = 5, so_locs =
     [\<lparr>cl_ref = \<lparr>cr_size = 4, cr_replicas = [\<lparr>rp_provider = ''p'', rp_locator = [], rp_token = []\<rparr>]\<rparr>, cl_offset = 0, cl_size = 4\<rparr>,
      \<lparr>cl_ref = \<lparr>cr_size = 1, cr_replicas = [\<lparr>rp_provider = ''p'', rp_locator = ''x'', rp_token = []\<rparr>]\<rparr>, cl_offset = 4, cl_size = 1\<rparr>],
     so_chunkSize = 4\<rparr>"

lemma hello_fetches:
  assumes "pool_get p ''p'' \<noteq> None"
  shows "Chunk (list_fetch p hello_world) hello_source 0 4 = Inr ''hell''"
    and "Chunk (list_fetch p hello_world) hello_source 4 4 = Inr ''o''"
proof -
  have one: "pool_get one_provider ''p'' \<noteq> None" by code_simp
  have "list_fetch p hello_world (cl_ref l) off len = list_fetch one_provider hello_world (cl_ref l) off len"
    if "l \<in> set (so_locs hello_source)" for l off len
    using that assms one by (auto simp: hello_source_def list_fetch_def)
  then have "Chunk (list_fetch p hello_world) hello_source off lim = Chunk (list_fetch one_provider hello_world) hello_source off lim" for off lim
    by (rule Chunk_cong)
  moreover have "Chunk (list_fetch one_provider hello_world) hello_source 0 4 = Inr ''hell''" by code_simp
  moreover have "Chunk (list_fetch one_provider hello_world) hello_source 4 4 = Inr ''o''" by code_simp
  ultimately show "Chunk (list_fetch p hello_world) hello_source 0 4 = Inr ''hell''"
    and "Chunk (list_fetch p hello_world) hello_source 4 4 = Inr ''o''" by simp_all
qed

lemma hello_read:
  assumes "bs_world s = hello_world" and "pool_get (bs_pool s) ''p'' \<noteq> None"
  shows "fst (list_read hello_source 0 5 s) = Inr (''hello'', None)"
proof -
  have c: "ChunkSize hello_source 0 5 = 4" by (simp add: ChunkSize_def halve_loop.simps hello_source_def Let_def)
  have r0: "NewReader (ChunkSize hello_source) 0 5 2 1 = \<lparr>rd_chunkSize = 4, rd_start = 0, rd_end = 5, rd_alignedStart = 0, rd_nChunks = 2,
      rd_outCap = 1, rd_idx = 0, rd_idle = 2, rd_fetching = [], rd_results = (\<lambda>_. None), rd_di = 0, rd_pending = None,
      rd_closedOut = False, rd_out = [], rd_cur = None, rd_err = None, rd_cancelled = False, rd_got = []\<rparr>"
    by (simp add: NewReader_def c Let_def)
  show ?thesis
    by (simp add: list_read_def assms(1) eval_nat_numeral r0 sched_def rd_publish_def chunk_off_def hello_fetches [OF assms(2)] fetched_def
        rd_take_def trim_def rd_send_def rd_pull_def rd_copy_def isEmpty_def buf_bytes_def advance_def Let_def)
qed

lemma hello_get:
  assumes "nofault (gw_db g)" and "wf (gw_db g)" and v: "lookup (tabs (gw_db g)) (''b'', ''k'') = Some v"
    "st_chunks v = toMetaChunks hello_chunks" "o_size (st_row v) = 5" and w: "bs_world (gw_be g) = hello_world"
    "pool_get (bs_pool (gw_be g)) ''p'' \<noteq> None" and E: "ev_read E = list_read" "ev_streamChunk E = 4"
    and run: "getObject E get_hello ''b'' ''k'' h g = (resp, g')"
  shows "rs_status resp = 200" and "snd (sent (rs_body resp)) = None"
proof -
  let ?obj = "object_of_row (st_row v)"
  have cs: "read_chunks (tabs (gw_db g)) ''b'' ''k'' = toMetaChunks hello_chunks"
    using v(1,2) by (auto simp: lookup_def split: list.splits)
  have q: "on_db (GetObject ''b'' ''k'') g = (Inr ?obj, g)"
    "on_db (GetObjectChunks ''b'' ''k'') g = (Inr (toMetaChunks hello_chunks), g)"
    "on_db (GetObjectMetadata ''b'' ''k'') g = (Inr (read_meta (tabs (gw_db g)) ''b'' ''k''), g)"
    using assms(1,2) v(1) cs by (simp_all add: on_db_def GetObject_lookup GetObjectChunks_read GetObjectMetadata_read)
  have sz: "ob_size ?obj = 5" using v(3) by (simp add: object_of_row_def)
  have st: "conditionalStatus (ev_parseTime E) get_hello ?obj = 0"
    by (simp add: conditionalStatus_def header_absent header_none_match)
  have src: "object_source E ?obj (locs_of (toMetaChunks hello_chunks)) = hello_source"
    unfolding object_source_def sz
    by (simp add: hello_source_def E(2) hello_chunks_def toMetaChunks_def metaChunkRef_def
        storageReplicas_def storage_replica_def)
  obtain hdrs where "streamObject E ?obj (toMetaChunks hello_chunks) None 200 hdrs h g = (resp, g')"
    using run unfolding getObject_def q Let_def sum.case prod.case st by (simp add: header_absent)
  then show "rs_status resp = 200" and "snd (sent (rs_body resp)) = None"
    using hello_read [OF w] unfolding streamObject_def planRead_def
    by (auto simp: sz src E(1) on_be_def split: prod.splits sum.splits)
qed

lemma hello_requests: "object_request list_env ''PUT'' ''b'' ''k'' put_hello" "object_request list_env ''GET'' ''b'' ''k'' get_hello"
  by (simp_all add: object_request_def request_paths values_get_def)


lemma reap_pool [simp]: "bs_pool (gw_be (reapSupersededChunks E old g)) = bs_pool (gw_be g)"
  by (simp add: reapSupersededChunks_def delete_refs_def Let_def)


text \<open>A put on a database that does not fail, when its upload does not, is answered 200.\<close>

lemma putObject_succeeds:
  assumes "nofault (gw_db g)" and "wf (gw_db g)" and "b \<in> b_name ` set (t_buckets (tabs (gw_db g)))"
    and "hdr r ''X-Amz-Copy-Source'' = []" and "backend_upload E k True (decodeUpload r) g = Some (cs, None, bd, g2)"
    and "validateDecodedSize r (ct_n bd) h = Inr sz" and "distinct (map mc_seq (toMetaChunks cs))"
  shows "\<exists>resp g'. putObject E now r b k h g = Some (resp, g') \<and> rs_status resp = 200"
proof -
  have g2: "gw_db g2 = gw_db g" by (rule backend_upload_frame [OF assms(5)])
  define obj where "obj = \<lparr>ob_bucket = b, ob_key = k, ob_size = sz, ob_etag = body_etag E bd,
      ob_ctype = content_type r, ob_created = zero_time, ob_updated = zero_time, ob_meta = captureObjectMetadata (rq_header r)\<rparr>"
  have "PutObject now obj (toMetaChunks cs) (gw_db g2) = (Inr (), (gw_db g2)\<lparr>tabs := put_tables (stamp now obj) (toMetaChunks cs) (tabs (gw_db g2))\<rparr>)"
    using assms(1-3,7) by (intro PutObject_nofault) (simp_all add: g2 obj_def captured_keys)
  then show ?thesis
    using assms by (simp add: putObject_def on_db_def query_or_def GetObjectChunks_read g2 obj_def Let_def)
      (simp add: writeHeader_def)
qed

definition hello_gateway :: "store_world gw" where
  "hello_gateway = \<lparr>gw_db = \<lparr>tabs = hello_tables, faults = []\<rparr>, gw_be = \<lparr>bs_pool = one_provider, bs_world = hello_world\<rparr>\<rparr>"

lemma backend_upload_gw: "gw_be g = gw_be g0 \<Longrightarrow> backend_upload E k a b g =
    map_option (\<lambda>(cs, e, b', g2). (cs, e, b', g\<lparr>gw_be := gw_be g2\<rparr>)) (backend_upload E k a b g0)"
  by (simp add: backend_upload_def split: option.splits prod.splits)

lemma list_delete_gone:
  "list_blob (snd (h_delete list_hosts n l tok w)) n' l' = (if (n', l') = (n, l) then None else list_blob w n' l')"
proof -
  have "map_of (filter (\<lambda>(k, _). k \<noteq> x) xs) x = None" for x and xs :: "((string \<times> string) \<times> bytes) list"
    by (induction xs) auto
  then show ?thesis by (simp add: list_hosts_def list_blob_def map_of_filter_other)
qed

lemma hello_again:
  "map_option (\<lambda>(cs, e, b, g). (map ch_seq cs, e, ct_n b, pool_get (bs_pool (gw_be g)) ''p'')) (backend_upload list_env ''k'' True
      (hashed_body (SrcPlain \<lparr>sg_segs = [''hel'', ''lo''], sg_fin = ErrEOF\<rparr>))
      (bucket_gateway\<lparr>gw_be := \<lparr>bs_pool = one_provider, bs_world = hello_world\<rparr>\<rparr>)) =
    Some ([0, 1], None, 5, Some \<lparr>pv_name = ''p'', pv_max = 100, pv_durable = True\<rparr>)"
  by code_simp


end
