(* ===== verification/PartStore.thy ===== *)
theory PartStore
  imports StoreLayout
begin

text \<open>
  The parts of a multipart upload in the metadata store: what \<open>PutMultipartPart\<close> stored of a part,
  \<open>GetMultipartPartChunks\<close> reads back, and no other part changes.
\<close>

section \<open>The stored value of a part\<close>

definition read_preplicas :: "tables \<Rightarrow> string \<Rightarrow> int \<Rightarrow> int \<Rightarrow> mreplica list" where
  "read_preplicas t u n s = map preplica_of_row (sort_key pr_idx
     (filter (\<lambda>q. pr_upload q = u \<and> pr_part q = n \<and> pr_seq q = s) (t_preplicas t)))"

definition read_part :: "tables \<Rightarrow> string \<Rightarrow> int \<Rightarrow> mchunk list" where
  "read_part t u n =
     map (\<lambda>r. (pchunk_of_row r)\<lparr>mc_replicas := read_preplicas t u n (pc_seq r)\<rparr>)
       (sort_key pc_seq (filter (\<lambda>r. pc_upload r = u \<and> pc_part r = n) (t_pchunks t)))"

lemma filter_seq_preplicas:
  "filter (\<lambda>q. pr_seq q = s) (sort_key (\<lambda>r. (pr_seq r, pr_idx r))
      (filter (\<lambda>r. pr_upload r = u \<and> pr_part r = n) rows)) =
   sort_key pr_idx (filter (\<lambda>q. pr_upload q = u \<and> pr_part q = n \<and> pr_seq q = s) rows)"
proof -
  have "filter (\<lambda>q. pr_seq q = s) (filter (\<lambda>r. pr_upload r = u \<and> pr_part r = n) rows) =
      filter (\<lambda>q. pr_upload q = u \<and> pr_part q = n \<and> pr_seq q = s) rows"
    by (simp add: conj_ac cong: filter_cong)
  then show ?thesis
    unfolding filter_sort by simp (rule sort_key_cong, auto)
qed

lemma distinct_pchunk_seqs:
  assumes "uniq pk_pchunk (t_pchunks t)"
  shows "distinct (map pc_seq (sort_key pc_seq (filter (\<lambda>r. pc_upload r = u \<and> pc_part r = n) (t_pchunks t))))"
proof -
  let ?rows = "filter (\<lambda>r. pc_upload r = u \<and> pc_part r = n) (t_pchunks t)"
  have "distinct (map pk_pchunk ?rows)" using assms by (simp add: uniq_def distinct_map_filter)
  then have "distinct ?rows" and "inj_on pk_pchunk (set ?rows)" by (simp_all add: distinct_map)
  then show ?thesis by (auto simp: distinct_map inj_on_def pk_pchunk_def)
qed

lemma GetMultipartPartChunks_value:
  assumes "GetMultipartPartChunks u n d = (Inr cs, d')" and "wf d"
  shows "cs = read_part (tabs d) u n" and "tabs d' = tabs d"
proof -
  let ?rows = "sort_key pc_seq (filter (\<lambda>r. pc_upload r = u \<and> pc_part r = n) (t_pchunks (tabs d)))"
  obtain cs0 idx where sc: "scan_rows pc_seq pchunk_of_row ?rows [] Map.empty = (cs0, idx)" by (metis surj_pair)
  have cs0: "cs0 = map pchunk_of_row ?rows"
    using scan_rows_fst [of pc_seq pchunk_of_row ?rows "[]" Map.empty] sc by simp
  have "distinct (map pc_seq ?rows)" using assms(2) by (intro distinct_pchunk_seqs) (simp add: wf_tables_def)
  note att = scan_attach [OF this _ sc, of pr_seq preplica_of_row, simplified pchunk_of_row_def, simplified,
      folded pchunk_of_row_def]
  have "cs = read_part (tabs d) u n \<and> tabs d' = tabs d"
  proof (cases "?rows = []")
    case True
    with assms(1) sc cs0 show ?thesis unfolding GetMultipartPartChunks_def
      by (auto elim!: bindE_InrE dest!: query_InrD simp: retE_def read_part_def)
  next
    case False
    then have "cs0 \<noteq> []" by (simp add: cs0)
    with assms(1) sc show ?thesis unfolding GetMultipartPartChunks_def
      by (auto elim!: bindE_InrE dest!: query_InrD simp: retE_def att read_part_def read_preplicas_def
          filter_seq_preplicas pchunk_of_row_def)
  qed
  then show "cs = read_part (tabs d) u n" and "tabs d' = tabs d" by simp_all
qed

section \<open>Storing a part\<close>

definition part_chunk_rows :: "string \<Rightarrow> int \<Rightarrow> mchunk list \<Rightarrow> pchunk_row list" where
  "part_chunk_rows u n chunks =
     map (\<lambda>c. \<lparr>pc_upload = u, pc_part = n, pc_seq = mc_seq c, pc_size = mc_size c\<rparr>) chunks"

definition seq_preplica_rows :: "string \<Rightarrow> int \<Rightarrow> int \<Rightarrow> mreplica list \<Rightarrow> preplica_row list" where
  "seq_preplica_rows u n s reps = map (\<lambda>(i, r). preplica_row_of u n s (int i) r) (enumerate 0 reps)"

definition part_replica_rows :: "string \<Rightarrow> int \<Rightarrow> mchunk list \<Rightarrow> preplica_row list" where
  "part_replica_rows u n chunks = concat (map (\<lambda>c. seq_preplica_rows u n (mc_seq c) (mc_replicas c)) chunks)"

lemma insert_preplicas_effect:
  assumes "forE (\<lambda>(i, r). insert_preplica (g i r)) xs d = (Inr y, d')"
  shows "tabs d' = (tabs d)\<lparr>t_preplicas := t_preplicas (tabs d) @ map (\<lambda>(i, r). g i r) xs\<rparr>"
  using assms
proof (induction xs arbitrary: d)
  case (Cons x xs)
  obtain i r where x: "x = (i, r)" by (cases x)
  from Cons.prems obtain z d1 where one: "insert_preplica (g i r) d = (Inr z, d1)"
    and rest: "forE (\<lambda>(i, r). insert_preplica (g i r)) xs d1 = (Inr y, d')"
    unfolding x by (auto elim: thenE_InrE)
  from one have "tabs d1 = (tabs d)\<lparr>t_preplicas := t_preplicas (tabs d) @ [g i r]\<rparr>"
    unfolding insert_preplica_def
    by (auto dest!: stmt_InrD simp: insert_row_def split: option.splits if_splits)
  with Cons.IH [OF rest] x show ?case by simp
qed (simp add: retE_def)

lemma insert_pchunk_effect:
  "insert_pchunk r d = (Inr y, d') \<Longrightarrow> tabs d' = (tabs d)\<lparr>t_pchunks := t_pchunks (tabs d) @ [r]\<rparr>"
  unfolding insert_pchunk_def by (auto dest!: stmt_InrD simp: insert_row_def split: option.splits if_splits)

lemma insert_part_effect:
  assumes "forE (\<lambda>c. thenE
             (insert_pchunk \<lparr>pc_upload = u, pc_part = n, pc_seq = mc_seq c, pc_size = mc_size c\<rparr>)
             (forE (\<lambda>(i, r). insert_preplica (preplica_row_of u n (mc_seq c) (int i) r)) (enumerate 0 (mc_replicas c))))
           chunks d = (Inr y, d')"
  shows "tabs d' = (tabs d)\<lparr>t_pchunks := t_pchunks (tabs d) @ part_chunk_rows u n chunks,
    t_preplicas := t_preplicas (tabs d) @ part_replica_rows u n chunks\<rparr>"
  using assms
  by (induction chunks arbitrary: d)
     (auto elim!: thenE_InrE dest!: insert_pchunk_effect insert_preplicas_effect
           simp: part_chunk_rows_def part_replica_rows_def seq_preplica_rows_def retE_def)

definition upsert_part_rows :: "part_row \<Rightarrow> part_row list \<Rightarrow> part_row list" where
  "upsert_part_rows p rows =
     (let here = (\<lambda>r. p_upload r = p_upload p \<and> p_num r = p_num p) in
      if \<exists>r \<in> set rows. here r then update_rows here (\<lambda>r. r\<lparr>p_etag := p_etag p, p_size := p_size p\<rparr>) rows
      else rows @ [p])"

definition part_tables :: "string \<Rightarrow> int \<Rightarrow> string \<Rightarrow> int \<Rightarrow> mchunk list \<Rightarrow> tables \<Rightarrow> tables" where
  "part_tables u n etag sz chunks t = t\<lparr>
     t_parts := upsert_part_rows \<lparr>p_upload = u, p_num = n, p_etag = etag, p_size = sz\<rparr> (t_parts t),
     t_pchunks := delete_rows (\<lambda>r. pc_upload r = u \<and> pc_part r = n) (t_pchunks t) @ part_chunk_rows u n chunks,
     t_preplicas := delete_rows (\<lambda>r. pr_upload r = u \<and> pr_part r = n) (t_preplicas t) @ part_replica_rows u n chunks\<rparr>"

lemma PutMultipartPart_effect:
  assumes "PutMultipartPart u n etag sz chunks d = (Inr (), d')"
  shows "tabs d' = part_tables u n etag sz chunks (tabs d)"
proof -
  have up: "tabs d1 = (tabs d0)\<lparr>t_parts := upsert_part_rows p (t_parts (tabs d0))\<rparr>" if "upsert_part p d0 = (Inr y, d1)" for p d0 y d1
    using that unfolding upsert_part_def by (auto dest!: exec_InrD simp: Let_def upsert_part_rows_def)
  show ?thesis
    using assms unfolding PutMultipartPart_def delete_preplicas_def delete_pchunks_def
    by (auto elim!: tx_InrE thenE_InrE dest!: up exec_InrD insert_part_effect simp: retE_def part_tables_def)
qed

section \<open>Reading it back\<close>

text \<open>A part keeps neither offsets, which completion assigns, nor the health of its replicas.\<close>

definition part_chunk :: "mchunk \<Rightarrow> mchunk" where
  "part_chunk c = c\<lparr>mc_offset := 0, mc_replicas := map (\<lambda>r. r\<lparr>mr_alive := True\<rparr>) (mc_replicas c)\<rparr>"

lemma seq_preplica_rows_key:
  "q \<in> set (seq_preplica_rows u n s reps) \<Longrightarrow> pr_upload q = u \<and> pr_part q = n \<and> pr_seq q = s"
  by (auto simp: seq_preplica_rows_def preplica_row_of_def)

lemma seq_preplica_rows_sorted: "sorted (map pr_idx (seq_preplica_rows u n s reps))"
proof -
  have "map pr_idx (seq_preplica_rows u n s reps) = map int [0..<length reps]"
    by (rule nth_equalityI) (simp_all add: seq_preplica_rows_def preplica_row_of_def nth_enumerate_eq)
  then show ?thesis by (simp add: sorted_map sorted_wrt_upt mono_def)
qed

lemma seq_preplica_rows_back:
  "map preplica_of_row (seq_preplica_rows u n s reps) = map (\<lambda>r. r\<lparr>mr_alive := True\<rparr>) reps"
  by (rule nth_equalityI)
     (simp_all add: seq_preplica_rows_def preplica_row_of_def preplica_of_row_def nth_enumerate_eq)

lemma filter_part_replica_rows:
  assumes "distinct (map mc_seq chunks)" and "c \<in> set chunks"
  shows "filter (\<lambda>q. pr_upload q = u \<and> pr_part q = n \<and> pr_seq q = mc_seq c) (part_replica_rows u n chunks) =
    seq_preplica_rows u n (mc_seq c) (mc_replicas c)"
  using assms
proof (induction chunks)
  case (Cons x xs)
  let ?P = "\<lambda>q. pr_upload q = u \<and> pr_part q = n \<and> pr_seq q = mc_seq c"
  let ?f = "\<lambda>c. seq_preplica_rows u n (mc_seq c) (mc_replicas c)"
  have none: "filter ?P (?f y) = []" if "mc_seq y \<noteq> mc_seq c" for y
    using that by (auto simp: filter_empty_conv dest!: seq_preplica_rows_key)
  have all: "filter ?P (?f c) = ?f c" by (rule filter_True) (auto dest!: seq_preplica_rows_key)
  show ?case
  proof (cases "x = c")
    case True
    with Cons.prems have "\<forall>y \<in> set xs. mc_seq y \<noteq> mc_seq c" by (auto simp: image_iff)
    then have "filter ?P (part_replica_rows u n xs) = []"
      by (auto simp: part_replica_rows_def filter_empty_conv dest!: seq_preplica_rows_key)
    with True all show ?thesis by (simp add: part_replica_rows_def)
  next
    case False
    with Cons.prems have "mc_seq x \<noteq> mc_seq c" and "c \<in> set xs" by auto
    with Cons none show ?thesis by (simp add: part_replica_rows_def)
  qed
qed simp

lemma read_part_put:
  assumes "ascending chunks"
  shows "read_part (part_tables u n etag sz chunks t) u n = map part_chunk chunks"
proof -
  have dist: "distinct (map mc_seq chunks)" using assms by (simp add: sorted_wrt_less_distinct)
  have rows: "filter (\<lambda>r. pc_upload r = u \<and> pc_part r = n) (t_pchunks (part_tables u n etag sz chunks t)) = part_chunk_rows u n chunks"
  proof -
    have "filter (\<lambda>r. pc_upload r = u \<and> pc_part r = n) (part_chunk_rows u n chunks) = part_chunk_rows u n chunks"
      by (rule filter_True) (auto simp: part_chunk_rows_def)
    then show ?thesis by (simp add: part_tables_def)
  qed
  have reps: "read_preplicas (part_tables u n etag sz chunks t) u n (mc_seq c) = map (\<lambda>r. r\<lparr>mr_alive := True\<rparr>) (mc_replicas c)"
    if "c \<in> set chunks" for c
  proof -
    have "filter (\<lambda>q. pr_upload q = u \<and> pr_part q = n \<and> pr_seq q = mc_seq c) (t_preplicas (part_tables u n etag sz chunks t)) =
        seq_preplica_rows u n (mc_seq c) (mc_replicas c)"
      using dist that by (simp add: part_tables_def filter_part_replica_rows filter_delete_rows)
    then show ?thesis by (simp add: read_preplicas_def sort_key_id seq_preplica_rows_sorted seq_preplica_rows_back)
  qed
  have "map pc_seq (part_chunk_rows u n chunks) = map mc_seq chunks" by (simp add: part_chunk_rows_def)
  then have "sort_key pc_seq (part_chunk_rows u n chunks) = part_chunk_rows u n chunks"
    using assms by (intro sort_key_id) (simp add: sorted_wrt_less_distinct)
  with rows reps show ?thesis
    by (simp add: read_part_def) (simp add: part_chunk_rows_def pchunk_of_row_def part_chunk_def)
qed

lemma read_part_other:
  assumes "(u', n') \<noteq> (u, n)"
  shows "read_part (part_tables u n etag sz chunks t) u' n' = read_part t u' n'"
proof -
  have "filter (\<lambda>r. pc_upload r = u' \<and> pc_part r = n') (t_pchunks (part_tables u n etag sz chunks t)) =
      filter (\<lambda>r. pc_upload r = u' \<and> pc_part r = n') (t_pchunks t)"
    using assms by (auto simp: part_tables_def part_chunk_rows_def delete_rows_def filter_empty_conv intro!: filter_cong)
  moreover have "filter (\<lambda>q. pr_upload q = u' \<and> pr_part q = n' \<and> pr_seq q = s) (t_preplicas (part_tables u n etag sz chunks t)) =
      filter (\<lambda>q. pr_upload q = u' \<and> pr_part q = n' \<and> pr_seq q = s) (t_preplicas t)" for s
  proof -
    have "filter (\<lambda>q. pr_upload q = u' \<and> pr_part q = n' \<and> pr_seq q = s) (part_replica_rows u n chunks) = []"
      using assms by (auto simp: part_replica_rows_def filter_empty_conv dest!: seq_preplica_rows_key)
    then show ?thesis using assms by (auto simp: part_tables_def delete_rows_def intro!: filter_cong)
  qed
  ultimately show ?thesis by (simp add: read_part_def read_preplicas_def)
qed

end
