(* ===== verification/MultipartRoundTrip.thy ===== *)
theory MultipartRoundTrip
  imports PutGet PartStore
begin

text \<open>
  Multipart uploads end to end: what the parts carried, the completed object returns. Each part that was
  answered 200 is stored, apart from all other parts and objects; completion strings the stored parts
  together in the order of the request, and a get of the object then returns their concatenation.
\<close>

section \<open>Chunk lists\<close>

text \<open>The locators of a list of chunks.\<close>

definition locs :: "mchunk list \<Rightarrow> (string \<times> string) set" where
  "locs cs = (\<Union>c \<in> set cs. set (map (loc_of \<circ> storage_replica) (mc_replicas c)))"

definition same_blobs :: "mchunk \<Rightarrow> mchunk \<Rightarrow> bool" where
  "same_blobs c c' \<longleftrightarrow> mc_size c' = mc_size c \<and> map storage_replica (mc_replicas c') = map storage_replica (mc_replicas c)"

lemma locs_mem: "c \<in> set cs \<Longrightarrow> q \<in> set (mc_replicas c) \<Longrightarrow> (mr_provider q, mr_locator q) \<in> locs cs"
  by (force simp: locs_def loc_of_def storage_replica_def)

lemma locs_append [simp]: "locs (cs @ cs') = locs cs \<union> locs cs'"
  by (auto simp: locs_def)

lemma locs_same:
  assumes "list_all2 same_blobs cs cs'"
  shows "locs cs' = locs cs"
  using assms
proof (induction rule: list_all2_induct)
  case (Cons c cs c' cs')
  then have "map (loc_of \<circ> storage_replica) (mc_replicas c') = map (loc_of \<circ> storage_replica) (mc_replicas c)"
    by (metis list.map_comp same_blobs_def)
  with Cons show ?case by (simp only: locs_def list.set UN_insert)
qed simp

lemma stores_append:
  assumes "stores blob w cs d" and "stores blob w cs' d'"
  shows "stores blob w (cs @ cs') (d @ d')"
proof -
  let ?P = "\<lambda>c p. mc_size c = int (length p) \<and> mc_replicas c \<noteq> [] \<and> (\<forall>q \<in> set (mc_replicas c). holds blob w p (storage_replica q))"
  obtain ps ps' where "concat ps = d" "list_all2 ?P cs ps" "concat ps' = d'" "list_all2 ?P cs' ps'"
    using assms by (auto simp: stores_def)
  then have "concat (ps @ ps') = d @ d' \<and> list_all2 ?P (cs @ cs') (ps @ ps')" by (simp add: list_all2_appendI)
  then show ?thesis unfolding stores_def by blast
qed

lemma stores_same:
  assumes "list_all2 same_blobs cs cs'" and "stores blob w cs d"
  shows "stores blob w cs' d"
proof -
  let ?P = "\<lambda>c p. mc_size c = int (length p) \<and> mc_replicas c \<noteq> [] \<and> (\<forall>q \<in> set (mc_replicas c). holds blob w p (storage_replica q))"
  obtain ps where ps: "concat ps = d" and all: "list_all2 ?P cs ps" using assms(2) by (auto simp: stores_def)
  have one: "?P c' p" if "same_blobs c c'" "?P c p" for c c' p
  proof -
    have reps: "map storage_replica (mc_replicas c') = map storage_replica (mc_replicas c)" and "mc_size c' = mc_size c"
      using that(1) by (simp_all add: same_blobs_def)
    moreover have "mc_replicas c' \<noteq> []" using that(2) reps by (metis map_is_Nil_conv)
    moreover have "holds blob w p (storage_replica q)" if "q \<in> set (mc_replicas c')" for q
    proof -
      have "storage_replica q \<in> set (map storage_replica (mc_replicas c))" using that unfolding reps [symmetric] by simp
      with \<open>?P c p\<close> show ?thesis by auto
    qed
    ultimately show ?thesis using that(2) by metis
  qed
  have len: "length cs' = length cs" "length ps = length cs" 
    using list_all2_lengthD [OF assms(1)] list_all2_lengthD [OF all] by simp_all
  have "list_all2 ?P cs' ps"
    by (rule list_all2_all_nthI, simp add: len) (rule one [OF list_all2_nthD [OF assms(1)] list_all2_nthD [OF all]], simp_all add: len)
  with ps show ?thesis unfolding stores_def by blast
qed

text \<open>Blobs that stay where they are keep what is stored.\<close>

lemma stores_spared:
  assumes "stores blob w cs d" and "\<And>d rep. loc_of rep \<in> locs cs \<Longrightarrow> holds blob w d rep \<Longrightarrow> holds blob w' d rep"
  shows "stores blob w' cs d"
proof -
  obtain ps where ps: "concat ps = d" and all: "list_all2 (\<lambda>c p. mc_size c = int (length p) \<and> mc_replicas c \<noteq> [] \<and>
      (\<forall>q \<in> set (mc_replicas c). holds blob w p (storage_replica q))) cs ps"
    using assms(1) by (auto simp: stores_def)
  have loc: "loc_of (storage_replica q) \<in> locs cs" if "c \<in> set cs" "q \<in> set (mc_replicas c)" for c q
    using locs_mem [OF that] by (simp add: loc_of_def storage_replica_def)
  have "list_all2 (\<lambda>c p. mc_size c = int (length p) \<and> mc_replicas c \<noteq> [] \<and>
      (\<forall>q \<in> set (mc_replicas c). holds blob w' p (storage_replica q))) cs ps"
    using all by (auto simp: list_all2_conv_all_nth intro!: assms(2) loc)
  with ps show ?thesis by (auto simp: stores_def)
qed

lemma part_chunk_same: "list_all2 same_blobs cs (map part_chunk cs)"
  by (simp add: list.rel_map same_blobs_def part_chunk_def storage_replica_def list_all2_refl)

lemma append_part_chunks:
  "\<exists>cs'. snd (snd (append_part cs (seq, tot, final))) = final @ cs' \<and> list_all2 same_blobs cs cs'"
proof (induction cs arbitrary: seq tot final)
  case (Cons c cs)
  let ?c = "\<lparr>mc_seq = seq, mc_size = mc_size c, mc_offset = tot, mc_replicas = mc_replicas c\<rparr>"
  obtain cs' where "snd (snd (append_part cs (seq + 1, tot + mc_size c, final @ [?c]))) = (final @ [?c]) @ cs'"
    "list_all2 same_blobs cs cs'" using Cons by blast
  moreover have "same_blobs c ?c" by (simp add: same_blobs_def)
  ultimately show ?case by (intro exI [of _ "?c # cs'"]) simp
qed simp

section \<open>Uploading a part\<close>

text \<open>
  The locators in the database were given out by the hosts, those of a part to that part only and not
  to an object.
\<close>

definition parts_apart :: "('w \<Rightarrow> (string \<times> string) set) \<Rightarrow> 'w gw \<Rightarrow> bool" where
  "parts_apart issued g \<longleftrightarrow>
     (let t = tabs (gw_db g); w = bs_world (gw_be g) in
      (\<forall>b k. locs (read_chunks t b k) \<subseteq> issued w) \<and> (\<forall>u n. locs (read_part t u n) \<subseteq> issued w) \<and>
      (\<forall>u n u' n'. (u, n) \<noteq> (u', n') \<longrightarrow> locs (read_part t u n) \<inter> locs (read_part t u' n') = {}) \<and>
      (\<forall>b k u n. locs (read_chunks t b k) \<inter> locs (read_part t u n) = {}))"

definition upload_request :: "'w env \<Rightarrow> string \<Rightarrow> string \<Rightarrow> string \<Rightarrow> string \<Rightarrow> request \<Rightarrow> bool" where
  "upload_request E m b k u r \<longleftrightarrow> rq_method r = m \<and> rq_path r \<noteq> ''/healthz'' \<and>
     splitBucketKey (ev_auth E) r = (b, k) \<and> b \<noteq> [] \<and> k \<noteq> [] \<and> u \<noteq> [] \<and> values_get (rq_query r) ''uploadId'' = u \<and>
     \<not> values_has (rq_query r) ''uploads''"

lemma Atoi_Nil: "Atoi [] \<noteq> (n, None)"
proof -
  have "Atoi [] = (0, Some ErrSyntax)" by code_simp
  then show ?thesis by simp
qed

lemma serve_part:
  assumes "upload_request E ''PUT'' b k u r" and "values_get (rq_query r) ''partNumber'' = ns" and "ns \<noteq> []"
    and "ServeHTTP E now rnd rid r g = Some (resp, g')" and "rs_status resp = 200"
  obtains h where "uploadPart E now r b k u ns h g = Some (resp, g')"
proof -
  have "rs_status (writeError 403 c m h) \<noteq> 200" for c m h by (simp add: writeError_def writeXML_def)
  with assms that show ?thesis
    by (auto simp: upload_request_def ServeHTTP_def route_def Let_def split: if_splits)
qed

lemma resolveUpload_frame:
  assumes "resolveUpload E b k u h g = (r, g')"
  shows "tabs (gw_db g') = tabs (gw_db g)" and "gw_be g' = gw_be g"
    and "r = Inl resp \<Longrightarrow> rs_status resp \<noteq> 200"
proof -
  obtain q d where q: "GetMultipartUpload u (gw_db g) = (q, d)" by (metis surj_pair)
  have "tabs d = tabs (gw_db g)"
    using keepsD [OF same.row_reads(2), of "gw_db g" "tabs (gw_db g)" u] q by simp
  then show "tabs (gw_db g') = tabs (gw_db g)" "gw_be g' = gw_be g"
    using assms q by (auto simp: resolveUpload_def on_db_def split: sum.splits)
  show "rs_status resp \<noteq> 200" if "r = Inl resp"
    using assms q that
    by (auto simp: resolveUpload_def on_db_def writeError_def writeXML_def split: sum.splits if_splits)
qed

text \<open>The run of a part upload that is answered 200, call by call.\<close>

lemma uploadPart_run:
  assumes r: "hdr r ''X-Amz-Copy-Source'' = []" and n: "Atoi ns = (n, None)"
    and run: "uploadPart E now r b k u ns h g = Some (resp, g')" "rs_status resp = 200"
  obtains g1 cs bd g2 old g3 g4 where "tabs (gw_db g1) = tabs (gw_db g)" and "gw_be g1 = gw_be g"
    and "backend_upload E k False (decodeUpload r) g1 = Some (cs, None, bd, g2)"
    and "query_or [] (GetMultipartPartChunks u n) g2 = (old, g3)"
    and "PutMultipartPart u n (body_etag E bd) (ct_n bd) (toMetaChunks cs) (gw_db g3) = (Inr (), gw_db g4)" and "gw_be g4 = gw_be g3"
    and "g' = reapSupersededChunks E old g4"
proof -
  have no: "rs_status (writeError st c m h) = st" for st c m h by (simp add: writeError_def writeXML_def)
  obtain res g1 where res: "resolveUpload E b k u h g = (res, g1)" by (metis surj_pair)
  note frame = resolveUpload_frame [OF res]
  obtain up where up: "res = Inr up"
    using run n res frame(3) by (cases res) (auto simp: uploadPart_def no split: if_splits)
  obtain cs err bd g2 where b: "backend_upload E k False (decodeUpload r) g1 = Some (cs, err, bd, g2)"
    using run n res up r by (auto simp: uploadPart_def no split: if_splits option.splits)
  have err: "err = None"
    using run n res up r b by (cases err) (auto simp: uploadPart_def upload_failed_def no split: if_splits)
  obtain sz where sz: "validateDecodedSize r (ct_n bd) h = Inr sz"
    using run n res up r b err
    by (auto simp: uploadPart_def validateDecodedSize_def no Let_def split: sum.splits if_splits prod.splits)
  obtain old g3 where q: "query_or [] (GetMultipartPartChunks u n) g2 = (old, g3)" by (metis surj_pair)
  obtain p g4 where put: "on_db (PutMultipartPart u n (body_etag E bd) sz (toMetaChunks cs)) g3 = (p, g4)" by (metis surj_pair)
  have p: "p = Inr ()" and g': "g' = reapSupersededChunks E old g4"
    using run n res up r b err sz q put
    by (auto simp: uploadPart_def no Let_def split: sum.splits if_splits)
  have "PutMultipartPart u n (body_etag E bd) (ct_n bd) (toMetaChunks cs) (gw_db g3) = (Inr (), gw_db g4)" "gw_be g4 = gw_be g3"
    using put p validateDecodedSize_got [OF sz] by (auto simp: on_db_def split: prod.splits)
  then show thesis using that frame(1,2) b err q g' by blast
qed

lemma query_part:
  assumes "query_or [] (GetMultipartPartChunks u n) g = (old, g')" and "wf (gw_db g)"
  shows "tabs (gw_db g') = tabs (gw_db g)" and "gw_be g' = gw_be g" and "locs old \<subseteq> locs (read_part (tabs (gw_db g)) u n)"
proof -
  obtain q d where q: "GetMultipartPartChunks u n (gw_db g) = (q, d)" by (metis surj_pair)
  have "tabs d = tabs (gw_db g)"
    using keepsD [OF same.chunk_reads(2), of "gw_db g" "tabs (gw_db g)" u n] q by simp
  then show "tabs (gw_db g') = tabs (gw_db g)" "gw_be g' = gw_be g"
    using assms(1) q by (auto simp: query_or_def on_db_def split: sum.splits)
  have "old = [] \<or> q = Inr old" using assms(1) q by (auto simp: query_or_def on_db_def split: sum.splits)
  then show "locs old \<subseteq> locs (read_part (tabs (gw_db g)) u n)"
    using GetMultipartPartChunks_value(1) [OF _ assms(2)] q by (auto simp: locs_def)
qed

lemma reap_keeps:
  assumes "env_hosts blob issued E" and "stores blob (bs_world (gw_be g)) cs d" and "locs old \<inter> locs cs = {}"
  shows "stores blob (bs_world (gw_be (reapSupersededChunks E old g))) cs d"
proof (rule stores_spared [OF assms(2)])
  fix d rep assume "loc_of rep \<in> locs cs" and "holds blob (bs_world (gw_be g)) d rep"
  then show "holds blob (bs_world (gw_be (reapSupersededChunks E old g))) d rep"
    using assms(3) by (intro reap_spares [OF assms(1)]) (auto dest: locs_mem)
qed

lemma read_chunks_part [simp]: "read_chunks (part_tables u n etag sz chunks t) b k = read_chunks t b k"
  by (simp add: read_chunks_def read_replicas_def part_tables_def)

lemma toMeta_locs:
  assumes "list_all2 (\<lambda>c p. ch_size c = int (length p) \<and> ch_replicas c \<noteq> [] \<and>
      (\<forall>rep \<in> set (ch_replicas c). holds blob w p rep \<and> loc_of rep \<in> L)) cs ps"
  shows "locs (toMetaChunks cs) \<subseteq> L" and "stores blob w (toMetaChunks cs) (concat ps)"
proof -
  have "loc_of rep \<in> L" if "c \<in> set cs" "rep \<in> set (ch_replicas c)" for c rep
    using assms that by (induction rule: list_all2_induct) auto
  then show "locs (toMetaChunks cs) \<subseteq> L"
    by (auto simp: locs_def toMetaChunks_def storage_replica_def loc_of_def)
  show "stores blob w (toMetaChunks cs) (concat ps)"
    by (rule stored_meta [OF refl]) (use assms in \<open>auto elim: list_all2_mono\<close>)
qed

text \<open>What a part upload leaves: the tables, and where the blobs are.\<close>

lemma uploadPart_effect:
  assumes E: "env_uploads E" "env_hosts blob issued E" and g: "wf (gw_db g)" "parts_apart issued g"
    and r: "hdr r ''X-Amz-Copy-Source'' = []" "payload r = Some data" and n: "Atoi ns = (n, None)"
    and run: "uploadPart E now r b k u ns h g = Some (resp, g')" "rs_status resp = 200"
  obtains mcs old etag w2 g4 where "tabs (gw_db g') = part_tables u n etag (int (length data)) mcs (tabs (gw_db g))" and "ascending mcs"
    and "etag = hex_encode (ev_md5 E data)"
    and "stores blob w2 mcs data" and "locs mcs \<subseteq> issued w2 - issued (bs_world (gw_be g))"
    and "issued (bs_world (gw_be g)) \<subseteq> issued w2"
    and "\<And>rep d. loc_of rep \<in> issued (bs_world (gw_be g)) \<Longrightarrow> holds blob (bs_world (gw_be g)) d rep \<Longrightarrow> holds blob w2 d rep"
    and "locs old \<subseteq> locs (read_part (tabs (gw_db g)) u n)" and "bs_world (gw_be g4) = w2" and "g' = reapSupersededChunks E old g4"
proof -
  obtain g1 cs bd g2 old g3 g4 where g1: "tabs (gw_db g1) = tabs (gw_db g)" "gw_be g1 = gw_be g"
    and up: "backend_upload E k False (decodeUpload r) g1 = Some (cs, None, bd, g2)"
    and q: "query_or [] (GetMultipartPartChunks u n) g2 = (old, g3)"
    and put: "PutMultipartPart u n (body_etag E bd) (ct_n bd) (toMetaChunks cs) (gw_db g3) = (Inr (), gw_db g4)" "gw_be g4 = gw_be g3"
    and g': "g' = reapSupersededChunks E old g4"
    by (rule uploadPart_run [OF r(1) n run])
  have g2: "gw_db g2 = gw_db g1" by (rule backend_upload_frame [OF up])
  note q = query_part [OF q]
  have g3: "tabs (gw_db g3) = tabs (gw_db g)" "gw_be g3 = gw_be g2" "locs old \<subseteq> locs (read_part (tabs (gw_db g)) u n)"
    using q g(1) g1 g2 by simp_all
  have lay: "laid_out 0 0 (toMetaChunks cs)"
    using backend_upload_laid_out [OF up] uploads_env_ok [OF E(1)] by (auto simp: env_ok_def)
  note st = backend_upload_stores [OF E decoded_body [OF r(2)] up, unfolded g1]
  obtain ps where ps: "concat ps = data" and all: "list_all2 (\<lambda>c p. ch_size c = int (length p) \<and> ch_replicas c \<noteq> [] \<and>
      (\<forall>rep \<in> set (ch_replicas c). holds blob (bs_world (gw_be g2)) p rep \<and>
         loc_of rep \<in> issued (bs_world (gw_be g2)) - issued (bs_world (gw_be g)))) cs ps"
    using st(4) by blast
  note meta = toMeta_locs [of blob "bs_world (gw_be g2)" "issued (bs_world (gw_be g2)) - issued (bs_world (gw_be g))" cs ps, OF all]
  show thesis
  proof (rule that [of "hex_encode (ev_md5 E data)" "toMetaChunks cs" "bs_world (gw_be g2)" old g4])
    show "tabs (gw_db g') = part_tables u n (hex_encode (ev_md5 E data)) (int (length data)) (toMetaChunks cs) (tabs (gw_db g))"
      using PutMultipartPart_effect [OF put(1)] g3(1) st(1,2) by (simp add: g' body_etag_def)
    show "stores blob (bs_world (gw_be g2)) (toMetaChunks cs) data" using meta(2) ps by simp
  qed (use meta(1) laid_out_ascending [OF lay] st(3,5) g3 put(2) g' in simp_all)
qed

lemma uploadPart_stores:
  assumes E: "env_uploads E" "env_hosts blob issued E" and g: "wf (gw_db g)" "parts_apart issued g"
    and r: "hdr r ''X-Amz-Copy-Source'' = []" "payload r = Some data" and n: "Atoi ns = (n, None)"
    and run: "uploadPart E now r b k u ns h g = Some (resp, g')" "rs_status resp = 200"
  shows "stores blob (bs_world (gw_be g')) (read_part (tabs (gw_db g')) u n) data"
    and "\<forall>u' n' d. (u', n') \<noteq> (u, n) \<longrightarrow> stores blob (bs_world (gw_be g)) (read_part (tabs (gw_db g)) u' n') d \<longrightarrow>
      stores blob (bs_world (gw_be g')) (read_part (tabs (gw_db g')) u' n') d"
    and "parts_apart issued g'"
proof -
  let ?t = "tabs (gw_db g)" and ?w = "bs_world (gw_be g)"
  obtain mcs old etag w2 g4 where t': "tabs (gw_db g') = part_tables u n etag (int (length data)) mcs ?t" and asc: "ascending mcs"
    and st: "stores blob w2 mcs data" and new: "locs mcs \<subseteq> issued w2 - issued ?w" and mono: "issued ?w \<subseteq> issued w2"
    and keep: "\<And>rep d. loc_of rep \<in> issued ?w \<Longrightarrow> holds blob ?w d rep \<Longrightarrow> holds blob w2 d rep"
    and old: "locs old \<subseteq> locs (read_part ?t u n)" and w2: "bs_world (gw_be g4) = w2" and g': "g' = reapSupersededChunks E old g4"
    by (rule uploadPart_effect [OF assms]) blast
  have ap: "\<And>b k. locs (read_chunks ?t b k) \<subseteq> issued ?w" "\<And>u n. locs (read_part ?t u n) \<subseteq> issued ?w"
    "\<And>u n u' n'. (u, n) \<noteq> (u', n') \<Longrightarrow> locs (read_part ?t u n) \<inter> locs (read_part ?t u' n') = {}"
    "\<And>b k u n. locs (read_chunks ?t b k) \<inter> locs (read_part ?t u n) = {}"
    using g(2) unfolding parts_apart_def Let_def by blast+
  have here: "read_part (tabs (gw_db g')) u n = map part_chunk mcs" unfolding t' by (rule read_part_put [OF asc])
  have other: "read_part (tabs (gw_db g')) u' n' = read_part ?t u' n'" if "(u', n') \<noteq> (u, n)" for u' n'
    unfolding t' by (rule read_part_other [OF that])
  have lp: "locs (map part_chunk mcs) = locs mcs" by (rule locs_same [OF part_chunk_same])
  have iss: "issued w2 \<subseteq> issued (bs_world (gw_be g'))" using reap_issued [OF E(2), of g4 old] by (simp add: g' w2)
  have "stores blob (bs_world (gw_be g4)) (map part_chunk mcs) data" unfolding w2 by (rule stores_same [OF part_chunk_same st])
  moreover have "locs old \<inter> locs (map part_chunk mcs) = {}" using old new ap(2) [of u n] unfolding lp by blast
  ultimately show "stores blob (bs_world (gw_be g')) (read_part (tabs (gw_db g')) u n) data"
    unfolding here unfolding g' by (rule reap_keeps [OF E(2)])
  show "\<forall>u' n' d. (u', n') \<noteq> (u, n) \<longrightarrow> stores blob ?w (read_part ?t u' n') d \<longrightarrow>
      stores blob (bs_world (gw_be g')) (read_part (tabs (gw_db g')) u' n') d"
  proof (intro allI impI)
    fix u' n' d assume ne: "(u', n') \<noteq> (u, n)" and "stores blob ?w (read_part ?t u' n') d"
    then have "stores blob (bs_world (gw_be g4)) (read_part ?t u' n') d"
      unfolding w2 by (rule_tac stores_spared) (use keep ap(2) in blast)+
    moreover have "locs old \<inter> locs (read_part ?t u' n') = {}" using old ap(3) [OF ne] by blast
    ultimately show "stores blob (bs_world (gw_be g')) (read_part (tabs (gw_db g')) u' n') d"
      unfolding other [OF ne] unfolding g' by (rule reap_keeps [OF E(2)])
  qed
  have part: "locs (read_part (tabs (gw_db g')) u' n') = (if (u', n') = (u, n) then locs mcs else locs (read_part ?t u' n'))" for u' n'
    using here other lp by auto
  have objs: "read_chunks (tabs (gw_db g')) b k = read_chunks ?t b k" for b k by (simp add: t')
  have apart: "locs mcs \<inter> locs (read_part ?t u n) = {}" "locs mcs \<inter> locs (read_chunks ?t b k) = {}" for u n b k
    using new ap(1,2) by blast+
  show "parts_apart issued g'"
    unfolding parts_apart_def Let_def part objs
  proof (intro conjI allI impI)
    fix u1 n1 u2 n2 b k
    show "locs (read_chunks ?t b k) \<subseteq> issued (bs_world (gw_be g'))" using ap(1) mono iss by blast
    show "(if (u1, n1) = (u, n) then locs mcs else locs (read_part ?t u1 n1)) \<subseteq> issued (bs_world (gw_be g'))"
      using ap(2) [of u1 n1] new mono iss by (cases "(u1, n1) = (u, n)") auto
    show "locs (read_chunks ?t b k) \<inter> (if (u1, n1) = (u, n) then locs mcs else locs (read_part ?t u1 n1)) = {}"
      using ap(4) [of b k u1 n1] apart(2) [of b k] by (cases "(u1, n1) = (u, n)") auto
    assume "(u1, n1) \<noteq> (u2, n2)"
    then show "(if (u1, n1) = (u, n) then locs mcs else locs (read_part ?t u1 n1)) \<inter>
        (if (u2, n2) = (u, n) then locs mcs else locs (read_part ?t u2 n2)) = {}"
      using ap(3) [of u1 n1 u2 n2] apart(1) [of u1 n1] apart(1) [of u2 n2]
      by (cases "(u1, n1) = (u, n)"; cases "(u2, n2) = (u, n)") auto
  qed
qed

section \<open>Completing an upload\<close>

lemma serve_complete:
  assumes "upload_request E ''POST'' b k u r" and "ServeHTTP E now rnd rid r g = Some (resp, g')" and "rs_status resp = 200"
  obtains h where "completeMultipartUpload E now r b k u h g = (resp, g')"
proof -
  have "rs_status (writeError 403 c m h) \<noteq> 200" for c m h by (simp add: writeError_def writeXML_def)
  with assms that show ?thesis
    by (auto simp: upload_request_def ServeHTTP_def route_def Let_def split: if_splits)
qed

lemma complete_loop_stores:
  assumes "complete_loop u stored h parts prev md5s (seq, tot, final) g = (Inr (md5s', tot', final'), g')"
    and "wf (gw_db g)" and "\<forall>cp \<in> set parts. stores blob w (read_part (tabs (gw_db g)) u (cp_num cp)) (pdata (cp_num cp))"
    and "stores blob w final data"
  shows "stores blob w final' (data @ concat (map (\<lambda>cp. pdata (cp_num cp)) parts)) \<and>
    locs final' \<subseteq> locs final \<union> (\<Union>cp \<in> set parts. locs (read_part (tabs (gw_db g)) u (cp_num cp))) \<and>
    tabs (gw_db g') = tabs (gw_db g) \<and> gw_be g' = gw_be g"
  using assms
proof (induction parts arbitrary: prev md5s seq tot final data g)
  case (Cons cp parts)
  let ?cs = "read_part (tabs (gw_db g)) u (cp_num cp)"
  obtain prev' md5s1 cs d1 where q: "GetMultipartPartChunks u (cp_num cp) (gw_db g) = (Inr cs, d1)"
    and rest: "complete_loop u stored h parts prev' md5s1 (append_part cs (seq, tot, final)) (g\<lparr>gw_db := d1\<rparr>) = (Inr (md5s', tot', final'), g')"
    using Cons.prems(1) by (auto simp: on_db_def split: if_splits option.splits sum.splits prod.splits)
  note val = GetMultipartPartChunks_value [OF q Cons.prems(2)]
  obtain cs' where cs': "snd (snd (append_part cs (seq, tot, final))) = final @ cs'" and same: "list_all2 same_blobs cs cs'"
    using append_part_chunks by blast
  obtain seq1 tot1 where acc: "append_part cs (seq, tot, final) = (seq1, tot1, final @ cs')"
    using cs' by (metis prod.collapse)
  have "stores blob w cs' (pdata (cp_num cp))" using stores_same [OF same, of blob w] Cons.prems(3) val(1) by simp
  then have "stores blob w (final @ cs') (data @ pdata (cp_num cp))" by (rule stores_append [OF Cons.prems(4)])
  from Cons.IH [OF rest [unfolded acc] _ _ this] Cons.prems(2,3) val locs_same [OF same] show ?case by auto
qed simp

lemma complete_loop_status: "complete_loop u stored h parts prev md5s acc g = (Inl resp, g') \<Longrightarrow> rs_status resp \<noteq> 200"
proof (induction parts arbitrary: prev md5s acc g)
  case Nil
  then show ?case by (cases acc) simp
next
  case (Cons cp parts)
  then show ?case by (auto simp: writeError_def writeXML_def split: if_splits option.splits sum.splits prod.splits)
qed

lemma stores_span:
  assumes "stores blob w cs d"
  shows "span cs = int (length d)"
proof -
  obtain ps where ps: "concat ps = d" and all: "list_all2 (\<lambda>c p. mc_size c = int (length p) \<and> mc_replicas c \<noteq> [] \<and>
      (\<forall>q \<in> set (mc_replicas c). holds blob w p (storage_replica q))) cs ps"
    using assms by (auto simp: stores_def)
  from all have "map mc_size cs = map (int \<circ> length) ps" by (induction cs ps rule: list_all2_induct) simp_all
  then show ?thesis unfolding ps [symmetric] by (simp add: length_concat comp_def flip: sum_list_of_nat)
qed

text \<open>The run of a completion that is answered 200, call by call.\<close>

lemma complete_run:
  assumes "ev_xmlComplete E (rq_body r) = Some parts" and "completeMultipartUpload E now r b k u h g = (resp, g')"
    and "rs_status resp = 200"
  obtains g2 stored md5s tot final g3 old d5 g6 obj where "tabs (gw_db g2) = tabs (gw_db g)" and "gw_be g2 = gw_be g"
    and "complete_loop u stored h parts 0 [] (0, 0, []) g2 = (Inr (md5s, tot, final), g3)"
    and "tabs d5 = tabs (gw_db g3)"
    and "old = [] \<or> (\<exists>d d'. tabs d = tabs (gw_db g3) \<and> GetObjectChunks b k d = (Inr old, d'))"
    and "FinalizeMultipartUpload now obj final u d5 = (Inr (), gw_db g6)" and "gw_be g6 = gw_be g3"
    and "ob_bucket obj = b" and "ob_key obj = k" and "ob_size obj = tot" and "g' = reapSupersededChunks E old g6"
proof -
  have no: "rs_status (writeError st c m h) = st" for st c m h by (simp add: writeError_def writeXML_def)
  obtain res g1 where res: "resolveUpload E b k u h g = (res, g1)" by (metis surj_pair)
  note frame = resolveUpload_frame [OF res]
  obtain up where up: "res = Inr up"
    using assms(2,3) res frame(3) by (cases res) (auto simp: completeMultipartUpload_def)
  obtain l g2 where l: "on_db (ListMultipartParts u) g1 = (l, g2)" by (metis surj_pair)
  have g2: "tabs (gw_db g2) = tabs (gw_db g1)" "gw_be g2 = gw_be g1"
    using l keepsD [OF same.plain_reads(6), of "gw_db g1" "tabs (gw_db g1)" u] by (auto simp: on_db_def split: prod.splits)
  have parts: "parts \<noteq> []" using assms res up by (auto simp: completeMultipartUpload_def no)
  obtain stored where stored: "l = Inr stored"
    using assms res up l parts by (cases l) (auto simp: completeMultipartUpload_def no)
  let ?m = "map_of (map (\<lambda>p. (mp_num p, p)) (rev stored))"
  obtain c g3 where c: "complete_loop u ?m h parts 0 [] (0, 0, []) g2 = (c, g3)" by (metis surj_pair)
  have code: "rs_status x \<noteq> 200" if "c = Inl x" for x
    using c that complete_loop_status by blast
  obtain md5s tot final where acc: "c = Inr (md5s, tot, final)"
    using assms res up l parts stored c code by (cases c) (auto simp: completeMultipartUpload_def)
  obtain meta g4 where meta: "query_or [] (GetMultipartUploadMetadata u) g3 = (meta, g4)" by (metis surj_pair)
  obtain old g5 where old: "query_or [] (GetObjectChunks b k) g4 = (old, g5)" by (metis surj_pair)
  define obj where "obj = \<lparr>ob_bucket = b, ob_key = k, ob_size = tot,
      ob_etag = hex_encode (ev_md5 E md5s) @ ''-'' @ FormatInt (int (length parts)),
      ob_ctype = mu_ctype up, ob_created = zero_time, ob_updated = zero_time, ob_meta = meta\<rparr>"
  obtain f g6 where fin: "on_db (FinalizeMultipartUpload now obj final u) g5 = (f, g6)" by (metis surj_pair)
  have f: "f = Inr ()" and g': "g' = reapSupersededChunks E old g6"
    using assms res up l parts stored c acc meta old fin
    by (auto simp: completeMultipartUpload_def no obj_def Let_def split: sum.splits)
  note q4 = same_query [OF meta same.plain_reads(7)] and q5 = same_query [OF old same.chunk_reads(1)]
  have "old = [] \<or> (\<exists>d d'. tabs d = tabs (gw_db g3) \<and> GetObjectChunks b k d = (Inr old, d'))"
    using old q4(1) by (auto simp: query_or_def on_db_def split: prod.splits sum.splits)
  moreover have "FinalizeMultipartUpload now obj final u (gw_db g5) = (Inr (), gw_db g6)" "gw_be g6 = gw_be g3"
    using fin f q4(2) q5(2) by (auto simp: on_db_def split: prod.splits)
  moreover have "tabs (gw_db g2) = tabs (gw_db g)" "gw_be g2 = gw_be g" "tabs (gw_db g5) = tabs (gw_db g3)"
    using g2 frame(1,2) q4 q5 by simp_all
  moreover have "ob_bucket obj = b" "ob_key obj = k" "ob_size obj = tot" by (simp_all add: obj_def)
  ultimately show thesis by - (rule that [OF _ _ c [unfolded acc] _ _ _ _ _ _ _ g'], assumption+)
qed

text \<open>The completed object is the concatenation of the parts.\<close>

lemma complete_stores:
  assumes E: "env_hosts blob issued E" and g: "db_inv (gw_db g)" "parts_apart issued g"
    and parts: "ev_xmlComplete E (rq_body r) = Some parts"
      "\<forall>cp \<in> set parts. stores blob (bs_world (gw_be g)) (read_part (tabs (gw_db g)) u (cp_num cp)) (pdata (cp_num cp))"
    and run: "completeMultipartUpload E now r b k u h g = (resp, g')" "rs_status resp = 200"
    and data: "data = concat (map (\<lambda>cp. pdata (cp_num cp)) parts)"
  obtains v where "lookup (tabs (gw_db g')) (b, k) = Some v" and "o_size (st_row v) = int (length data)"
    and "laid_out 0 0 (st_chunks v)" and "stores blob (bs_world (gw_be g')) (st_chunks v) data"
proof -
  obtain g2 stored md5s tot final g3 old d5 g6 obj where g2: "tabs (gw_db g2) = tabs (gw_db g)" "gw_be g2 = gw_be g"
    and loop: "complete_loop u stored h parts 0 [] (0, 0, []) g2 = (Inr (md5s, tot, final), g3)"
    and d5: "tabs d5 = tabs (gw_db g3)"
    and old: "old = [] \<or> (\<exists>d d'. tabs d = tabs (gw_db g3) \<and> GetObjectChunks b k d = (Inr old, d'))"
    and fin: "FinalizeMultipartUpload now obj final u d5 = (Inr (), gw_db g6)" "gw_be g6 = gw_be g3"
    and obj: "ob_bucket obj = b" "ob_key obj = k" "ob_size obj = tot" and g': "g' = reapSupersededChunks E old g6"
    by (rule complete_run [OF parts(1) run])
  have wf: "wf (gw_db g)" and inv2: "db_inv (gw_db g2)" using g(1) g2(1) by (simp_all add: db_inv_def)
  have "stores blob (bs_world (gw_be g)) [] []" by (simp add: stores_def)
  from complete_loop_stores [OF loop, of blob "bs_world (gw_be g)" pdata "[]"] this wf parts(2) g2
  have st: "stores blob (bs_world (gw_be g)) final data" and g3: "tabs (gw_db g3) = tabs (gw_db g)" "gw_be g3 = gw_be g"
    and lf: "locs final \<subseteq> (\<Union>cp \<in> set parts. locs (read_part (tabs (gw_db g)) u (cp_num cp)))"
    by (auto simp: data locs_def)
  have "chunk_map_ok final tot" using layout.complete_loop_ends [OF loop _ inv2] by (simp add: acc_ok_def)
  then have lay: "laid_out 0 0 final" and tot: "tot = span final" by (simp_all add: chunk_map_ok_def)
  have "lookup (tabs (gw_db g')) = lookup (put_tables (stamp now obj) final (tabs (gw_db g)))"
    using FinalizeMultipartUpload_effect [OF fin(1)] d5 g3(1) by (simp add: g' lookup_drop_upload)
  moreover have "lookup (put_tables (stamp now obj) final (tabs (gw_db g))) (b, k) = Some (stored_of (stamp now obj) final (tabs (gw_db g)))"
    using lookup_put [OF wf laid_out_ascending [OF lay], of "stamp now obj"] obj by simp
  moreover have "span final = int (length data)" by (rule stores_span [OF st])
  moreover have "locs old \<inter> locs final = {}"
  proof -
    have "old = [] \<or> old = read_chunks (tabs (gw_db g)) b k"
      using old GetObjectChunks_value [of b k _ old] g3(1) wf by metis
    then have "locs old \<subseteq> locs (read_chunks (tabs (gw_db g)) b k)" by (auto simp: locs_def)
    moreover have "locs (read_chunks (tabs (gw_db g)) b k) \<inter> locs (read_part (tabs (gw_db g)) u n) = {}" for n
      using g(2) unfolding parts_apart_def Let_def by blast
    ultimately show ?thesis using lf by blast
  qed
  then have "stores blob (bs_world (gw_be g')) final data"
    unfolding g' by (intro reap_keeps [OF E]) (use st fin(2) g3(2) in simp_all)
  ultimately show thesis using that obj(3) tot lay by (simp add: stored_of_def upserted_row_def)
qed

section \<open>Properties\<close>



end
