(* ===== verification/MultipartExample.thy ===== *)
theory MultipartExample
  imports MultipartRoundTrip
begin

text \<open>
  A multipart upload of one part in the concrete environment: the part is uploaded, the upload is
  completed, and the object is read. The theorems of \<open>MultipartRoundTrip\<close> are applied to it.
\<close>

section \<open>The environment and the requests\<close>

definition mp_env :: "store_world env" where
  "mp_env = list_env\<lparr>ev_xmlComplete := (\<lambda>_. Some [\<lparr>cp_num = 1, cp_etag = hex_encode ''hello''\<rparr>])\<rparr>"

lemma mp_env_fields [simp]:
  "ev_hosts mp_env = list_hosts" "ev_auth mp_env = ev_auth list_env" "ev_crypto mp_env = one_signature"
  "ev_chunk mp_env = ev_chunk list_env" "ev_read mp_env = ev_read list_env" "ev_bcfg mp_env = ev_bcfg list_env"
  "ev_xmlComplete mp_env bd = Some [\<lparr>cp_num = 1, cp_etag = hex_encode ''hello''\<rparr>]" "ev_streamChunk mp_env = ev_streamChunk list_env"
  "ev_md5 mp_env = ev_md5 list_env" "ev_parseTime mp_env = ev_parseTime list_env"
  by (simp_all add: mp_env_def list_env_def)

lemma mp_contracts:
  "env_uploads mp_env" "env_hedged list_blob mp_env" "honest (ev_hosts mp_env) list_blob"
  "fresh_hosts (ev_hosts mp_env) list_blob list_issued"
proof -
  have "ev_hosts list_env = list_hosts" by (simp add: list_env_def)
  note fields = mp_env_fields this
  show "env_uploads mp_env" using list_env_uploads unfolding env_uploads_def fields .
  show "env_hedged list_blob mp_env" using list_env_hedged unfolding env_hedged_def fields .
qed (simp_all add: list_honest list_fresh)

definition part_query :: "(string \<times> string list) list" where
  "part_query = [(''uploadId'', [''u'']), (''partNumber'', [''1''])]"

abbreviation "put_part \<equiv> (signed_request ''PUT'' ''/b/k'' [''hel'', ''lo''])\<lparr>rq_query := part_query\<rparr>"
abbreviation "post_complete \<equiv> (signed_request ''POST'' ''/b/k'' [])\<lparr>rq_query := [(''uploadId'', [''u''])]\<rparr>"

lemma query_path: "splitBucketKey (ev_auth list_env) ((signed_request m ''/b/k'' segs)\<lparr>rq_query := qs\<rparr>) = (''b'', ''k'')"
  using request_paths(2) [of m segs] by (simp add: splitBucketKey_def list_env_def)

lemma mp_requests: "upload_request mp_env ''PUT'' ''b'' ''k'' ''u'' put_part" "upload_request mp_env ''POST'' ''b'' ''k'' ''u'' post_complete"
  "values_get (rq_query put_part) ''partNumber'' = ''1''" "Atoi ''1'' = (1, None)"
proof -
  show "Atoi ''1'' = (1, None)" by code_simp
qed (simp_all add: upload_request_def query_path part_query_def values_get_def values_has_def)

lemma mp_routed:
  assumes "m \<noteq> ''OPTIONS''" and "values_get qs ''X-Amz-Signature'' = []"
  shows "\<exists>h. ServeHTTP mp_env 0 rnd rid ((signed_request m ''/b/k'' segs)\<lparr>rq_query := qs\<rparr>) g =
    route mp_env 0 rnd ((signed_request m ''/b/k'' segs)\<lparr>rq_query := qs\<rparr>) ''b'' ''k'' h g"
  using assms signed_query_authorized [OF assms(2), of m "''/b/k''" segs] query_path [of qs m segs] by (auto simp: ServeHTTP_def Let_def)

section \<open>The part\<close>

definition mp_tables :: tables where
  "mp_tables = migrate\<lparr>t_buckets := [\<lparr>b_name = ''b'', b_created = 0\<rparr>],
     t_uploads := [\<lparr>u_id = ''u'', u_bucket = ''b'', u_key = ''k'', u_ctype = ''t'', u_created = 0\<rparr>]\<rparr>"

definition mp_gateway :: "store_world gw" where
  "mp_gateway = bucket_gateway\<lparr>gw_db := \<lparr>tabs = mp_tables, faults = []\<rparr>\<rparr>"

definition part_db :: db where
  "part_db = \<lparr>tabs = mp_tables\<lparr>
     t_parts := [\<lparr>p_upload = ''u'', p_num = 1, p_etag = hex_encode ''hello'', p_size = 5\<rparr>],
     t_pchunks := [\<lparr>pc_upload = ''u'', pc_part = 1, pc_seq = 0, pc_size = 4\<rparr>, \<lparr>pc_upload = ''u'', pc_part = 1, pc_seq = 1, pc_size = 1\<rparr>],
     t_preplicas := [\<lparr>pr_upload = ''u'', pr_part = 1, pr_seq = 0, pr_idx = 0, pr_provider = ''p'', pr_locator = [], pr_token = []\<rparr>,
       \<lparr>pr_upload = ''u'', pr_part = 1, pr_seq = 1, pr_idx = 0, pr_provider = ''p'', pr_locator = ''x'', pr_token = []\<rparr>]\<rparr>, faults = []\<rparr>"

lemmas statements = stmt_def exec_def tx_def thenE_def bindE_def insert_row_def delete_rows_def update_rows_def

lemma part_upload:
  "map_option (\<lambda>(cs, e, b, g). (cs, e, te_sum (ct_r b), ct_n b, bs_world (gw_be g), pool_get (bs_pool (gw_be g)) ''p'')) (backend_upload mp_env ''k'' False
      (hashed_body (SrcPlain \<lparr>sg_segs = [''hel'', ''lo''], sg_fin = ErrEOF\<rparr>)) mp_gateway) =
    Some (hello_chunks, None, ''hello'', 5, hello_world, Some \<lparr>pv_name = ''p'', pv_max = 100, pv_durable = True\<rparr>)"
proof -
  define bd where "bd = hashed_body (SrcPlain \<lparr>sg_segs = [''hel'', ''lo''], sg_fin = ErrEOF\<rparr>)"
  have "ev_chunk list_env ''k'' False = ev_chunk list_env ''k'' True" by (simp add: list_env_def list_chunk_def fun_eq_iff)
  then have same: "backend_upload mp_env ''k'' False b g = backend_upload list_env ''k'' True b g" for b g
    by (simp add: backend_upload_def)
  have be: "gw_be mp_gateway = gw_be bucket_gateway" by (simp add: mp_gateway_def)
  obtain b' g' where "backend_upload list_env ''k'' True bd bucket_gateway = Some (hello_chunks, None, b', g')"
    and "te_sum (ct_r b') = ''hello''" "ct_n b' = 5" "bs_world (gw_be g') = hello_world"
      "pool_get (bs_pool (gw_be g')) ''p'' = Some \<lparr>pv_name = ''p'', pv_max = 100, pv_durable = True\<rparr>"
    using hello_upload unfolding bd_def by (auto split: prod.splits)
  then show ?thesis
    unfolding bd_def [symmetric] same backend_upload_gw [OF be, of list_env] by simp
qed

lemma part_put: "PutMultipartPart ''u'' 1 (hex_encode ''hello'') 5 (toMetaChunks hello_chunks) (gw_db mp_gateway) = (Inr (), part_db)"
  unfolding PutMultipartPart_def
  by (simp add: statements upsert_part_def delete_preplicas_def delete_pchunks_def insert_pchunk_def insert_preplica_def preplica_row_of_def
      pk_pchunk_def pk_preplica_def mp_gateway_def part_db_def mp_tables_def migrate_def hello_chunks_def toMetaChunks_def)

lemma part_resolve: "GetMultipartUpload ''u'' (gw_db mp_gateway) =
    (Inr \<lparr>mu_id = ''u'', mu_bucket = ''b'', mu_key = ''k'', mu_ctype = ''t'', mu_created = 0\<rparr>, gw_db mp_gateway)"
  by code_simp

lemma part_old: "GetMultipartPartChunks ''u'' 1 (gw_db mp_gateway) = (Inr [], gw_db mp_gateway)"
  by code_simp

lemma run_put_part:
  "\<exists>resp g. ServeHTTP mp_env 0 [] [] put_part mp_gateway = Some (resp, g) \<and> rs_status resp = 200 \<and>
     gw_db g = part_db \<and> bs_world (gw_be g) = hello_world \<and> pool_get (bs_pool (gw_be g)) ''p'' \<noteq> None"
proof -
  have qs: "values_get part_query ''X-Amz-Signature'' = []" "values_get part_query ''uploadId'' = ''u''"
    "values_get part_query ''partNumber'' = ''1''"
    by (simp_all add: part_query_def values_get_def)
  obtain h where h: "ServeHTTP mp_env 0 [] [] put_part mp_gateway = route mp_env 0 [] put_part ''b'' ''k'' h mp_gateway"
    using mp_routed [of "''PUT''" part_query] qs(1) by fastforce
  have route: "route mp_env 0 [] put_part ''b'' ''k'' h mp_gateway = uploadPart mp_env 0 put_part ''b'' ''k'' ''u'' ''1'' h mp_gateway"
    by (simp add: route_def qs)
  have dec: "decodeUpload put_part = hashed_body (SrcPlain \<lparr>sg_segs = [''hel'', ''lo''], sg_fin = ErrEOF\<rparr>)"
    using request_not_chunked [of "''PUT''" "''/b/k''" "[''hel'', ''lo'']"] by (simp add: decodeUpload_def isAWSChunked_def)
  obtain b g1 where up: "backend_upload mp_env ''k'' False (decodeUpload put_part) mp_gateway = Some (hello_chunks, None, b, g1)"
    and b: "te_sum (ct_r b) = ''hello''" "ct_n b = 5" and w: "bs_world (gw_be g1) = hello_world" "pool_get (bs_pool (gw_be g1)) ''p'' \<noteq> None"
    using part_upload unfolding dec by (auto split: prod.splits)
  have g1: "gw_db g1 = gw_db mp_gateway" by (rule backend_upload_frame [OF up])
  have "resolveUpload mp_env ''b'' ''k'' ''u'' h mp_gateway =
      (Inr \<lparr>mu_id = ''u'', mu_bucket = ''b'', mu_key = ''k'', mu_ctype = ''t'', mu_created = 0\<rparr>, mp_gateway)"
    by (simp add: resolveUpload_def on_db_def part_resolve)
  moreover have "validateDecodedSize put_part (ct_n b) h = Inr 5"
    by (simp add: validateDecodedSize_def header_absent b)
  moreover have "body_etag mp_env b = hex_encode ''hello''" by (simp add: body_etag_def b list_env_def)
  moreover have "query_or [] (GetMultipartPartChunks ''u'' 1) g1 = ([], g1)"
    by (simp add: query_or_def on_db_def g1 part_old)
  ultimately show ?thesis
    using up part_put by (simp add: h route uploadPart_def mp_requests(4) on_db_def header_absent g1 Let_def)
      (use w in \<open>simp add: writeHeader_def reapSupersededChunks_def delete_refs_def chunkRefs_def\<close>)
qed

lemma mp_gateway_ok: "wf (gw_db mp_gateway)" "parts_apart list_issued mp_gateway"
proof -
  show "wf (gw_db mp_gateway)" by (simp add: mp_gateway_def mp_tables_def wf_tables_def migrate_def uniq_def)
  show "parts_apart list_issued mp_gateway"
    by (simp add: parts_apart_def Let_def mp_gateway_def mp_tables_def migrate_def read_chunks_def read_part_def locs_def)
qed

lemma put_part_body: "hdr put_part ''X-Amz-Copy-Source'' = []" "payload put_part = Some ''hello''"
  using request_not_chunked [of "''PUT''" "''/b/k''" "[''hel'', ''lo'']"]
  by (simp_all add: header_absent payload_def isAWSChunked_def)


section \<open>Completing the upload\<close>

definition mp_object :: object where
  "mp_object = \<lparr>ob_bucket = ''b'', ob_key = ''k'', ob_size = 5, ob_etag = hex_encode ''hello'' @ ''-1'', ob_ctype = ''t'',
     ob_created = zero_time, ob_updated = zero_time, ob_meta = []\<rparr>"

definition done_tables :: tables where
  "done_tables = drop_upload ''u'' (put_tables (stamp 0 mp_object) (toMetaChunks hello_chunks) (tabs part_db))"

lemma part_db_ok: "nofault part_db" "db_inv part_db"
proof -
  show "nofault part_db" by (simp add: part_db_def)
  have "db_inv (gw_db mp_gateway)"
    using mp_gateway_ok(1)
    by (simp add: db_inv_def layout_ok_def mp_gateway_def mp_tables_def migrate_def lookup_def live_rows_def)
  moreover have "sized (toMetaChunks hello_chunks)" by (simp add: sized_def toMetaChunks_def hello_chunks_def)
  ultimately show "db_inv part_db" using keepsD' [OF inv_PutMultipartPart _ part_put] by blast
qed

lemma part_reads:
  "GetMultipartUpload ''u'' part_db =
    (Inr \<lparr>mu_id = ''u'', mu_bucket = ''b'', mu_key = ''k'', mu_ctype = ''t'', mu_created = 0\<rparr>, part_db)"
  "ListMultipartParts ''u'' part_db = (Inr [\<lparr>mp_num = 1, mp_etag = hex_encode ''hello'', mp_size = 5\<rparr>], part_db)"
  "GetMultipartUploadMetadata ''u'' part_db = (Inr [], part_db)"
  "GetObjectChunks ''b'' ''k'' part_db = (Inr [], part_db)"
  by (simp_all add: part_db_def mp_tables_def migrate_def GetMultipartUpload_def ListMultipartParts_def part_of_row_def upload_of_row_def
      GetMultipartUploadMetadata_def GetObjectChunks_def bindE_def Let_def)

lemma part_chunks: "GetMultipartPartChunks ''u'' 1 part_db = (Inr (map part_chunk (toMetaChunks hello_chunks)), part_db)"
proof -
  have "\<exists>cs. GetMultipartPartChunks ''u'' 1 part_db = (Inr cs, part_db)"
    by (simp add: GetMultipartPartChunks_def bindE_def part_db_ok(1) case_prod_beta Let_def)
  then obtain cs where cs: "GetMultipartPartChunks ''u'' 1 part_db = (Inr cs, part_db)" by blast
  have "ascending (toMetaChunks hello_chunks)" by (simp add: toMetaChunks_def hello_chunks_def)
  from read_part_put [OF this] PutMultipartPart_effect [OF part_put]
  have "read_part (tabs part_db) ''u'' 1 = map part_chunk (toMetaChunks hello_chunks)" by simp
  with GetMultipartPartChunks_value(1) [OF cs] part_db_ok(2) cs show ?thesis by (simp add: db_inv_def)
qed

lemma mp_finalize: "FinalizeMultipartUpload 0 mp_object (toMetaChunks hello_chunks) ''u'' part_db = (Inr (), part_db\<lparr>tabs := done_tables\<rparr>)"
  unfolding done_tables_def using part_db_ok(2)
  by (intro FinalizeMultipartUpload_nofault [OF part_db_ok(1)])
     (simp_all add: db_inv_def mp_object_def part_db_def mp_tables_def toMetaChunks_def hello_chunks_def)

lemma hello_digest: "hex_decode (hex_encode ''hello'') = Some ''hello''" by code_simp

lemma hello_etag: "EqualFold (Trim (hex_encode ''hello'') [dquote]) (hex_encode ''hello'')"
proof -
  have "hex_encode ''hello'' = ''68656c6c6f''" by code_simp
  then show ?thesis by (simp add: EqualFold_def Trim_def TrimLeft_def TrimRight_def)
qed

lemma one_part: "FormatInt 1 = ''1''" by code_simp

lemma mp_loop:
  assumes "gw_db g = part_db"
  shows "complete_loop ''u'' [1 \<mapsto> \<lparr>mp_num = 1, mp_etag = hex_encode ''hello'', mp_size = 5\<rparr>] h
      [\<lparr>cp_num = 1, cp_etag = hex_encode ''hello''\<rparr>] 0 [] (0, 0, []) g = (Inr (''hello'', 5, toMetaChunks hello_chunks), g)"
proof -
  have "append_part (map part_chunk (toMetaChunks hello_chunks)) (0, 0, []) = (2, 5, toMetaChunks hello_chunks)"
    by (simp add: part_chunk_def toMetaChunks_def hello_chunks_def)
  with assms show ?thesis by (simp add: hello_digest hello_etag on_db_def part_chunks)
qed

lemma run_complete:
  assumes db: "gw_db g = part_db"
  shows "\<exists>resp. ServeHTTP mp_env 0 [] [] post_complete g = Some (resp, g\<lparr>gw_db := part_db\<lparr>tabs := done_tables\<rparr>\<rparr>) \<and> rs_status resp = 200"
proof -
  obtain h where h: "ServeHTTP mp_env 0 [] [] post_complete g = route mp_env 0 [] post_complete ''b'' ''k'' h g"
    using mp_routed [of "''POST''" "[(''uploadId'', [''u''])]"] by (fastforce simp: values_get_def)
  have route: "route mp_env 0 [] post_complete ''b'' ''k'' h g = Some (completeMultipartUpload mp_env 0 post_complete ''b'' ''k'' ''u'' h g)"
    by (simp add: route_def values_get_def values_has_def Let_def)
  have g: "g\<lparr>gw_db := part_db\<rparr> = g" using db by simp
  have "resolveUpload mp_env ''b'' ''k'' ''u'' h g =
      (Inr \<lparr>mu_id = ''u'', mu_bucket = ''b'', mu_key = ''k'', mu_ctype = ''t'', mu_created = 0\<rparr>, g)"
    by (simp add: resolveUpload_def on_db_def db part_reads g)
  moreover have "on_db (ListMultipartParts ''u'') g = (Inr [\<lparr>mp_num = 1, mp_etag = hex_encode ''hello'', mp_size = 5\<rparr>], g)"
    "query_or [] (GetMultipartUploadMetadata ''u'') g = ([], g)" "query_or [] (GetObjectChunks ''b'' ''k'') g = ([], g)"
    by (simp_all add: query_or_def on_db_def db part_reads g)
  moreover have "on_db (FinalizeMultipartUpload 0 mp_object (toMetaChunks hello_chunks) ''u'') g =
      (Inr (), g\<lparr>gw_db := part_db\<lparr>tabs := done_tables\<rparr>\<rparr>)"
    by (simp add: on_db_def db mp_finalize)
  moreover have "ev_md5 mp_env ''hello'' = ''hello''" by (simp add: list_env_def)
  ultimately have "completeMultipartUpload mp_env 0 post_complete ''b'' ''k'' ''u'' h g =
      (writeXML 200 (XComplete ''/b/k'' ''b'' ''k'' (quoteETag (hex_encode ''hello'' @ ''-1''))) h,
       reapSupersededChunks mp_env [] (g\<lparr>gw_db := part_db\<lparr>tabs := done_tables\<rparr>\<rparr>))"
    by (simp add: completeMultipartUpload_def mp_loop [OF db] one_part mp_object_def del: complete_loop.simps)
  then show ?thesis by (simp add: h route writeXML_def reapSupersededChunks_def delete_refs_def chunkRefs_def)
qed

text \<open>The object can be read: it has the chunks of its one part.\<close>

lemma done_lookup: "lookup done_tables (''b'', ''k'') = Some (stored_of (stamp 0 mp_object) (toMetaChunks hello_chunks) (tabs part_db))"
  using lookup_put [of "tabs part_db" "toMetaChunks hello_chunks" "stamp 0 mp_object"] part_db_ok(2)
  by (simp add: done_tables_def db_inv_def mp_object_def hello_chunks_def toMetaChunks_def)

lemma done_ok: "wf_tables done_tables"
  using keepsD' [OF keeps_FinalizeMultipartUpload _ mp_finalize] part_db_ok(2) by (simp add: db_inv_def)

lemma mp_get: "object_request mp_env ''GET'' ''b'' ''k'' get_hello"
  by (simp add: object_request_def request_paths values_get_def)


end
