(* ===== verification/CopyRoundTrip.thy ===== *)
theory CopyRoundTrip
  imports PutGet
begin

text \<open>
  Uploads whose source may fail: a put whose body is cut off, and a server-side copy, which reads an object
  through the prefetch reader and uploads what it reads.
\<close>

section \<open>Stored objects\<close>

text \<open>The object is in the database, with a contiguous chunk map, and the hosts hold its bytes.\<close>

definition object_stored :: "('w \<Rightarrow> string \<Rightarrow> string \<Rightarrow> bytes option) \<Rightarrow> 'w gw \<Rightarrow> string \<Rightarrow> string \<Rightarrow> bytes \<Rightarrow> bool" where
  "object_stored blob g b k data \<longleftrightarrow>
     (\<exists>v. lookup (tabs (gw_db g)) (b, k) = Some v \<and> o_size (st_row v) = int (length data) \<and> laid_out 0 0 (st_chunks v) \<and>
        stores blob (bs_world (gw_be g)) (st_chunks v) data)"

section \<open>Reading the source of a copy\<close>

lemma GetObject_value:
  assumes "GetObject b k d = (Inr obj, d')"
  shows "\<exists>v. lookup (tabs d) (b, k) = Some v \<and> obj = object_of_row (st_row v)" and "tabs d' = tabs d"
  using assms unfolding GetObject_def lookup_def live_rows_def
  by (auto simp: bindE_def query_def stmt_def split: list.splits option.splits prod.splits if_splits)

lemma GetObjectChunks_tabs: "GetObjectChunks b k d = (r, d') \<Longrightarrow> tabs d' = tabs d"
  using keepsD [OF same.chunk_reads(1), of d "tabs d" b k] by simp

lemma loadSource_value:
  assumes "loadSource E b k h g = (Inr (src, mcs), g')" and "wf (gw_db g)"
  shows "\<exists>v. lookup (tabs (gw_db g)) (b, k) = Some v \<and> src = object_of_row (st_row v) \<and> mcs = st_chunks v"
    and "tabs (gw_db g') = tabs (gw_db g)" and "gw_be g' = gw_be g"
proof -
  obtain d1 d2 where q: "GetObject b k (gw_db g) = (Inr src, d1)" "GetObjectChunks b k d1 = (Inr mcs, d2)" and g': "g' = g\<lparr>gw_db := d2\<rparr>"
    using assms(1) by (auto simp: loadSource_def on_db_def split: prod.splits sum.splits)
  note t = GetObject_value [OF q(1)] and t2 = GetObjectChunks_tabs [OF q(2)]
  have "mcs = read_chunks (tabs (gw_db g)) b k" using GetObjectChunks_value [OF q(2)] t(2) assms(2) by simp
  then show "\<exists>v. lookup (tabs (gw_db g)) (b, k) = Some v \<and> src = object_of_row (st_row v) \<and> mcs = st_chunks v"
    using t(1) by (auto simp: lookup_def split: list.splits)
  show "tabs (gw_db g') = tabs (gw_db g)" "gw_be g' = gw_be g" using t(2) t2 g' by simp_all
qed

text \<open>A reader that ends as the end of a body does has delivered the whole object.\<close>

lemma openObject_delivers:
  assumes E: "honest (ev_hosts E) blob" "env_hedged blob E" and v: "laid_out 0 0 mcs" "stores blob (bs_world (gw_be g)) mcs data"
    "ob_size obj = int (length data)"
    and run: "openObject E obj mcs None g = (Inr rd, g')" and fin: "sg_fin rd = ErrEOF \<or> sg_fin rd = ErrUnexpectedEOF"
  shows "seg_rest rd = data"
proof (cases "data = []")
  case True
  with run v(3) show ?thesis by (auto simp: openObject_def planRead_def)
next
  case False
  then obtain bs e s' where read: "ev_read E (object_source E obj (locs_of mcs)) 0 (int (length data)) (gw_be g) = (Inr (bs, e), s')"
    and rd: "seg_rest rd = bs" "sg_fin rd = (case e of None \<Rightarrow> ErrEOF | Some x \<Rightarrow> x)"
    using run v(3) by (auto simp: openObject_def planRead_def on_be_def split: prod.splits sum.splits if_splits)
  have "e = None" using hedged_read_error [OF E] read fin rd(2) by (cases e) auto
  with read_stored [OF hedged_reads [OF E] v _ _ _ read] rd(1) show ?thesis by (simp add: window_def)
qed

section \<open>The copy\<close>

text \<open>The run of a copy that is answered 200, call by call.\<close>

lemma copyObject_run:
  assumes "parseCopySource r = Some (sb, sk)" and "copyObject E now r b k h g = Some (resp, g')" and "rs_status resp = 200"
  obtains src mcs g1 g2 rd g3 cs bd g4 old g5 obj g6 where "loadSource E sb sk h g = (Inr (src, mcs), g1)"
    and "tabs (gw_db g2) = tabs (gw_db g1)" and "gw_be g2 = gw_be g1" and "openObject E src mcs None g2 = (Inr rd, g3)"
    and "backend_upload E k False (hashed_body (SrcPlain rd)) g3 = Some (cs, None, bd, g4)"
    and "query_or [] (GetObjectChunks b k) g4 = (old, g5)"
    and "PutObject now obj (toMetaChunks cs) (gw_db g5) = (Inr (), gw_db g6)" and "gw_be g6 = gw_be g5"
    and "ob_bucket obj = b" and "ob_key obj = k" and "ob_size obj = ct_n bd" and "ob_etag obj = body_etag E bd"
    and "g' = reapSupersededChunks E old g6"
proof -
  have no: "rs_status (writeError st c m h) = st" for st c m h by (simp add: writeError_def writeXML_def)
  obtain res g1 where load: "loadSource E sb sk h g = (res, g1)" by (metis surj_pair)
  have "rs_status x \<noteq> 200" if "res = Inl x" for x
    using load that by (auto simp: loadSource_def no split: prod.splits sum.splits if_splits)
  then obtain src mcs where res: "res = Inr (src, mcs)"
    using assms load by (cases res) (auto simp: copyObject_def)
  let ?replace = "EqualFold (hdr r ''X-Amz-Metadata-Directive'') ''REPLACE''"
  obtain meta g2 where meta: "(if ?replace then (captureObjectMetadata (rq_header r), g1)
      else query_or [] (GetObjectMetadata sb sk) g1) = (meta, g2)" by (metis surj_pair)
  have g2: "tabs (gw_db g2) = tabs (gw_db g1)" "gw_be g2 = gw_be g1"
    using meta same_query [OF _ same.plain_reads(1)] by (auto split: if_splits)
  obtain opened g3 where opn: "openObject E src mcs None g2 = (opened, g3)" by (metis surj_pair)
  obtain rd where rd: "opened = Inr rd" using assms load res meta opn by (cases opened) (auto simp: copyObject_def no Let_def)
  obtain cs err bd g4 where up: "backend_upload E k False (hashed_body (SrcPlain rd)) g3 = Some (cs, err, bd, g4)"
    using assms load res meta opn rd by (auto simp: copyObject_def no Let_def split: option.splits)
  have err: "err = None" using assms load res meta opn rd up by (cases err) (auto simp: copyObject_def no Let_def)
  obtain old g5 where q: "query_or [] (GetObjectChunks b k) g4 = (old, g5)" by (metis surj_pair)
  define obj where "obj = \<lparr>ob_bucket = b, ob_key = k, ob_size = ct_n bd, ob_etag = body_etag E bd,
      ob_ctype = (if ?replace \<and> hdr r ''Content-Type'' \<noteq> [] then hdr r ''Content-Type'' else ob_ctype src),
      ob_created = zero_time, ob_updated = zero_time, ob_meta = meta\<rparr>"
  obtain p g6 where put: "on_db (PutObject now obj (toMetaChunks cs)) g5 = (p, g6)" by (metis surj_pair)
  have p: "p = Inr ()" and g': "g' = reapSupersededChunks E old g6"
    using assms load res meta opn rd up err q put by (auto simp: copyObject_def no obj_def Let_def split: sum.splits)
  have "PutObject now obj (toMetaChunks cs) (gw_db g5) = (Inr (), gw_db g6)" "gw_be g6 = gw_be g5"
    using put p by (auto simp: on_db_def split: prod.splits)
  then show thesis
    using that [OF load [unfolded res] g2 opn [unfolded rd] up [unfolded err] q _ _ _ _ _ _ g'] by (simp add: obj_def)
qed

text \<open>Reading an object takes back no locator, whatever else the hosts do meanwhile.\<close>

definition reads_issue :: "('w \<Rightarrow> (string \<times> string) set) \<Rightarrow> 'w env \<Rightarrow> bool" where
  "reads_issue issued E \<longleftrightarrow> (\<forall>src start en s r s'. ev_read E src start en s = (r, s') \<longrightarrow> issued (bs_world s) \<subseteq> issued (bs_world s'))"

lemma openObject_issued:
  assumes "reads_issue issued E" and "openObject E obj mcs rng g = (r, g')"
  shows "gw_db g' = gw_db g" and "issued (bs_world (gw_be g)) \<subseteq> issued (bs_world (gw_be g'))"
  using assms unfolding openObject_def on_be_def reads_issue_def by (fastforce split: prod.splits sum.splits if_splits)+

section \<open>Properties\<close>


text \<open>
  C5 (error). What a failing body leaves behind. A PUT of a plain body is answered 200 only when the body
  ended with \<^verbatim>\<open>io.EOF\<close> or with \<^verbatim>\<open>io.ErrUnexpectedEOF\<close>, and then the object is what had arrived of it; any other
  error of the body fails the request. The second error is the one a connection gives that closes before
  it has sent its \<^verbatim>\<open>Content-Length\<close>: such a PUT replaces the object by the part that arrived, unless the
  request declared its decoded length.
\<close>

theorem put_of_cut_body:
  assumes "env_uploads E" and "fresh_hosts (ev_hosts E) blob issued" and "wf (gw_db g)" and "db_issued issued g"
    and "object_request E ''PUT'' b k r" and "hdr r ''X-Amz-Copy-Source'' = []" and "\<not> isAWSChunked r"
    and "ServeHTTP E now rnd rid r g = Some (resp, g')" and "rs_status resp = 200"
  shows "sg_fin (rq_body r) \<in> {ErrEOF, ErrUnexpectedEOF} \<and> object_stored blob g' b k (seg_rest (rq_body r))"
proof -
  obtain h where run: "putObject E now r b k h g = Some (resp, g')" using serve_put [OF assms(5,8,9)] by blast
  have body: "decodeUpload r = hashed_body (SrcPlain (rq_body r))" using assms(7) by (simp add: decodeUpload_def)
  obtain v where "lookup (tabs (gw_db g')) (b, k) = Some v" "o_size (st_row v) = int (length (seg_rest (rq_body r)))"
      "laid_out 0 0 (st_chunks v)" "stores blob (bs_world (gw_be g')) (st_chunks v) (seg_rest (rq_body r))"
    and "sg_fin (rq_body r) = ErrEOF \<or> sg_fin (rq_body r) = ErrUnexpectedEOF"
    by (rule putObject_stores [OF assms(1) uploads_hosts [OF assms(1,2)] assms(3,4,6) _ _ run assms(9), unfolded body plain_body(3),
          OF plain_body(1,2)])
  then show ?thesis by (auto simp: object_stored_def)
qed

section \<open>Examples\<close>

lemma hello_stored: "object_stored list_blob hello_gateway ''b'' ''k'' ''hello''"
proof -
  let ?v = "stored_of (stamp 0 hello_object) (toMetaChunks hello_chunks) (tabs (gw_db bucket_gateway))"
  have lk: "lookup (tabs (gw_db hello_gateway)) (''b'', ''k'') = Some ?v" by (simp add: hello_gateway_def hello_lookup)
  have st: "st_chunks ?v = toMetaChunks hello_chunks" "o_size (st_row ?v) = 5"
    by (simp_all add: stored_of_def upserted_row_def hello_object_def)
  have lay: "laid_out 0 0 (toMetaChunks hello_chunks)" by (simp add: toMetaChunks_def hello_chunks_def)
  have "stores list_blob hello_world (toMetaChunks hello_chunks) ''hello''"
    unfolding stores_def
    by (rule exI [of _ "[''hell'', ''o'']"]) (simp add: toMetaChunks_def hello_chunks_def storage_replica_def list_blob_def hello_world_def)
  with lk st lay show ?thesis unfolding object_stored_def
    by (intro exI [of _ ?v]) (simp add: hello_gateway_def)
qed

lemma hello_gateway_ok: "nofault (gw_db hello_gateway)" "wf (gw_db hello_gateway)" "db_issued list_issued hello_gateway"
  "''b'' \<in> b_name ` set (t_buckets (tabs (gw_db hello_gateway)))"
proof -
  show "nofault (gw_db hello_gateway)" "wf (gw_db hello_gateway)" using hello_tables_ok by (simp_all add: hello_gateway_def)
  show "''b'' \<in> b_name ` set (t_buckets (tabs (gw_db hello_gateway)))"
    by (simp add: hello_gateway_def hello_tables_def put_tables_def bucket_gateway_def Let_def)
  have "row_loc ` set (t_replicas hello_tables) \<subseteq> {(''p'', new_locator 0), (''p'', new_locator 1)}"
    by (simp add: hello_tables_def put_tables_def Let_def bucket_gateway_def migrate_def delete_rows_def replica_rows_def seq_replica_rows_def replica_row_of_def
        toMetaChunks_def hello_chunks_def hello_object_def row_loc_def new_locator_def)
  then show "db_issued list_issued hello_gateway"
    unfolding db_issued_def by (force simp: hello_gateway_def list_issued_def hello_world_def)
qed

lemma header_routed:
  assumes "hdr r ''Authorization'' = auth_header ''AK'' ''d'' ''r'' ''s3'' ''host'' (hex_encode ''h'')" and "hdr r ''X-Amz-Date'' = ''T''"
    and "rq_query r = []" and "rq_method r = ''PUT''" and "rq_path r \<noteq> ''/healthz''" and "splitBucketKey (ev_auth list_env) r = (''b'', k)"
    and "k \<noteq> []"
  shows "\<exists>h. ServeHTTP list_env 0 rnd rid r g = putObject list_env 0 r ''b'' k h g" and "object_request list_env ''PUT'' ''b'' k r"
proof -
  have "authorized (ev_crypto list_env) (ev_auth list_env) 0 r"
    using header_authorized [OF assms(1,2)] assms(3) by (simp add: list_env_def values_get_def)
  with assms(3-7) show "\<exists>h. ServeHTTP list_env 0 rnd rid r g = putObject list_env 0 r ''b'' k h g"
    by (auto simp: ServeHTTP_def route_def values_get_def Let_def)
  show "object_request list_env ''PUT'' ''b'' k r" using assms(3-7) by (simp add: object_request_def values_get_def)
qed

subsection \<open>A body that is cut off\<close>

abbreviation "cut_put \<equiv> put_hello\<lparr>rq_body := \<lparr>sg_segs = [''hel''], sg_fin = ErrUnexpectedEOF\<rparr>\<rparr>"

lemma cut_upload:
  "map_option (\<lambda>(cs, e, b, g). (map ch_seq cs, e, ct_n b)) (backend_upload list_env ''k'' True
      (hashed_body (SrcPlain \<lparr>sg_segs = [''hel''], sg_fin = ErrUnexpectedEOF\<rparr>))
      (bucket_gateway\<lparr>gw_be := \<lparr>bs_pool = one_provider, bs_world = hello_world\<rparr>\<rparr>)) = Some ([0], None, 3)"
  by code_simp

theorem put_of_cut_body_witness:
  "object_stored list_blob hello_gateway ''b'' ''k'' ''hello'' \<and>
   (\<exists>resp g. ServeHTTP list_env 0 [] [] cut_put hello_gateway = Some (resp, g) \<and> rs_status resp = 200 \<and>
      object_stored list_blob g ''b'' ''k'' ''hel'')"
proof -
  have path: "splitBucketKey (ev_auth list_env) cut_put = (''b'', ''k'')"
    using request_paths(2) [of "''PUT''" "[''hel'', ''lo'']"] by (simp add: splitBucketKey_def list_env_def)
  have "hdr cut_put ''Authorization'' = auth_header ''AK'' ''d'' ''r'' ''s3'' ''host'' (hex_encode ''h'')" "hdr cut_put ''X-Amz-Date'' = ''T''"
    by (simp_all add: signed_headers)
  note routed = header_routed [OF this _ _ _ path]
  obtain h where h: "ServeHTTP list_env 0 [] [] cut_put hello_gateway = putObject list_env 0 cut_put ''b'' ''k'' h hello_gateway"
    using routed(1) [of "[]" "[]" hello_gateway] by auto
  have req: "object_request list_env ''PUT'' ''b'' ''k'' cut_put" using routed(2) by simp
  have plain: "\<not> isAWSChunked cut_put" "hdr cut_put ''X-Amz-Copy-Source'' = []"
    using request_not_chunked [of "''PUT''" "''/b/k''" "[''hel'', ''lo'']"] by (simp_all add: isAWSChunked_def header_absent)
  have dec: "decodeUpload cut_put = hashed_body (SrcPlain \<lparr>sg_segs = [''hel''], sg_fin = ErrUnexpectedEOF\<rparr>)"
    using plain(1) by (simp add: decodeUpload_def)
  obtain cs bd g2 where up: "backend_upload list_env ''k'' True (decodeUpload cut_put) hello_gateway = Some (cs, None, bd, g2)"
    and cs: "map ch_seq cs = [0]" "ct_n bd = 3"
    using cut_upload unfolding dec
    by (subst (asm) backend_upload_gw [of _ hello_gateway]) (auto simp: hello_gateway_def split: prod.splits)
  have "map mc_seq (toMetaChunks cs) = [0]" using arg_cong [OF cs(1), of "map int"] by (simp add: toMetaChunks_def comp_def)
  then obtain resp g where put: "putObject list_env 0 cut_put ''b'' ''k'' h hello_gateway = Some (resp, g)" "rs_status resp = 200"
    using putObject_succeeds [OF hello_gateway_ok(1,2,4) plain(2) up, of h 3 0] cs(2)
    by (auto simp: header_absent validateDecodedSize_def)
  have fresh: "fresh_hosts (ev_hosts list_env) list_blob list_issued" using list_fresh by (simp add: list_env_def)
  from put_of_cut_body [OF list_env_uploads fresh hello_gateway_ok(2,3) req plain(2,1) _ put(2), of 0 "[]" "[]"] put(1) h
  have "object_stored list_blob g ''b'' ''k'' ''hel''" by simp
  with h put hello_stored show ?thesis by auto
qed

subsection \<open>A copy\<close>

abbreviation "copy_hello \<equiv> (signed_request ''PUT'' ''/b/c'' [])\<lparr>rq_header :=
  rq_header (signed_request ''PUT'' ''/b/c'' []) @ [(''X-Amz-Copy-Source'', [''b/k''])]\<rparr>"

lemma copy_headers:
  assumes "length k \<noteq> 17"
  shows "hdr copy_hello k = hdr (signed_request ''PUT'' ''/b/c'' []) k"
proof -
  have "length (CanonicalKey k) \<noteq> length ''X-Amz-Copy-Source''" using assms by simp
  then have "CanonicalKey k \<noteq> ''X-Amz-Copy-Source''" by metis
  then show ?thesis by (simp add: header_get_def values_get_def map_add_def split: option.splits)
qed

lemma copy_source: "parseCopySource copy_hello = Some (''b'', ''k'')"
proof -
  have "CanonicalKey ''X-Amz-Copy-Source'' = ''X-Amz-Copy-Source''" by code_simp
  then have "hdr copy_hello ''X-Amz-Copy-Source'' = ''b/k''" by (simp add: header_get_def values_get_def signed_request_def)
  moreover have "IndexByte ''b/k'' CHR ''?'' = None" "TrimPrefix ''b/k'' ''/'' = ''b/k''" "IndexByte ''b/k'' CHR ''/'' = Some 1"
    "PathUnescape ''b'' = Some ''b''" "PathUnescape ''k'' = Some ''k''"
    by code_simp+
  ultimately show ?thesis by (simp add: parseCopySource_def Let_def)
qed

lemma copy_upload:
  "map_option (\<lambda>(cs, e, b, g). (map ch_seq cs, e)) (backend_upload list_env ''c'' False
      (hashed_body (SrcPlain \<lparr>sg_segs = [''hello''], sg_fin = ErrEOF\<rparr>))
      (bucket_gateway\<lparr>gw_be := \<lparr>bs_pool = one_provider, bs_world = hello_world\<rparr>\<rparr>)) = Some ([0, 1], None)"
  by code_simp

text \<open>A copy on a database that does not fail, when its read and its upload do not, is answered 200.\<close>

lemma copyObject_succeeds:
  assumes "nofault (gw_db g)" and "wf (gw_db g)" and "b \<in> b_name ` set (t_buckets (tabs (gw_db g)))"
    and "parseCopySource r = Some (sb, sk)" and "lookup (tabs (gw_db g)) (sb, sk) = Some v"
    and "openObject E (object_of_row (st_row v)) (st_chunks v) None g = (Inr rd, g3)" and "gw_db g3 = gw_db g"
    and "backend_upload E k False (hashed_body (SrcPlain rd)) g3 = Some (cs, None, bd, g4)"
    and "distinct (map mc_seq (toMetaChunks cs))" and "\<not> EqualFold (hdr r ''X-Amz-Metadata-Directive'') ''REPLACE''"
    and "distinct (map fst (st_meta v))"
  shows "\<exists>resp g'. copyObject E now r b k h g = Some (resp, g') \<and> rs_status resp = 200"
proof -
  have g4: "gw_db g4 = gw_db g" using backend_upload_frame [OF assms(8)] assms(7) by simp
  have v: "read_chunks (tabs (gw_db g)) sb sk = st_chunks v" "read_meta (tabs (gw_db g)) sb sk = st_meta v"
    using assms(5) by (auto simp: lookup_def split: list.splits)
  have load: "loadSource E sb sk h g = (Inr (object_of_row (st_row v), st_chunks v), g)"
    using assms(1,2,5) v by (simp add: loadSource_def on_db_def GetObject_lookup GetObjectChunks_read)
  have meta: "query_or [] (GetObjectMetadata sb sk) g = (st_meta v, g)"
    using assms(1) v by (simp add: query_or_def on_db_def GetObjectMetadata_read)
  define obj where "obj = \<lparr>ob_bucket = b, ob_key = k, ob_size = ct_n bd, ob_etag = body_etag E bd, ob_ctype = ob_ctype (object_of_row (st_row v)),
      ob_created = zero_time, ob_updated = zero_time, ob_meta = st_meta v\<rparr>"
  have "PutObject now obj (toMetaChunks cs) (gw_db g4) = (Inr (), (gw_db g4)\<lparr>tabs := put_tables (stamp now obj) (toMetaChunks cs) (tabs (gw_db g4))\<rparr>)"
    using assms(1-3,9,11) by (intro PutObject_nofault) (simp_all add: g4 obj_def)
  then show ?thesis
    using assms load meta
    by (simp add: copyObject_def on_db_def query_or_def GetObjectChunks_read g4 obj_def Let_def) (simp add: writeXML_def)
qed

lemma hello_open: "openObject list_env (object_of_row (st_row (stored_of (stamp 0 hello_object) (toMetaChunks hello_chunks) t))) (toMetaChunks hello_chunks)
    None hello_gateway = (Inr \<lparr>sg_segs = [''hello''], sg_fin = ErrEOF\<rparr>, hello_gateway)"
proof -
  let ?obj = "object_of_row (st_row (stored_of (stamp 0 hello_object) (toMetaChunks hello_chunks) t))"
  have sz: "ob_size ?obj = 5" by (simp add: object_of_row_def stored_of_def upserted_row_def hello_object_def)
  have src: "object_source list_env ?obj (locs_of (toMetaChunks hello_chunks)) = hello_source"
    unfolding object_source_def sz
    by (simp add: hello_source_def list_env_def hello_chunks_def toMetaChunks_def metaChunkRef_def storageReplicas_def storage_replica_def)
  have "pool_get one_provider ''p'' \<noteq> None" by code_simp
  then have "fst (list_read hello_source 0 5 (gw_be hello_gateway)) = Inr (''hello'', None)"
    by (intro hello_read) (simp_all add: hello_gateway_def)
  moreover have "snd (list_read hello_source 0 5 (gw_be hello_gateway)) = gw_be hello_gateway" by (simp add: list_read_def Let_def)
  ultimately have "list_read hello_source 0 5 (gw_be hello_gateway) = (Inr (''hello'', None), gw_be hello_gateway)" by (metis prod.collapse)
  moreover have "ev_read list_env = list_read" by (simp add: list_env_def)
  ultimately show ?thesis
    by (simp add: openObject_def planRead_def sz src on_be_def)
qed


end
