(* ===== verification/HttpClient.thy ===== *)
theory HttpClient
  imports BackendProps HttpRange
begin

text \<open>
  \<^verbatim>\<open>internal/storage/freehost/httputil.go\<close>: the HTTP client the host providers share, with its retry loop,
  form bodies, and the range read that falls back to slicing when a host ignores \<^verbatim>\<open>Range\<close>.

  The client's \<^verbatim>\<open>Do\<close> is the parameter \<open>wc_do\<close>, an action on the outside world: it has what the network,
  the redirects and the deadline of the call do, and a request that cannot be built is one of its errors.
  \<open>wc_ctx\<close> is \<^verbatim>\<open>ctx.Err()\<close> of the caller's context, \<open>wc_wait\<close> the select between the backoff timer and the
  context, \<open>wc_boundary\<close> the random boundary of a form, \<open>wc_json\<close> the syntax tree of a JSON text.
\<close>

section \<open>Requests and responses\<close>

record hreq =
  hq_method :: string
  hq_url :: string
  hq_header :: "(string \<times> string) list"
  hq_body :: bytes

record hresp =
  hp_status :: int
  hp_header :: "(string \<times> string) list"
  hp_body :: body

datatype json = JNull | JBool bool | JNum string | JStr string | JArr "json list" | JObj "(string \<times> json) list"

record 'w client =
  wc_do :: "hreq \<Rightarrow> ('w, hresp) act"
  wc_ctx :: "'w \<Rightarrow> goerr option"
  wc_wait :: "int \<Rightarrow> ('w, unit) act"
  wc_boundary :: "'w \<Rightarrow> string"
  wc_json :: "string \<Rightarrow> json option"

definition BrowserUA :: string where
  "BrowserUA = ''Mozilla/5.0 (Windows NT 10.0; Win64; x64) AppleWebKit/537.36 '' @
     ''(KHTML, like Gecko) Chrome/124.0.0.0 Safari/537.36''"

definition maxAttempts :: nat where
  "maxAttempts = 3"

definition errBodyLimit :: nat where
  "errBodyLimit = 2 * 2 ^ 10"

definition client_do :: "'w client \<Rightarrow> hreq \<Rightarrow> ('w, hresp) act" where
  "client_do c req =
     wc_do c (if header_value (hq_header req) ''User-Agent'' = []
              then req\<lparr>hq_header := header_set ''User-Agent'' BrowserUA (hq_header req)\<rparr> else req)"

text \<open>The headers a caller passes as a map, set one after the other.\<close>

definition set_headers :: "(string \<times> string) list \<Rightarrow> (string \<times> string) list \<Rightarrow> (string \<times> string) list" where
  "set_headers hs h = fold (\<lambda>(k, v). header_set k v) hs h"

definition slurp :: "hresp \<Rightarrow> string" where
  "slurp resp = TrimSpace (take errBodyLimit (fst (hp_body resp)))"

section \<open>Retry\<close>

fun retry_loop :: "'w client \<Rightarrow> nat \<Rightarrow> int \<Rightarrow> ('w, 'a) act \<Rightarrow> goerr \<Rightarrow> ('w, 'a) act" where
  "retry_loop c 0 backoff fn err w = (Inl err, w)"
| "retry_loop c (Suc left) backoff fn err w =
     (case fn w of
        (Inr x, w1) \<Rightarrow> (Inr x, w1)
      | (Inl e, w1) \<Rightarrow>
          (case wc_ctx c w1 of
             Some ctxErr \<Rightarrow> (Inl ctxErr, w1)
           | None \<Rightarrow>
               if left > 0
               then (case wc_wait c backoff w1 of
                  (Inl ctxErr, w2) \<Rightarrow> (Inl ctxErr, w2)
                | (Inr _, w2) \<Rightarrow> retry_loop c left (backoff * 2) fn e w2)
               else retry_loop c left backoff fn e w1))"

definition retry :: "'w client \<Rightarrow> ('w, 'a) act \<Rightarrow> ('w, 'a) act" where
  "retry c fn = retry_loop c maxAttempts 500000000 fn (ErrMsg [])"

section \<open>Form bodies\<close>

text \<open>\<^verbatim>\<open>%q\<close> on ASCII text, and the escaping of a form field's name in \<^verbatim>\<open>mime/multipart\<close>.\<close>

definition quote_char :: "char \<Rightarrow> string" where
  "quote_char ch =
     (if ch = CHR 0x22 \<or> ch = CHR 0x5C then [CHR 0x5C, ch]
      else if ch = CHR 0x07 then [CHR 0x5C, CHR ''a'']
      else if ch = CHR 0x08 then [CHR 0x5C, CHR ''b'']
      else if ch = CHR 0x0C then [CHR 0x5C, CHR ''f'']
      else if ch = CHR 0x0A then [CHR 0x5C, CHR ''n'']
      else if ch = CHR 0x0D then [CHR 0x5C, CHR ''r'']
      else if ch = CHR 0x09 then [CHR 0x5C, CHR ''t'']
      else if ch = CHR 0x0B then [CHR 0x5C, CHR ''v'']
      else if ch < CHR 0x20 \<or> ch \<ge> CHR 0x7F
      then [CHR 0x5C, CHR ''x'', digit_char (of_char ch div 16), digit_char (of_char ch mod 16)]
      else [ch])"

definition go_quote :: "string \<Rightarrow> string" where
  "go_quote s = [CHR 0x22] @ concat (map quote_char s) @ [CHR 0x22]"

definition escapeQuotes :: "string \<Rightarrow> string" where
  "escapeQuotes s = concat (map (\<lambda>ch. if ch = CHR 0x22 \<or> ch = CHR 0x5C then [CHR 0x5C, ch] else [ch]) s)"

definition crlf :: string where
  "crlf = [CHR 0x0D, CHR 0x0A]"

text \<open>\<^verbatim>\<open>CreatePart\<close>: the delimiter, which starts a line of its own after the first part, and the headers.\<close>

definition create_part :: "string \<Rightarrow> bool \<Rightarrow> (string \<times> string) list \<Rightarrow> string" where
  "create_part boundary first hs =
     (if first then [] else crlf) @ ''--'' @ boundary @ crlf @
     concat (map (\<lambda>(k, v). k @ '': '' @ v @ crlf) hs) @ crlf"

definition form_field :: "string \<Rightarrow> bool \<Rightarrow> string \<Rightarrow> string \<Rightarrow> string" where
  "form_field boundary first k v =
     create_part boundary first [(''Content-Disposition'', ''form-data; name='' @ [CHR 0x22] @ escapeQuotes k @ [CHR 0x22])] @ v"

text \<open>The fields are written in the order of the list; the order of a Go map is not specified.\<close>

fun form_fields :: "string \<Rightarrow> bool \<Rightarrow> (string \<times> string) list \<Rightarrow> string" where
  "form_fields boundary first [] = []"
| "form_fields boundary first ((k, v) # fs) = form_field boundary first k v @ form_fields boundary False fs"

definition multipartBody :: "string \<Rightarrow> (string \<times> string) list \<Rightarrow> string \<Rightarrow> string \<Rightarrow> string \<Rightarrow> bytes \<Rightarrow> bytes \<times> string" where
  "multipartBody boundary flds fileField filename contentType data =
     (let ct = (if contentType = [] then ''application/octet-stream'' else contentType) in
      (form_fields boundary True flds @
       create_part boundary (flds = [])
         [(''Content-Disposition'', ''form-data; name='' @ go_quote fileField @ ''; filename='' @ go_quote filename),
          (''Content-Type'', ct)] @ data @
       crlf @ ''--'' @ boundary @ ''--'' @ crlf,
       ''multipart/form-data; boundary='' @ boundary))"

section \<open>Sending\<close>

text \<open>
  One attempt and its retries. \<open>validate\<close> rejects the response with an error or gives the value that the
  caller's closure stores.
\<close>

definition send_attempt :: "'w client \<Rightarrow> hreq \<Rightarrow> (int \<Rightarrow> string \<Rightarrow> goerr + 'v) \<Rightarrow> ('w, 'v \<times> string \<times> (string \<times> string) list) act" where
  "send_attempt c req validate =
     bindE (client_do c req) (\<lambda>resp w.
       let text = slurp resp in
       (case validate (hp_status resp) text of
          Inl e \<Rightarrow> (Inl e, w)
        | Inr v \<Rightarrow> (Inr (v, text, hp_header resp), w)))"

definition uploadMultipart :: "'w client \<Rightarrow> string \<Rightarrow> (string \<times> string) list \<Rightarrow> string \<Rightarrow> string \<Rightarrow> string \<Rightarrow> bytes \<Rightarrow>
    (string \<times> string) list \<Rightarrow> (int \<Rightarrow> string \<Rightarrow> goerr + 'v) \<Rightarrow> ('w, 'v \<times> string \<times> (string \<times> string) list) act" where
  "uploadMultipart c url flds fileField filename contentType data headers validate w =
     (let (body, ct) = multipartBody (wc_boundary c w) flds fileField filename contentType data
      in retry c (send_attempt c \<lparr>hq_method = ''POST'', hq_url = url,
           hq_header = set_headers headers (header_set ''Content-Type'' ct []), hq_body = body\<rparr> validate) w)"

definition sendBytes :: "'w client \<Rightarrow> string \<Rightarrow> string \<Rightarrow> bytes \<Rightarrow> (string \<times> string) list \<Rightarrow>
    (int \<Rightarrow> string \<Rightarrow> goerr + 'v) \<Rightarrow> ('w, 'v \<times> string \<times> (string \<times> string) list) act" where
  "sendBytes c method url data headers validate =
     retry c (send_attempt c \<lparr>hq_method = method, hq_url = url, hq_header = set_headers headers [], hq_body = data\<rparr> validate)"

text \<open>\<^verbatim>\<open>url.QueryEscape\<close>.\<close>

definition query_escape_char :: "char \<Rightarrow> string" where
  "query_escape_char ch =
     (if (CHR ''a'' \<le> ch \<and> ch \<le> CHR ''z'') \<or> (CHR ''A'' \<le> ch \<and> ch \<le> CHR ''Z'') \<or> (CHR ''0'' \<le> ch \<and> ch \<le> CHR ''9'') \<or>
         ch \<in> set ''-_.~'' then [ch]
      else if ch = CHR '' '' then ''+''
      else [CHR 0x25, ''0123456789ABCDEF'' ! (of_char ch div 16), ''0123456789ABCDEF'' ! (of_char ch mod 16)])"

definition QueryEscape :: "string \<Rightarrow> string" where
  "QueryEscape s = concat (map query_escape_char s)"

definition postForm :: "'w client \<Rightarrow> string \<Rightarrow> (string \<times> string) list \<Rightarrow> ('w, int \<times> string) act" where
  "postForm c endpoint vals =
     bindE (client_do c \<lparr>hq_method = ''POST'', hq_url = endpoint,
         hq_header = header_set ''Content-Type'' ''application/x-www-form-urlencoded'' [],
         hq_body = Join ''&'' (map (\<lambda>(k, v). QueryEscape k @ ''='' @ QueryEscape v) vals)\<rparr>)
       (\<lambda>resp. retE (hp_status resp, slurp resp))"

definition deleteWithHeaders :: "'w client \<Rightarrow> string \<Rightarrow> (string \<times> string) list \<Rightarrow> ('w, int \<times> string) act" where
  "deleteWithHeaders c url headers =
     bindE (client_do c \<lparr>hq_method = ''DELETE'', hq_url = url, hq_header = set_headers headers [], hq_body = []\<rparr>)
       (\<lambda>resp. retE (hp_status resp, slurp resp))"

section \<open>Reading\<close>

abbreviation success :: "int \<Rightarrow> bool" where
  "success status \<equiv> \<not> (status < 200 \<or> status \<ge> 300)"

definition getString :: "'w client \<Rightarrow> string \<Rightarrow> nat \<Rightarrow> ('w, string) act" where
  "getString c url maxBytes =
     bindE (client_do c \<lparr>hq_method = ''GET'', hq_url = url, hq_header = [], hq_body = []\<rparr>) (\<lambda>resp w.
       if \<not> success (hp_status resp)
       then (Inl (ErrMsg (''freehost: GET '' @ url @ '' -> '' @ FormatInt (hp_status resp))), w)
       else (Inr (take maxBytes (fst (hp_body resp))), w))"

text \<open>\<^verbatim>\<open>io.CopyN(io.Discard, r, n)\<close> on the body: the rest, or the error that came too early.\<close>

definition skip_bytes :: "int \<Rightarrow> body \<Rightarrow> goerr + body" where
  "skip_bytes n b =
     (if n \<le> int (length (fst b)) then Inr (drop (nat n) (fst b), snd b)
      else Inl (case snd b of None \<Rightarrow> ErrEOF | Some e \<Rightarrow> e))"

definition range_header :: "int \<Rightarrow> int \<Rightarrow> string" where
  "range_header off len =
     (if len > 0 then ''bytes='' @ FormatInt off @ ''-'' @ FormatInt (off + len - 1)
      else ''bytes='' @ FormatInt off @ ''-'')"

definition rangeGetMethod :: "'w client \<Rightarrow> string \<Rightarrow> string \<Rightarrow> int \<Rightarrow> int \<Rightarrow> (string \<times> string) list \<Rightarrow> ('w, body) act" where
  "rangeGetMethod c method url off len extraHeaders =
     (let wantRange = (off > 0 \<or> len > 0);
          h = set_headers extraHeaders [];
          h = (if wantRange then header_set ''Range'' (range_header off len) h else h)
      in bindE (client_do c \<lparr>hq_method = method, hq_url = url, hq_header = h, hq_body = []\<rparr>) (\<lambda>resp w.
           if hp_status resp = 206 then (Inr (hp_body resp), w)
           else if hp_status resp = 200 then
             (case (if off > 0 then skip_bytes off (hp_body resp) else Inr (hp_body resp)) of
                Inl e \<Rightarrow> (Inl (ErrWrap (''freehost: skip to offset '' @ FormatInt off) e), w)
              | Inr r \<Rightarrow> (Inr (if len > 0 then limit_reader len r else r), w))
           else (Inl (ErrMsg (''freehost: GET '' @ url @ '' -> '' @ FormatInt (hp_status resp) @ '': '' @ slurp resp)), w)))"

definition rangeGet :: "'w client \<Rightarrow> string \<Rightarrow> int \<Rightarrow> int \<Rightarrow> (string \<times> string) list \<Rightarrow> ('w, body) act" where
  "rangeGet c = rangeGetMethod c ''GET''"

section \<open>Headers\<close>

lemma header_value_set [simp]:
  "header_value (header_set k v h) k' = (if CanonicalKey k = CanonicalKey k' then v else header_value h k')"
proof -
  have "map_of (filter (\<lambda>(j, _). j \<noteq> a) h @ [(a, v)]) b = (if a = b then Some v else map_of h b)" for a b
    by (induction h) auto
  then show ?thesis by (simp add: header_value_def header_set_def)
qed

lemma range_is_not_agent: "CanonicalKey ''User-Agent'' \<noteq> CanonicalKey ''Range''"
  by code_simp

section \<open>Retries\<close>

text \<open>
  What a run of the loop did: a success is that of its last attempt, a failure is the error of its last
  attempt or the context's. \<open>cost\<close> counts the attempts.
\<close>

lemma retry_loop_success:
  "retry_loop c k backoff fn err w = (Inr x, w') \<Longrightarrow> \<exists>w0. fn w0 = (Inr x, w')"
  by (induction c k backoff fn err w rule: retry_loop.induct) (auto split: prod.splits sum.splits option.splits if_splits)

lemma retry_loop_attempts:
  assumes "\<And>w. cost (snd (fn w)) \<le> cost w + (1 :: nat)" and "\<And>d w. cost (snd (wc_wait c d w)) = cost w"
  shows "cost (snd (retry_loop c k backoff fn err w)) \<le> cost w + k"
proof (induction k arbitrary: backoff err w)
  case (Suc k)
  obtain r w1 where fn: "fn w = (r, w1)" by (cases "fn w")
  have w1: "cost w1 \<le> cost w + 1" using assms(1) [of w] fn by simp
  obtain q w2 where wt: "wc_wait c backoff w1 = (q, w2)" by (cases "wc_wait c backoff w1")
  have w2: "cost w2 = cost w1" using assms(2) [of backoff w1] wt by simp
  show ?case
    using Suc.IH [of "backoff * 2" _ w2] Suc.IH [of backoff _ w1] w1 w2
    by (auto simp: fn wt split: sum.splits option.splits intro: le_trans [OF Suc.IH])
qed simp

section \<open>The range read\<close>

text \<open>
  What a web server does with a request for a stored file: 200 with the file, or 206 with the range that
  the \<^verbatim>\<open>Range\<close> header denotes on it; the transfer may break off.
\<close>

definition served :: "bytes \<Rightarrow> body \<Rightarrow> bool" where
  "served data b \<longleftrightarrow> prefix (fst b) data \<and> (snd b = None \<longrightarrow> fst b = data)"

definition web_serves :: "'w client \<Rightarrow> string \<Rightarrow> ('w \<Rightarrow> string \<Rightarrow> bytes option) \<Rightarrow> bool" where
  "web_serves c method file \<longleftrightarrow> (\<forall>req w resp w'. wc_do c req w = (Inr resp, w') \<longrightarrow> hq_method req = method \<longrightarrow>
     hp_status resp = 200 \<or> hp_status resp = 206 \<longrightarrow>
     (\<exists>data. file w (hq_url req) = Some data \<and>
        (if hp_status resp = 200 then served data (hp_body resp)
         else (case parseByteRange (header_value (hq_header req) ''Range'') (int (length data)) of
                 (rng, sat, isRange) \<Rightarrow> sat \<and> isRange \<and> served (window (hr_start rng) (hr_end rng + 1) data) (hp_body resp)))))"

lemma range_header_text:
  assumes "0 \<le> off"
  shows "range_header off len = range_text (if 0 < len then FromTo (nat off) (nat (off + len - 1)) else From (nat off))"
  using assms by (simp add: range_header_def FormatInt_def)

lemma range_header_window:
  assumes "0 \<le> off" and "off + len < 2 ^ 63" and "off < 2 ^ 63"
    and "parseByteRange (range_header off len) (int (length data)) = (rng, True, True)"
  shows "window (hr_start rng) (hr_end rng + 1) data = range_of off len data"
proof (cases "0 < len")
  case True
  then have "parseByteRange (range_text (FromTo (nat off) (nat (off + len - 1)))) (int (length data)) = (rng, True, True)"
    using assms(1,4) range_header_text [of off len] by simp
  then show ?thesis
    using assms(1,2) True parse_from_to [of "nat off" "nat (off + len - 1)" "length data", OF nat_mono]
    by (auto simp: window_def range_of_def simp del: range_text.simps split: if_splits)
next
  case False
  then have "parseByteRange (range_text (From (nat off))) (int (length data)) = (rng, True, True)"
    using assms(1,4) range_header_text [of off len] by simp
  then show ?thesis
    using assms(1,3) False parse_from [of "nat off" "length data"]
    by (auto simp: window_def range_of_def simp del: range_text.simps split: if_splits)
qed

lemma served_skip:
  assumes "served data b" and "0 \<le> off" and "(if off > 0 then skip_bytes off b else Inr b) = Inr r"
  shows "served (drop (nat off) data) r"
  using assms by (cases b) (auto simp: served_def skip_bytes_def prefix_def split: if_splits)

lemma served_limit:
  assumes "served data b"
  shows "served (if 0 < len then take (nat len) data else data) (if 0 < len then limit_reader len b else b)"
  using assms by (cases b) (auto simp: served_def limit_reader_def prefix_def take_is_prefix)

lemma served_slice:
  assumes "served data b" and "0 \<le> off" and "(if off > 0 then skip_bytes off b else Inr b) = Inr r"
  shows "served (range_of off len data) (if 0 < len then limit_reader len r else r)"
  using served_limit [OF served_skip [OF assms], of len] by (auto simp: range_of_def)

section \<open>Properties\<close>

text \<open>
  C35 (equivalence). The range read delivers the requested window whether or not the host honours \<^verbatim>\<open>Range\<close>:
  what it returns is the window of the stored file (all of it unless the transfer broke off), the same
  for a 206 answer as for a 200 answer that is sliced by the client.
\<close>

theorem range_get_exact:
  assumes "web_serves c method file" and "0 \<le> off" and "off + len < 2 ^ 63" and "off < 2 ^ 63"
    and "header_value (set_headers extra []) ''Range'' = []"
    and "rangeGetMethod c method url off len extra w = (Inr rc, w')"
  shows "\<exists>data. file w url = Some data \<and> served (range_of off len data) rc"
proof -
  let ?h0 = "set_headers extra []"
  let ?h = "if off > 0 \<or> len > 0 then header_set ''Range'' (range_header off len) ?h0 else ?h0"
  let ?ua = "\<lambda>h. if header_value h ''User-Agent'' = [] then header_set ''User-Agent'' BrowserUA h else h"
  let ?req = "\<lparr>hq_method = method, hq_url = url, hq_header = ?ua ?h, hq_body = []\<rparr>"
  obtain resp w1 where do: "wc_do c ?req w = (Inr resp, w1)" and st: "hp_status resp = 200 \<or> hp_status resp = 206"
    and rc: "hp_status resp = 206 \<Longrightarrow> rc = hp_body resp"
      "hp_status resp = 200 \<Longrightarrow> \<exists>r. (if off > 0 then skip_bytes off (hp_body resp) else Inr (hp_body resp)) = Inr r \<and>
         rc = (if 0 < len then limit_reader len r else r)"
    using assms(6) unfolding rangeGetMethod_def client_do_def bindE_def Let_def
    by (auto split: prod.splits sum.splits if_splits)
  from assms(1) do st obtain data where data: "file w url = Some data"
    and ok: "if hp_status resp = 200 then served data (hp_body resp)
      else (case parseByteRange (header_value (?ua ?h) ''Range'') (int (length data)) of
        (rng, sat, isRange) \<Rightarrow> sat \<and> isRange \<and> served (window (hr_start rng) (hr_end rng + 1) data) (hp_body resp))"
    unfolding web_serves_def by fastforce
  have hv: "header_value (?ua ?h) ''Range'' = (if off > 0 \<or> len > 0 then range_header off len else [])"
    using assms(5) range_is_not_agent by simp
  show ?thesis
  proof (cases "hp_status resp = 200")
    case True
    with ok have "served data (hp_body resp)" by simp
    moreover obtain r where "(if off > 0 then skip_bytes off (hp_body resp) else Inr (hp_body resp)) = Inr r"
      and "rc = (if 0 < len then limit_reader len r else r)"
      using rc(2) [OF True] by blast
    ultimately show ?thesis using served_slice [of data "hp_body resp" off r len, OF _ assms(2)] data by (simp only: simp_thms) auto
  next
    case False
    have none: "parseByteRange [] n = (\<lparr>hr_start = 0, hr_end = 0\<rparr>, False, False)" for n
      by (simp add: parseByteRange_def HasPrefix_def)
    obtain rng sat isr where pr: "parseByteRange (header_value (?ua ?h) ''Range'') (int (length data)) = (rng, sat, isr)"
      by (metis prod_cases3)
    with ok False have "sat" "isr" and sv: "served (window (hr_start rng) (hr_end rng + 1) data) (hp_body resp)" by auto
    with pr hv none have "parseByteRange (range_header off len) (int (length data)) = (rng, True, True)"
      by (auto split: if_splits)
    from range_header_window [OF assms(2-4) this] sv show ?thesis using rc(1) st False data by auto
  qed
qed

text \<open>A web server that ignores \<^verbatim>\<open>Range\<close>.\<close>

definition plain_web :: "(string \<times> bytes) list client" where
  "plain_web = \<lparr>
     wc_do = (\<lambda>req w. case map_of w (hq_url req) of
        None \<Rightarrow> (Inr \<lparr>hp_status = 404, hp_header = [], hp_body = ([], None)\<rparr>, w)
      | Some d \<Rightarrow> (Inr \<lparr>hp_status = 200, hp_header = [], hp_body = (d, None)\<rparr>, w)),
     wc_ctx = (\<lambda>_. None), wc_wait = (\<lambda>_ w. (Inr (), w)), wc_boundary = (\<lambda>_. ''b''), wc_json = (\<lambda>_. None)\<rparr>"

lemma plain_web_serves: "web_serves plain_web method map_of"
  by (auto simp: web_serves_def plain_web_def served_def split: option.splits)

theorem range_get_exact_witness:
  "\<exists>data. map_of [(''u'', ''hello'')] ''u'' = Some data \<and> served (range_of 1 3 data) (''ell'', None)"
proof -
  have "rangeGetMethod plain_web ''GET'' ''u'' 1 3 [] [(''u'', ''hello'')] = (Inr (''ell'', None), [(''u'', ''hello'')])"
    by (simp add: rangeGetMethod_def client_do_def plain_web_def bindE_def skip_bytes_def limit_reader_def Let_def)
  from range_get_exact [OF plain_web_serves _ _ _ _ this] show ?thesis by (simp add: set_headers_def header_value_def)
qed

end
