(* ===== verification/Providers.thy ===== *)
theory Providers
  imports HttpClient
begin

text \<open>
  The host providers, \<^verbatim>\<open>internal/storage/freehost/*.go\<close>, each with its upload, download and delete over the
  shared client, and the registry that builds the enabled ones. A provider is a record of its three
  calls; \<open>provider_hosts\<close> is the record of the calls that the backend makes through the pool.
\<close>

section \<open>JSON answers\<close>

text \<open>
  \<^verbatim>\<open>json.Unmarshal\<close> into a struct, from the syntax tree: names match without regard to case, the last of
  several wins, an absent name and \<^verbatim>\<open>null\<close> leave the zero value, a value of another type is an error
  (\<open>None\<close>).
\<close>

fun j_obj :: "json \<Rightarrow> (string \<times> json) list option" where
  "j_obj JNull = Some []"
| "j_obj (JObj fs) = Some fs"
| "j_obj _ = None"

fun j_arr :: "json \<Rightarrow> json list option" where
  "j_arr JNull = Some []"
| "j_arr (JArr xs) = Some xs"
| "j_arr _ = None"

fun j_str :: "json \<Rightarrow> string option" where
  "j_str JNull = Some []"
| "j_str (JStr s) = Some s"
| "j_str _ = None"

definition j_field :: "string \<Rightarrow> (string \<times> json) list \<Rightarrow> json" where
  "j_field name fs = (case filter (\<lambda>(k, _). EqualFold k name) (rev fs) of [] \<Rightarrow> JNull | (_, v) # _ \<Rightarrow> v)"

definition j_string :: "string \<Rightarrow> (string \<times> json) list \<Rightarrow> string option" where
  "j_string name fs = j_str (j_field name fs)"

definition j_struct :: "string \<Rightarrow> (string \<times> json) list \<Rightarrow> (string \<times> json) list option" where
  "j_struct name fs = j_obj (j_field name fs)"

fun j_bool_ok :: "json \<Rightarrow> bool" where
  "j_bool_ok JNull = True"
| "j_bool_ok (JBool _) = True"
| "j_bool_ok _ = False"

text \<open>The \<^verbatim>\<open>url\<close> of each entry of \<^verbatim>\<open>files\<close>, an array of structs.\<close>

fun all_some :: "'a option list \<Rightarrow> 'a list option" where
  "all_some [] = Some []"
| "all_some (None # xs) = None"
| "all_some (Some x # xs) = map_option ((#) x) (all_some xs)"

definition j_urls :: "(string \<times> json) list \<Rightarrow> string list option" where
  "j_urls fs = (case j_arr (j_field ''files'' fs) of
     None \<Rightarrow> None
   | Some xs \<Rightarrow> all_some (map (\<lambda>x. case j_obj x of None \<Rightarrow> None | Some f \<Rightarrow> j_string ''url'' f) xs))"

definition unmarshal :: "'w client \<Rightarrow> string \<Rightarrow> (string \<times> json) list option" where
  "unmarshal c text = (case wc_json c text of None \<Rightarrow> None | Some j \<Rightarrow> j_obj j)"

section \<open>Providers\<close>

record 'w prov =
  pr_name :: string
  pr_max :: int
  pr_durable :: bool
  pr_upload :: "bytes \<Rightarrow> string \<Rightarrow> string \<Rightarrow> ('w, string \<times> string) act"
  pr_download :: "string \<Rightarrow> int \<Rightarrow> int \<Rightarrow> ('w, body) act"
  pr_delete :: "string \<Rightarrow> string \<Rightarrow> ('w, unit) act"

definition http_fail :: "string \<Rightarrow> int \<Rightarrow> string \<Rightarrow> goerr" where
  "http_fail who status body = ErrMsg (who @ '': HTTP '' @ FormatInt status @ '': '' @ body)"

definition body_fail :: "string \<Rightarrow> int \<Rightarrow> string \<Rightarrow> goerr" where
  "body_fail who status body = ErrMsg (who @ '': HTTP '' @ FormatInt status @ '' body='' @ body)"

text \<open>The end of every delete call: a status outside 2xx is an error.\<close>

definition check_status :: "(int \<Rightarrow> string \<Rightarrow> goerr) \<Rightarrow> ('w, int \<times> string) act \<Rightarrow> ('w, unit) act" where
  "check_status err m = bindE m (\<lambda>(status, body) w. if \<not> success status then (Inl (err status body), w) else (Inr (), w))"

definition no_delete :: "string \<Rightarrow> string \<Rightarrow> ('w, unit) act" where
  "no_delete loc tok = retE ()"

definition arrow_fail :: "string \<Rightarrow> int \<Rightarrow> string \<Rightarrow> goerr" where
  "arrow_fail what status body = ErrMsg (what @ '' -> '' @ FormatInt status @ '': '' @ body)"

text \<open>The result of an upload whose closure stored the locator.\<close>

definition located :: "('w, string \<times> string \<times> (string \<times> string) list) act \<Rightarrow> ('w, string \<times> string) act" where
  "located m = bindE m (\<lambda>(loc, _). retE (loc, []))"

subsection \<open>Internet Archive\<close>

record ia =
  ia_access :: string
  ia_secret :: string
  ia_s3Host :: string
  ia_dlBase :: string
  ia_itemPfx :: string

definition NewIA :: "string \<Rightarrow> string \<Rightarrow> ia" where
  "NewIA access secret = \<lparr>ia_access = access, ia_secret = secret, ia_s3Host = ''https://s3.us.archive.org'',
     ia_dlBase = ''https://archive.org/download'', ia_itemPfx = ''free-s3-''\<rparr>"

definition key_hash :: "string \<Rightarrow> string" where
  "key_hash filename = (case IndexByte filename CHR ''.'' of Some i \<Rightarrow> take i filename | None \<Rightarrow> filename)"

definition itemAndFile :: "ia \<Rightarrow> string \<Rightarrow> string \<times> string" where
  "itemAndFile p filename = (ia_itemPfx p @ key_hash filename, filename)"

definition ia_auth :: "ia \<Rightarrow> string" where
  "ia_auth p = ''LOW '' @ ia_access p @ '':'' @ ia_secret p"

definition ia_put_url :: "ia \<Rightarrow> string \<Rightarrow> string" where
  "ia_put_url p filename = (case itemAndFile p filename of (item, file) \<Rightarrow> ia_s3Host p @ ''/'' @ item @ ''/'' @ file)"

definition ia_Upload :: "'w client \<Rightarrow> ia \<Rightarrow> bytes \<Rightarrow> string \<Rightarrow> string \<Rightarrow> ('w, string \<times> string) act" where
  "ia_Upload c p data filename contentType =
     (case itemAndFile p filename of (item, file) \<Rightarrow>
        let url = ia_put_url p filename in
        bindE (sendBytes c ''PUT'' url data
            [(''Authorization'', ia_auth p), (''x-archive-auto-make-bucket'', ''1''), (''x-archive-queue-derive'', ''0''),
             (''x-archive-size-hint'', FormatInt (int (length data))), (''Content-Type'', contentType)]
            (\<lambda>status body. if \<not> success status then Inl (arrow_fail (''ia: PUT '' @ url) status body) else Inr ()))
          (\<lambda>_. retE (ia_dlBase p @ ''/'' @ item @ ''/'' @ file, [])))"

definition ia_Delete :: "'w client \<Rightarrow> ia \<Rightarrow> string \<Rightarrow> string \<Rightarrow> ('w, unit) act" where
  "ia_Delete c p locator tok =
     (let rest = TrimPrefix locator (ia_dlBase p @ ''/'') in
      if rest = locator then retE ()
      else
        let url = ia_s3Host p @ ''/'' @ rest in
        check_status (arrow_fail (''ia delete '' @ url)) (deleteWithHeaders c url [(''Authorization'', ia_auth p)]))"

definition ia_Download :: "'w client \<Rightarrow> string \<Rightarrow> int \<Rightarrow> int \<Rightarrow> ('w, body) act" where
  "ia_Download c loc off len = rangeGet c loc off len []"

definition ia_prov :: "'w client \<Rightarrow> ia \<Rightarrow> 'w prov" where
  "ia_prov c p = \<lparr>pr_name = ''ia'', pr_max = 10 * 2 ^ 30, pr_durable = True, pr_upload = ia_Upload c p,
     pr_download = ia_Download c, pr_delete = ia_Delete c p\<rparr>"

subsection \<open>Catbox\<close>

record catbox =
  cb_userhash :: string
  cb_endpoint :: string
  cb_urlPrefix :: string

definition NewCatbox :: "string \<Rightarrow> catbox" where
  "NewCatbox userhash = \<lparr>cb_userhash = TrimSpace userhash, cb_endpoint = ''https://catbox.moe/user/api.php'',
     cb_urlPrefix = ''https://files.catbox.moe/''\<rparr>"

definition catbox_Upload :: "'w client \<Rightarrow> catbox \<Rightarrow> bytes \<Rightarrow> string \<Rightarrow> string \<Rightarrow> ('w, string \<times> string) act" where
  "catbox_Upload c p data filename contentType =
     located (uploadMultipart c (cb_endpoint p)
       ((''reqtype'', ''fileupload'') # (if cb_userhash p \<noteq> [] then [(''userhash'', cb_userhash p)] else []))
       ''fileToUpload'' (binName filename) contentType data []
       (\<lambda>status body. if \<not> HasPrefix body (cb_urlPrefix p) then Inl (body_fail ''catbox'' status body) else Inr body))"

definition catbox_Delete :: "'w client \<Rightarrow> catbox \<Rightarrow> string \<Rightarrow> string \<Rightarrow> ('w, unit) act" where
  "catbox_Delete c p locator tok =
     (let i = basename locator in
      if cb_userhash p = [] then retE ()
      else if i = [] then retE ()
      else check_status (http_fail (''catbox delete '' @ i))
        (postForm c (cb_endpoint p) [(''reqtype'', ''deletefiles''), (''userhash'', cb_userhash p), (''files'', i)]))"

definition catbox_Download :: "'w client \<Rightarrow> string \<Rightarrow> int \<Rightarrow> int \<Rightarrow> ('w, body) act" where
  "catbox_Download c loc off len = rangeGet c loc off len []"

definition catbox_prov :: "'w client \<Rightarrow> catbox \<Rightarrow> 'w prov" where
  "catbox_prov c p = \<lparr>pr_name = ''catbox'', pr_max = 200 * 2 ^ 20, pr_durable = True, pr_upload = catbox_Upload c p,
     pr_download = catbox_Download c, pr_delete = catbox_Delete c p\<rparr>"

subsection \<open>Pixeldrain\<close>

record pixeldrain =
  px_apiKey :: string
  px_base :: string
  px_uploadEP :: string

definition NewPixeldrain :: "string \<Rightarrow> pixeldrain" where
  "NewPixeldrain apiKey = \<lparr>px_apiKey = TrimSpace apiKey, px_base = ''https://pixeldrain.com'',
     px_uploadEP = ''https://pixeldrain.com/api/file''\<rparr>"

definition basicAuth :: "pixeldrain \<Rightarrow> (string \<times> string) list" where
  "basicAuth p = (if px_apiKey p = [] then [] else [(''Authorization'', ''Basic '' @ b64_encode ('':'' @ px_apiKey p))])"

definition pixeldrain_Upload :: "'w client \<Rightarrow> pixeldrain \<Rightarrow> bytes \<Rightarrow> string \<Rightarrow> string \<Rightarrow> ('w, string \<times> string) act" where
  "pixeldrain_Upload c p data filename contentType =
     bindE (uploadMultipart c (px_uploadEP p) [] ''file'' (binName filename) contentType data (basicAuth p)
         (\<lambda>status body. if \<not> success status then Inl (http_fail ''pixeldrain'' status body)
            else (case unmarshal c body of
               None \<Rightarrow> Inl (ErrMsg (''pixeldrain: no id in response: '' @ body))
             | Some r \<Rightarrow>
                 (case j_string ''id'' r of
                    None \<Rightarrow> Inl (ErrMsg (''pixeldrain: no id in response: '' @ body))
                  | Some i \<Rightarrow> if i = [] then Inl (ErrMsg (''pixeldrain: no id in response: '' @ body)) else Inr i))))
       (\<lambda>(i, _). retE (px_base p @ ''/api/file/'' @ i, []))"

definition pixeldrain_Delete :: "'w client \<Rightarrow> pixeldrain \<Rightarrow> string \<Rightarrow> string \<Rightarrow> ('w, unit) act" where
  "pixeldrain_Delete c p locator tok =
     (let i = basename locator in
      if i = [] then retE ()
      else check_status (arrow_fail (''pixeldrain delete '' @ i))
        (deleteWithHeaders c (px_base p @ ''/api/file/'' @ i) (basicAuth p)))"

definition pixeldrain_Download :: "'w client \<Rightarrow> string \<Rightarrow> int \<Rightarrow> int \<Rightarrow> ('w, body) act" where
  "pixeldrain_Download c loc off len = rangeGet c loc off len []"

definition pixeldrain_prov :: "'w client \<Rightarrow> pixeldrain \<Rightarrow> 'w prov" where
  "pixeldrain_prov c p = \<lparr>pr_name = ''pixeldrain'', pr_max = 20 * 2 ^ 30, pr_durable = True, pr_upload = pixeldrain_Upload c p,
     pr_download = pixeldrain_Download c, pr_delete = pixeldrain_Delete c p\<rparr>"

subsection \<open>Gofile\<close>

record gofile =
  gf_token :: string
  gf_api :: string

definition NewGofile :: "string \<Rightarrow> gofile" where
  "NewGofile token = \<lparr>gf_token = token, gf_api = ''https://api.gofile.io''\<rparr>"

definition bestServer :: "'w client \<Rightarrow> gofile \<Rightarrow> ('w, string) act" where
  "bestServer c p =
     bindE (client_do c \<lparr>hq_method = ''GET'', hq_url = gf_api p @ ''/servers'', hq_header = [], hq_body = []\<rparr>) (\<lambda>resp w.
       let body = slurp resp;
           servers = (case unmarshal c body of
             None \<Rightarrow> None
           | Some r \<Rightarrow>
               (case (j_string ''status'' r, j_struct ''data'' r) of
                  (Some st, Some d) \<Rightarrow>
                    (case j_arr (j_field ''servers'' d) of
                       None \<Rightarrow> None
                     | Some xs \<Rightarrow>
                         (case all_some (map (\<lambda>x. case j_obj x of None \<Rightarrow> None | Some f \<Rightarrow> j_string ''name'' f) xs) of
                            None \<Rightarrow> None
                          | Some names \<Rightarrow> if st \<noteq> ''ok'' then None else Some names))
                | _ \<Rightarrow> None))
       in (case servers of
             Some (s # _) \<Rightarrow> (Inr s, w)
           | _ \<Rightarrow> (Inl (ErrMsg (''gofile: /servers bad response: '' @ body)), w)))"

definition directLink :: "'w client \<Rightarrow> gofile \<Rightarrow> string \<Rightarrow> ('w, string) act" where
  "directLink c p contentID =
     bindE (sendBytes c ''POST'' (gf_api p @ ''/contents/'' @ contentID @ ''/directlinks'') []
         [(''Authorization'', ''Bearer '' @ gf_token p), (''Content-Type'', ''application/json'')]
         (\<lambda>status body. if \<not> success status then Inl (ErrMsg (''gofile directlinks HTTP '' @ FormatInt status @ '': '' @ body)) else Inr ()))
       (\<lambda>(_, body, _) w.
          let bad = (Inl (ErrMsg (''gofile: no directLink: '' @ body)), w) in
          (case unmarshal c body of
             None \<Rightarrow> bad
           | Some r \<Rightarrow>
               (case j_struct ''data'' r of
                  None \<Rightarrow> bad
                | Some d \<Rightarrow>
                    (case j_string ''directLink'' d of
                       None \<Rightarrow> bad
                     | Some l \<Rightarrow> if l = [] then bad else (Inr l, w)))))"

definition gofile_Upload :: "'w client \<Rightarrow> gofile \<Rightarrow> bytes \<Rightarrow> string \<Rightarrow> string \<Rightarrow> ('w, string \<times> string) act" where
  "gofile_Upload c p data filename contentType =
     bindE (bestServer c p) (\<lambda>server.
     bindE (uploadMultipart c (''https://'' @ server @ ''.gofile.io/contents/uploadfile'') [(''token'', gf_token p)]
         ''file'' (binName filename) contentType data []
         (\<lambda>status body.
            let bad = Inl (ErrMsg (''gofile: upload bad response: HTTP '' @ FormatInt status @ '' '' @ body)) in
            (case unmarshal c body of
               None \<Rightarrow> bad
             | Some r \<Rightarrow>
                 (case (j_string ''status'' r, j_struct ''data'' r) of
                    (Some st, Some d) \<Rightarrow>
                      (case j_string ''fileId'' d of
                         None \<Rightarrow> bad
                       | Some i \<Rightarrow> if st \<noteq> ''ok'' \<or> i = [] then bad else Inr i)
                  | _ \<Rightarrow> bad)))) (\<lambda>(fileID, _).
     bindE (directLink c p fileID) (\<lambda>direct. retE (direct, fileID))))"

definition gofile_Delete :: "'w client \<Rightarrow> gofile \<Rightarrow> string \<Rightarrow> string \<Rightarrow> ('w, unit) act" where
  "gofile_Delete c p locator tok =
     (if tok = [] then retE ()
      else check_status (arrow_fail (''gofile delete '' @ tok))
        (deleteWithHeaders c (gf_api p @ ''/contents/'' @ tok) [(''Authorization'', ''Bearer '' @ gf_token p)]))"

definition gofile_Download :: "'w client \<Rightarrow> string \<Rightarrow> int \<Rightarrow> int \<Rightarrow> ('w, body) act" where
  "gofile_Download c loc off len = rangeGet c loc off len []"

definition gofile_prov :: "'w client \<Rightarrow> gofile \<Rightarrow> 'w prov" where
  "gofile_prov c p = \<lparr>pr_name = ''gofile'', pr_max = 100 * 2 ^ 30, pr_durable = True, pr_upload = gofile_Upload c p,
     pr_download = gofile_Download c, pr_delete = gofile_Delete c p\<rparr>"

subsection \<open>Filebin\<close>

definition filebin_host :: string where
  "filebin_host = ''https://filebin.net''"

definition filebin_bin :: "string \<Rightarrow> string" where
  "filebin_bin filename = ''free-s3-'' @ key_hash filename"

definition filebin_Upload :: "'w client \<Rightarrow> bytes \<Rightarrow> string \<Rightarrow> string \<Rightarrow> ('w, string \<times> string) act" where
  "filebin_Upload c data filename contentType =
     (let bin = filebin_bin filename;
          url = filebin_host @ ''/'' @ bin @ ''/'' @ binName filename
      in bindE (sendBytes c ''POST'' url data [(''Content-Type'', contentType), (''Accept'', ''application/json'')]
             (\<lambda>status body. if \<not> success status then Inl (arrow_fail (''filebin: POST '' @ url) status body) else Inr ()))
           (\<lambda>_. retE (url, bin)))"

definition filebinVerifiedCookie :: string where
  "filebinVerifiedCookie = ''verified=2024-05-24''"

definition filebin_Delete :: "'w client \<Rightarrow> string \<Rightarrow> string \<Rightarrow> ('w, unit) act" where
  "filebin_Delete c locator tok =
     (if tok = [] then retE ()
      else check_status (arrow_fail (''filebin delete '' @ tok)) (deleteWithHeaders c (filebin_host @ ''/'' @ tok) []))"

definition filebin_Download :: "'w client \<Rightarrow> string \<Rightarrow> int \<Rightarrow> int \<Rightarrow> ('w, body) act" where
  "filebin_Download c loc off len = rangeGet c loc off len [(''Cookie'', filebinVerifiedCookie)]"

definition filebin_prov :: "'w client \<Rightarrow> 'w prov" where
  "filebin_prov c = \<lparr>pr_name = ''filebin.net'', pr_max = 5 * 2 ^ 30, pr_durable = False, pr_upload = filebin_Upload c,
     pr_download = filebin_Download c, pr_delete = filebin_Delete c\<rparr>"

subsection \<open>Fileditch\<close>

definition fileditch_Upload :: "'w client \<Rightarrow> bytes \<Rightarrow> string \<Rightarrow> string \<Rightarrow> ('w, string \<times> string) act" where
  "fileditch_Upload c data filename contentType =
     located (uploadMultipart c ''https://new.fileditch.com/upload.php'' [] ''file'' (binName filename) contentType data []
       (\<lambda>status body.
          if \<not> success status then Inl (http_fail ''fileditch'' status body)
          else (case (case unmarshal c body of None \<Rightarrow> None
              | Some r \<Rightarrow>
                  (case (j_string ''url'' r, j_urls r) of
                     (Some u, Some us) \<Rightarrow> if j_bool_ok (j_field ''success'' r) then Some (u, us) else None
                   | _ \<Rightarrow> None)) of
             None \<Rightarrow> Inl (ErrMsg (''fileditch: non-JSON body: '' @ body))
           | Some (u, us) \<Rightarrow>
               let url = (if u = [] \<and> us \<noteq> [] then hd us else u) in
               if \<not> HasPrefix url ''https://'' then Inl (ErrMsg (''fileditch: no url in response: '' @ body))
               else Inr url)))"

text \<open>
  The regular expression of the signed link: \<^verbatim>\<open>https://\<close>, at least one character that is no quote or blank
  up to the first \<^verbatim>\<open>?md5=\<close> or \<^verbatim>\<open>&md5=\<close>, and the rest of that run, which is not empty. The match starts as
  far left as possible.
\<close>

definition link_char :: "char \<Rightarrow> bool" where
  "link_char ch \<longleftrightarrow> ch \<notin> {CHR 0x22, CHR 0x27, CHR 0x09, CHR 0x0A, CHR 0x0C, CHR 0x0D, CHR 0x20}"

fun md5_mark :: "string \<Rightarrow> bool" where
  "md5_mark [] = False"
| "md5_mark (ch # cs) \<longleftrightarrow> (ch = CHR ''?'' \<or> ch = CHR ''&'') \<and> HasPrefix cs ''md5='' \<and> length cs > 4 \<or> md5_mark cs"

definition direct_at :: "string \<Rightarrow> string option" where
  "direct_at s =
     (if \<not> HasPrefix s ''https://'' then None
      else let run = takeWhile link_char (drop 8 s) in
        if run \<noteq> [] \<and> md5_mark (tl run) then Some (''https://'' @ run) else None)"

fun find_direct :: "string \<Rightarrow> string" where
  "find_direct [] = []"
| "find_direct (ch # cs) = (case direct_at (ch # cs) of Some m \<Rightarrow> m | None \<Rightarrow> find_direct cs)"

text \<open>\<^verbatim>\<open>strings.Replace\<close> with a limit on the number of replacements; \<^verbatim>\<open>ReplaceAll\<close> has none.\<close>

function replace_n :: "nat option \<Rightarrow> string \<Rightarrow> string \<Rightarrow> string \<Rightarrow> string" where
  "replace_n n s old new =
     (if old = [] \<or> s = [] \<or> n = Some 0 then s
      else if HasPrefix s old then new @ replace_n (map_option (\<lambda>i. i - 1) n) (drop (length old) s) old new
      else hd s # replace_n n (tl s) old new)"
  by pat_completeness auto
termination by (relation "measure (\<lambda>(n, s, old, new). length s)") auto

declare replace_n.simps [simp del]

definition resolveDirect :: "'w client \<Rightarrow> string \<Rightarrow> ('w, string) act" where
  "resolveDirect c landing w =
     (case getString c landing (2 ^ 20) w of
        (Inl e, w') \<Rightarrow> (Inl (ErrWrap (''fileditch: fetch landing '' @ landing) e), w')
      | (Inr html, w') \<Rightarrow>
          let m = find_direct html in
          if m = [] then (Inl (ErrMsg (''fileditch: no signed direct link in landing page '' @ landing)), w')
          else (Inr (replace_n None m ''&amp;'' ''&''), w'))"

definition fileditch_Download :: "'w client \<Rightarrow> string \<Rightarrow> int \<Rightarrow> int \<Rightarrow> ('w, body) act" where
  "fileditch_Download c locator off len = bindE (resolveDirect c locator) (\<lambda>direct. rangeGet c direct off len [])"

definition fileditch_prov :: "'w client \<Rightarrow> 'w prov" where
  "fileditch_prov c = \<lparr>pr_name = ''fileditch'', pr_max = 100 * 2 ^ 30, pr_durable = True, pr_upload = fileditch_Upload c,
     pr_download = fileditch_Download c, pr_delete = no_delete\<rparr>"

subsection \<open>The pomf family\<close>

record pomf =
  pf_name :: string
  pf_endpoint :: string
  pf_max :: int
  pf_durable :: bool

definition NewPomfLainLa :: pomf where
  "NewPomfLainLa = \<lparr>pf_name = ''pomf.lain.la'', pf_endpoint = ''https://pomf.lain.la/upload.php'', pf_max = 1 * 2 ^ 30, pf_durable = True\<rparr>"

definition NewUguu :: pomf where
  "NewUguu = \<lparr>pf_name = ''uguu'', pf_endpoint = ''https://uguu.se/upload'', pf_max = 128 * 2 ^ 20, pf_durable = False\<rparr>"

definition NewTmpNinja :: pomf where
  "NewTmpNinja = \<lparr>pf_name = ''tmp.ninja'', pf_endpoint = ''https://tmp.ninja/upload.php'', pf_max = 10 * 2 ^ 30, pf_durable = False\<rparr>"

definition NewDokoMoe :: pomf where
  "NewDokoMoe = \<lparr>pf_name = ''doko.moe'', pf_endpoint = ''https://doko.moe/upload.php'', pf_max = 2 * 2 ^ 30, pf_durable = False\<rparr>"

definition NewCockfile :: pomf where
  "NewCockfile = \<lparr>pf_name = ''cockfile'', pf_endpoint = ''https://cockfile.com/upload.php'', pf_max = 128 * 2 ^ 20, pf_durable = False\<rparr>"

definition pomf_Upload :: "'w client \<Rightarrow> pomf \<Rightarrow> bytes \<Rightarrow> string \<Rightarrow> string \<Rightarrow> ('w, string \<times> string) act" where
  "pomf_Upload c p data filename contentType =
     located (uploadMultipart c (pf_endpoint p) [] ''files[]'' (binName filename) contentType data []
       (\<lambda>status body.
          if \<not> success status then Inl (http_fail (pf_name p) status body)
          else
            let bad = Inl (ErrMsg (pf_name p @ '': no files[].url: '' @ body)) in
            (case unmarshal c body of
               None \<Rightarrow> bad
             | Some r \<Rightarrow>
                 (case j_urls r of
                    Some (u # _) \<Rightarrow>
                      if j_bool_ok (j_field ''success'' r) \<and> HasPrefix u ''http'' then Inr u else bad
                  | _ \<Rightarrow> bad))))"

definition pomf_Download :: "'w client \<Rightarrow> string \<Rightarrow> int \<Rightarrow> int \<Rightarrow> ('w, body) act" where
  "pomf_Download c loc off len = rangeGet c loc off len []"

definition pomf_prov :: "'w client \<Rightarrow> pomf \<Rightarrow> 'w prov" where
  "pomf_prov c p = \<lparr>pr_name = pf_name p, pr_max = pf_max p, pr_durable = pf_durable p, pr_upload = pomf_Upload c p,
     pr_download = pomf_Download c, pr_delete = no_delete\<rparr>"

subsection \<open>The 0x0 family\<close>

record zerox =
  zx_name :: string
  zx_host :: string
  zx_field :: string
  zx_max :: int
  zx_durable :: bool
  zx_token :: bool

definition NewX0 :: zerox where
  "NewX0 = \<lparr>zx_name = ''x0.at'', zx_host = ''https://x0.at'', zx_field = ''file'', zx_max = 1 * 2 ^ 30, zx_durable = True, zx_token = True\<rparr>"

definition NewEnvsSh :: zerox where
  "NewEnvsSh = \<lparr>zx_name = ''envs.sh'', zx_host = ''https://envs.sh'', zx_field = ''file'', zx_max = 256 * 2 ^ 20, zx_durable = False, zx_token = True\<rparr>"

definition NewTtmSh :: zerox where
  "NewTtmSh = \<lparr>zx_name = ''ttm.sh'', zx_host = ''https://ttm.sh'', zx_field = ''file'', zx_max = 256 * 2 ^ 20, zx_durable = False, zx_token = True\<rparr>"

definition zerox_Upload :: "'w client \<Rightarrow> zerox \<Rightarrow> bytes \<Rightarrow> string \<Rightarrow> string \<Rightarrow> ('w, string \<times> string) act" where
  "zerox_Upload c p data filename contentType =
     bindE (uploadMultipart c (zx_host p @ ''/'') [] (zx_field p) (binName filename) contentType data []
         (\<lambda>status body. if \<not> success status \<or> \<not> HasPrefix body (zx_host p) then Inl (body_fail (zx_name p) status body)
            else Inr (TrimSpace body)))
       (\<lambda>(locator, _, h). retE (locator, if zx_token p then header_value h ''X-Token'' else []))"

definition zerox_Delete :: "'w client \<Rightarrow> zerox \<Rightarrow> string \<Rightarrow> string \<Rightarrow> ('w, unit) act" where
  "zerox_Delete c p locator tok =
     (if \<not> zx_token p \<or> tok = [] then retE ()
      else check_status (http_fail (zx_name p @ '' delete'')) (postForm c locator [(''token'', tok), (''delete'', [])]))"

definition zerox_Download :: "'w client \<Rightarrow> string \<Rightarrow> int \<Rightarrow> int \<Rightarrow> ('w, body) act" where
  "zerox_Download c loc off len = rangeGet c loc off len []"

definition zerox_prov :: "'w client \<Rightarrow> zerox \<Rightarrow> 'w prov" where
  "zerox_prov c p = \<lparr>pr_name = zx_name p, pr_max = zx_max p, pr_durable = zx_durable p, pr_upload = zerox_Upload c p,
     pr_download = zerox_Download c, pr_delete = zerox_Delete c p\<rparr>"

subsection \<open>Buzzheavier\<close>

record buzz =
  bz_token :: string
  bz_putHost :: string
  bz_dlBase :: string

definition NewBuzzheavier :: "string \<Rightarrow> buzz" where
  "NewBuzzheavier token = \<lparr>bz_token = token, bz_putHost = ''https://w.buzzheavier.com'', bz_dlBase = ''https://buzzheavier.com''\<rparr>"

definition buzzheavier_Upload :: "'w client \<Rightarrow> buzz \<Rightarrow> bytes \<Rightarrow> string \<Rightarrow> string \<Rightarrow> ('w, string \<times> string) act" where
  "buzzheavier_Upload c p data filename contentType =
     (let url = bz_putHost p @ ''/'' @ binName filename;
          headers = (''Content-Type'', contentType) #
            (if bz_token p \<noteq> [] then [(''Authorization'', ''Bearer '' @ bz_token p)] else [])
      in bindE (sendBytes c ''PUT'' url data headers
             (\<lambda>status body.
                if \<not> success status then Inl (arrow_fail (''buzzheavier: PUT '' @ url) status body)
                else
                  let bad = Inl (ErrMsg (''buzzheavier: no id in response: '' @ body)) in
                  (case unmarshal c body of
                     None \<Rightarrow> bad
                   | Some r \<Rightarrow>
                       (case j_struct ''data'' r of
                          None \<Rightarrow> bad
                        | Some d \<Rightarrow>
                            (case j_string ''id'' d of None \<Rightarrow> bad | Some i \<Rightarrow> if i = [] then bad else Inr i)))))
           (\<lambda>(i, _). retE (bz_dlBase p @ ''/'' @ i @ ''/download'', [])))"

definition buzzheavier_Delete :: "'w client \<Rightarrow> buzz \<Rightarrow> string \<Rightarrow> string \<Rightarrow> ('w, unit) act" where
  "buzzheavier_Delete c p locator tok =
     (let i = basename (TrimSuffix locator ''/download'') in
      if bz_token p = [] then retE ()
      else if i = [] then retE ()
      else check_status (arrow_fail (''buzzheavier delete '' @ i))
        (deleteWithHeaders c (bz_dlBase p @ ''/'' @ i) [(''Authorization'', ''Bearer '' @ bz_token p)]))"

definition buzzheavier_Download :: "'w client \<Rightarrow> string \<Rightarrow> int \<Rightarrow> int \<Rightarrow> ('w, body) act" where
  "buzzheavier_Download c loc off len = rangeGet c loc off len []"

definition buzzheavier_prov :: "'w client \<Rightarrow> buzz \<Rightarrow> 'w prov" where
  "buzzheavier_prov c p = \<lparr>pr_name = ''buzzheavier'', pr_max = 100 * 2 ^ 30, pr_durable = True, pr_upload = buzzheavier_Upload c p,
     pr_download = buzzheavier_Download c, pr_delete = buzzheavier_Delete c p\<rparr>"

subsection \<open>Temporary hosts\<close>

definition tempsh_Upload :: "'w client \<Rightarrow> bytes \<Rightarrow> string \<Rightarrow> string \<Rightarrow> ('w, string \<times> string) act" where
  "tempsh_Upload c data filename contentType =
     located (uploadMultipart c ''https://temp.sh/upload'' [] ''file'' (binName filename) contentType data []
       (\<lambda>status body. if \<not> success status \<or> \<not> HasPrefix body ''http'' then Inl (body_fail ''temp.sh'' status body)
          else Inr (TrimSpace body)))"

definition tempsh_Download :: "'w client \<Rightarrow> string \<Rightarrow> int \<Rightarrow> int \<Rightarrow> ('w, body) act" where
  "tempsh_Download c loc off len = rangeGetMethod c ''POST'' loc off len []"

definition tempsh_prov :: "'w client \<Rightarrow> 'w prov" where
  "tempsh_prov c = \<lparr>pr_name = ''temp.sh'', pr_max = 4 * 2 ^ 30, pr_durable = False, pr_upload = tempsh_Upload c,
     pr_download = tempsh_Download c, pr_delete = no_delete\<rparr>"

definition litterbox_Upload :: "'w client \<Rightarrow> bytes \<Rightarrow> string \<Rightarrow> string \<Rightarrow> ('w, string \<times> string) act" where
  "litterbox_Upload c data filename contentType =
     located (uploadMultipart c ''https://litterbox.catbox.moe/resources/internals/api.php''
       [(''reqtype'', ''fileupload''), (''time'', ''72h'')] ''fileToUpload'' (binName filename) contentType data []
       (\<lambda>status body. if \<not> success status \<or> \<not> HasPrefix body ''https://litter.catbox.moe/''
          then Inl (body_fail ''litterbox'' status body) else Inr (TrimSpace body)))"

definition litterbox_Download :: "'w client \<Rightarrow> string \<Rightarrow> int \<Rightarrow> int \<Rightarrow> ('w, body) act" where
  "litterbox_Download c loc off len = rangeGet c loc off len []"

definition litterbox_prov :: "'w client \<Rightarrow> 'w prov" where
  "litterbox_prov c = \<lparr>pr_name = ''litterbox'', pr_max = 1 * 2 ^ 30, pr_durable = False, pr_upload = litterbox_Upload c,
     pr_download = litterbox_Download c, pr_delete = no_delete\<rparr>"

definition tmpfiles_Upload :: "'w client \<Rightarrow> bytes \<Rightarrow> string \<Rightarrow> string \<Rightarrow> ('w, string \<times> string) act" where
  "tmpfiles_Upload c data filename contentType =
     located (uploadMultipart c ''https://tmpfiles.org/api/v1/upload'' [] ''file'' (binName filename) contentType data []
       (\<lambda>status body.
          let bad = Inl (ErrMsg (''tmpfiles: HTTP '' @ FormatInt status @ '' bad body='' @ body)) in
          (case unmarshal c body of
             None \<Rightarrow> bad
           | Some r \<Rightarrow>
               (case j_struct ''data'' r of
                  None \<Rightarrow> bad
                | Some d \<Rightarrow>
                    (case j_string ''url'' d of
                       None \<Rightarrow> bad
                     | Some u \<Rightarrow>
                         if \<not> Contains u ''tmpfiles.org/'' then bad
                         else Inr (replace_n (Some 1) u ''tmpfiles.org/'' ''tmpfiles.org/dl/''))))))"

definition tmpfiles_Download :: "'w client \<Rightarrow> string \<Rightarrow> int \<Rightarrow> int \<Rightarrow> ('w, body) act" where
  "tmpfiles_Download c loc off len = rangeGet c loc off len []"

definition tmpfiles_prov :: "'w client \<Rightarrow> 'w prov" where
  "tmpfiles_prov c = \<lparr>pr_name = ''tmpfiles.org'', pr_max = 100 * 2 ^ 20, pr_durable = False, pr_upload = tmpfiles_Upload c,
     pr_download = tmpfiles_Download c, pr_delete = no_delete\<rparr>"

definition tmpfilelink_Upload :: "'w client \<Rightarrow> bytes \<Rightarrow> string \<Rightarrow> string \<Rightarrow> ('w, string \<times> string) act" where
  "tmpfilelink_Upload c data filename contentType =
     located (uploadMultipart c ''https://tmpfile.link/api/upload'' [] ''file'' (binName filename) contentType data []
       (\<lambda>status body.
          let bad = Inl (ErrMsg (''tmpfile.link: HTTP '' @ FormatInt status @ '' bad body='' @ body)) in
          (case unmarshal c body of
             None \<Rightarrow> bad
           | Some r \<Rightarrow>
               (case j_string ''downloadLink'' r of
                  None \<Rightarrow> bad
                | Some l \<Rightarrow> if \<not> HasPrefix l ''http'' then bad else Inr l))))"

definition tmpfilelink_Download :: "'w client \<Rightarrow> string \<Rightarrow> int \<Rightarrow> int \<Rightarrow> ('w, body) act" where
  "tmpfilelink_Download c loc off len = rangeGet c loc off len []"

definition tmpfilelink_prov :: "'w client \<Rightarrow> 'w prov" where
  "tmpfilelink_prov c = \<lparr>pr_name = ''tmpfile.link'', pr_max = 100 * 2 ^ 20, pr_durable = False, pr_upload = tmpfilelink_Upload c,
     pr_download = tmpfilelink_Download c, pr_delete = no_delete\<rparr>"

definition paste_Upload :: "'w client \<Rightarrow> bytes \<Rightarrow> string \<Rightarrow> string \<Rightarrow> ('w, string \<times> string) act" where
  "paste_Upload c data filename contentType =
     located (sendBytes c ''PUT'' ''https://paste.c-net.org/'' data [(''Content-Type'', contentType)]
       (\<lambda>status body. if \<not> success status \<or> \<not> HasPrefix body ''http'' then Inl (body_fail ''paste.c-net.org'' status body)
          else Inr (TrimSpace body)))"

definition paste_Download :: "'w client \<Rightarrow> string \<Rightarrow> int \<Rightarrow> int \<Rightarrow> ('w, body) act" where
  "paste_Download c loc off len = rangeGet c loc off len []"

definition paste_prov :: "'w client \<Rightarrow> 'w prov" where
  "paste_prov c = \<lparr>pr_name = ''paste.c-net.org'', pr_max = 50 * 2 ^ 20, pr_durable = True, pr_upload = paste_Upload c,
     pr_download = paste_Download c, pr_delete = no_delete\<rparr>"

section \<open>The registry\<close>

record credentials =
  cr_catbox :: string
  cr_pixeldrain :: string
  cr_iaAccess :: string
  cr_iaSecret :: string
  cr_gofile :: string

definition defaultProviderOrder :: "string list" where
  "defaultProviderOrder = [''x0.at'', ''fileditch'', ''ia'', ''pixeldrain'', ''catbox'', ''uguu'', ''tmpfiles.org'',
     ''tmpfile.link'', ''temp.sh'', ''filebin.net'', ''litterbox'']"

text \<open>The factories by name; a factory gives \<open>None\<close> when its credential is missing.\<close>

definition registry :: "(string \<times> ('w client \<Rightarrow> credentials \<Rightarrow> 'w prov option)) list" where
  "registry =
    [(''ia'', \<lambda>c cr. if cr_iaAccess cr = [] \<or> cr_iaSecret cr = [] then None
        else Some (ia_prov c (NewIA (cr_iaAccess cr) (cr_iaSecret cr)))),
     (''fileditch'', \<lambda>c cr. Some (fileditch_prov c)),
     (''pixeldrain'', \<lambda>c cr. Some (pixeldrain_prov c (NewPixeldrain (cr_pixeldrain cr)))),
     (''catbox'', \<lambda>c cr. Some (catbox_prov c (NewCatbox (cr_catbox cr)))),
     (''buzzheavier'', \<lambda>c cr. Some (buzzheavier_prov c (NewBuzzheavier []))),
     (''gofile'', \<lambda>c cr. if cr_gofile cr = [] then None else Some (gofile_prov c (NewGofile (cr_gofile cr)))),
     (''x0.at'', \<lambda>c cr. Some (zerox_prov c NewX0)),
     (''envs.sh'', \<lambda>c cr. Some (zerox_prov c NewEnvsSh)),
     (''ttm.sh'', \<lambda>c cr. Some (zerox_prov c NewTtmSh)),
     (''pomf.lain.la'', \<lambda>c cr. Some (pomf_prov c NewPomfLainLa)),
     (''uguu'', \<lambda>c cr. Some (pomf_prov c NewUguu)),
     (''tmp.ninja'', \<lambda>c cr. Some (pomf_prov c NewTmpNinja)),
     (''doko.moe'', \<lambda>c cr. Some (pomf_prov c NewDokoMoe)),
     (''cockfile'', \<lambda>c cr. Some (pomf_prov c NewCockfile)),
     (''temp.sh'', \<lambda>c cr. Some (tempsh_prov c)),
     (''litterbox'', \<lambda>c cr. Some (litterbox_prov c)),
     (''tmpfiles.org'', \<lambda>c cr. Some (tmpfiles_prov c)),
     (''tmpfile.link'', \<lambda>c cr. Some (tmpfilelink_prov c)),
     (''filebin.net'', \<lambda>c cr. Some (filebin_prov c)),
     (''paste.c-net.org'', \<lambda>c cr. Some (paste_prov c))]"

fun build_loop :: "'w client \<Rightarrow> credentials \<Rightarrow> string list \<Rightarrow> string set \<Rightarrow> 'w prov list" where
  "build_loop c creds [] seen = []"
| "build_loop c creds (name # names) seen =
     (if name \<in> seen then build_loop c creds names seen
      else (case map_of registry name of
         None \<Rightarrow> build_loop c creds names (insert name seen)
       | Some factory \<Rightarrow>
           (case factory c creds of
              None \<Rightarrow> build_loop c creds names (insert name seen)
            | Some p \<Rightarrow> p # build_loop c creds names (insert name seen))))"

definition BuildProviders :: "'w client \<Rightarrow> string list \<Rightarrow> credentials \<Rightarrow> 'w prov list" where
  "BuildProviders c names creds = build_loop c creds (if names = [] then defaultProviderOrder else names) {}"

text \<open>What the pool knows of a provider, and the calls that go through it by name.\<close>

definition prov_entry :: "'w prov \<Rightarrow> provider" where
  "prov_entry p = \<lparr>pv_name = pr_name p, pv_max = pr_max p, pv_durable = pr_durable p\<rparr>"

definition find_prov :: "'w prov list \<Rightarrow> string \<Rightarrow> 'w prov option" where
  "find_prov ps n = List.find (\<lambda>p. pr_name p = n) ps"

definition provider_hosts :: "'w prov list \<Rightarrow> 'w hosts" where
  "provider_hosts ps = \<lparr>
     h_upload = (\<lambda>n data filename ct w. case find_prov ps n of None \<Rightarrow> (Inl ErrNotFound, w) | Some p \<Rightarrow> pr_upload p data filename ct w),
     h_download = (\<lambda>n loc off len w. case find_prov ps n of None \<Rightarrow> (Inl ErrNotFound, w) | Some p \<Rightarrow> pr_download p loc off len w),
     h_delete = (\<lambda>n loc tok w. case find_prov ps n of None \<Rightarrow> (Inl ErrNotFound, w) | Some p \<Rightarrow> pr_delete p loc tok w)\<rparr>"

section \<open>What the registry builds\<close>

lemma registry_distinct: "distinct (map fst registry)"
  by (simp add: registry_def)

lemma registry_name:
  assumes "map_of registry n = Some f" and "f c creds = Some p"
  shows "pr_name p = n"
proof -
  have "(n, f) \<in> set registry" using assms(1) by (rule map_of_SomeD)
  then show ?thesis
    using assms(2) unfolding registry_def
    by (elim set_ConsD [elim_format] disjE)
      (auto simp: ia_prov_def fileditch_prov_def pixeldrain_prov_def catbox_prov_def buzzheavier_prov_def gofile_prov_def
        zerox_prov_def NewX0_def NewEnvsSh_def NewTtmSh_def pomf_prov_def NewPomfLainLa_def NewUguu_def NewTmpNinja_def
        NewDokoMoe_def NewCockfile_def tempsh_prov_def litterbox_prov_def tmpfiles_prov_def tmpfilelink_prov_def
        filebin_prov_def paste_prov_def split: if_splits)
qed

definition known :: "string list" where
  "known = [''ia'', ''fileditch'', ''pixeldrain'', ''catbox'', ''buzzheavier'', ''gofile'', ''x0.at'', ''envs.sh'', ''ttm.sh'', ''pomf.lain.la'',
     ''uguu'', ''tmp.ninja'', ''doko.moe'', ''cockfile'', ''temp.sh'', ''litterbox'', ''tmpfiles.org'', ''tmpfile.link'', ''filebin.net'',
     ''paste.c-net.org'']"

definition offered :: "credentials \<Rightarrow> string \<Rightarrow> bool" where
  "offered creds n \<longleftrightarrow> n \<in> set known \<and>
     (n = ''ia'' \<longrightarrow> cr_iaAccess creds \<noteq> [] \<and> cr_iaSecret creds \<noteq> []) \<and> (n = ''gofile'' \<longrightarrow> cr_gofile creds \<noteq> [])"

definition made :: "'w client \<Rightarrow> credentials \<Rightarrow> string \<Rightarrow> 'w prov option" where
  "made c creds n = (case map_of registry n of None \<Rightarrow> None | Some f \<Rightarrow> f c creds)"

lemma made_offered:
  fixes c :: "'w client"
  shows "made c creds n \<noteq> None \<longleftrightarrow> offered creds n"
proof -
  have k: "dom (map_of (registry :: (string \<times> ('w client \<Rightarrow> credentials \<Rightarrow> 'w prov option)) list)) = set known" by (simp add: dom_map_of_conv_image_fst registry_def known_def)
  show ?thesis
  proof (cases "n \<in> set known")
    case True
    then show ?thesis unfolding known_def
      by (elim set_ConsD [elim_format] disjE) (auto simp: made_def offered_def registry_def known_def)
  next
    case False
    with k have "map_of (registry :: (string \<times> ('w client \<Rightarrow> credentials \<Rightarrow> 'w prov option)) list) n = None" by blast
    with False show ?thesis by (simp add: made_def offered_def)
  qed
qed

lemma made_name: "made c creds n = Some p \<Longrightarrow> pr_name p = n"
  using registry_name by (auto simp: made_def split: option.splits)

text \<open>The first occurrences of the elements of a list, without those seen before.\<close>

fun firsts :: "'a set \<Rightarrow> 'a list \<Rightarrow> 'a list" where
  "firsts seen [] = []"
| "firsts seen (x # xs) = (if x \<in> seen then firsts seen xs else x # firsts (insert x seen) xs)"

lemma firsts_distinct: "distinct (firsts seen xs) \<and> set (firsts seen xs) = set xs - seen"
  by (induction seen xs rule: firsts.induct) auto

lemma build_loop_names: "map pr_name (build_loop c creds names seen) = filter (offered creds) (firsts seen names)"
proof (induction c creds names seen rule: build_loop.induct)
  case (2 c creds name names seen)
  show ?case
  proof (cases "made c creds name")
    case None
    then have "\<not> offered creds name" using made_offered by metis
    with None 2 show ?thesis by (auto simp: made_def split: option.splits)
  next
    case (Some p)
    then have "offered creds name" and "pr_name p = name" using made_offered made_name by (metis option.distinct(1))+
    with Some 2 show ?thesis by (auto simp: made_def split: option.splits)
  qed
qed simp

lemma find_prov_map: "distinct (map pr_name ps) \<Longrightarrow> pool_get (newPool (map prov_entry ps)) n = map_option prov_entry (find_prov ps n)"
proof -
  have "fold (\<lambda>p m. m(pv_name p \<mapsto> p)) (map prov_entry ps) m0 n =
      (case List.find (\<lambda>p. pr_name p = n) ps of None \<Rightarrow> m0 n | Some p \<Rightarrow> Some (prov_entry p))"
    if "distinct (map pr_name ps)" for m0 and ps :: "'a prov list"
    using that
  proof (induction ps arbitrary: m0)
    case (Cons p ps)
    have "List.find (\<lambda>q. pr_name q = n) ps = None" if "pr_name p = n"
      using Cons.prems that by (simp add: find_None_iff) (metis image_eqI)
    then show ?case using Cons by (auto simp: prov_entry_def split: option.splits)
  qed simp
  then show "distinct (map pr_name ps) \<Longrightarrow> ?thesis" by (simp add: pool_get_def newPool_def find_prov_def split: option.splits)
qed

section \<open>Properties\<close>

text \<open>
  C36 (type). The registry builds one provider for every requested name that is known and has its
  credential, in the requested order and under that name, so the pool's table by name has each of them
  and a call by name reaches it.
\<close>

theorem build_providers_exact:
  "map pr_name (BuildProviders c names creds) = filter (offered creds) (firsts {} (if names = [] then defaultProviderOrder else names)) \<and>
   distinct (map pr_name (BuildProviders c names creds)) \<and>
   pool_get (newPool (map prov_entry (BuildProviders c names creds))) n = map_option prov_entry (find_prov (BuildProviders c names creds) n)"
proof -
  let ?ps = "BuildProviders c names creds"
  have names: "map pr_name ?ps = filter (offered creds) (firsts {} (if names = [] then defaultProviderOrder else names))"
    unfolding BuildProviders_def by (rule build_loop_names)
  moreover have "distinct (map pr_name ?ps)" unfolding names using firsts_distinct by (metis distinct_filter)
  ultimately show ?thesis using find_prov_map by blast
qed

lemma TrimPrefix_append: "TrimPrefix (a @ b) a = b"
  by (simp add: TrimPrefix_def HasPrefix_def)

lemma ia_Upload_locator:
  assumes "ia_Upload c p data f ct w = (Inr (loc, tok), w')"
  shows "loc = ia_dlBase p @ ''/'' @ ia_itemPfx p @ key_hash f @ ''/'' @ f"
  using assms by (auto simp: ia_Upload_def itemAndFile_def bindE_def retE_def Let_def split: prod.splits sum.splits)


definition open_web :: "string list client" where
  "open_web = \<lparr>wc_do = (\<lambda>req w. (Inr \<lparr>hp_status = 200, hp_header = [], hp_body = ([], None)\<rparr>, w @ [hq_url req])),
     wc_ctx = (\<lambda>_. None), wc_wait = (\<lambda>_ w. (Inr (), w)), wc_boundary = (\<lambda>_. ''b''), wc_json = (\<lambda>_. None)\<rparr>"

lemma open_web_upload:
  "\<exists>loc w'. ia_Upload open_web p data f ct w = (Inr (loc, []), w')"
  by (simp add: ia_Upload_def sendBytes_def retry_def maxAttempts_def eval_nat_numeral send_attempt_def client_do_def open_web_def
      bindE_def retE_def itemAndFile_def Let_def)


end
