(* ===== verification/Config.thy ===== *)
theory Config
  imports Providers SigV4 Complex_Main
begin

text \<open>
  \<^verbatim>\<open>internal/config/config.go\<close> and the start-up of \<^verbatim>\<open>cmd/free-s3/main.go\<close>: the settings from the
  environment, the byte sizes with their units in double precision as the code computes them, and how
  main turns the settings into a backend. \<^verbatim>\<open>os.Getenv\<close> is the function \<open>env\<close>, \<^verbatim>\<open>time.ParseDuration\<close> the
  parameter \<open>parseDur\<close> (nanoseconds).
\<close>

section \<open>Double precision\<close>

text \<open>
  Rounding of a non-negative rational to the nearest double, ties to even: scale into
  \<open>[2^52, 2^53)\<close> (or to the smallest exponent), round to an integer, scale back. \<open>None\<close> is infinity.
\<close>

definition round_even :: "rat \<Rightarrow> int" where
  "round_even x =
     (let f = \<lfloor>x\<rfloor>; d = x - of_int f in
      if d < 1 / 2 then f else if d > 1 / 2 then f + 1 else if even f then f else f + 1)"

fun scale_up :: "nat \<Rightarrow> rat \<Rightarrow> nat" where
  "scale_up 0 q = 0"
| "scale_up (Suc n) q = (if 2 ^ 52 \<le> q then 0 else Suc (scale_up n (q * 2)))"

fun scale_down :: "nat \<Rightarrow> rat \<Rightarrow> nat" where
  "scale_down 0 q = 0"
| "scale_down (Suc n) q = (if q < 2 ^ 53 then 0 else Suc (scale_down n (q / 2)))"

definition f64 :: "rat \<Rightarrow> rat option" where
  "f64 q =
     (if q < 2 ^ 53
      then let k = scale_up 1074 q in Some (of_int (round_even (q * 2 ^ k)) / 2 ^ k)
      else let k = scale_down 1024 q; r = of_int (round_even (q / 2 ^ k)) * 2 ^ k
        in if r \<ge> 2 ^ 1024 then None else Some r)"

section \<open>Byte sizes\<close>

text \<open>
  \<^verbatim>\<open>strconv.ParseFloat\<close> on digits and dots, all that reaches it: digits with at most one dot and at least
  one digit; infinity is its range error.
\<close>

definition num_char :: "char \<Rightarrow> bool" where
  "num_char ch \<longleftrightarrow> ch = CHR ''.'' \<or> (CHR ''0'' \<le> ch \<and> ch \<le> CHR ''9'')"

definition decimal_value :: "string \<Rightarrow> string \<Rightarrow> rat option" where
  "decimal_value whole fr =
     (if whole @ fr = [] then None
      else (case parse_digits 10 (whole @ fr) 0 of
         None \<Rightarrow> None | Some n \<Rightarrow> Some (of_nat n / 10 ^ length fr)))"

definition ParseFloat :: "string \<Rightarrow> rat option" where
  "ParseFloat s =
     (let whole = takeWhile (\<lambda>ch. ch \<noteq> CHR ''.'') s;
          rest = dropWhile (\<lambda>ch. ch \<noteq> CHR ''.'') s
      in case decimal_value whole (case rest of [] \<Rightarrow> [] | _ # fr \<Rightarrow> fr) of
           None \<Rightarrow> None | Some q \<Rightarrow> f64 q)"

definition byte_units :: "(string \<times> nat) list" where
  "byte_units = [([], 1), (''b'', 1), (''k'', 1000), (''kb'', 1000), (''m'', 1000 * 1000), (''mb'', 1000 * 1000),
     (''g'', 1000 * 1000 * 1000), (''gb'', 1000 * 1000 * 1000), (''kib'', 1024), (''mib'', 1024 * 1024),
     (''gib'', 1024 * 1024 * 1024)]"

text \<open>
  The conversion to \<^verbatim>\<open>int64\<close> drops the fraction; what it gives for a value out of range depends on the
  platform and is the parameter \<open>wild\<close>.
\<close>

definition parseBytes :: "int \<Rightarrow> string \<Rightarrow> int option" where
  "parseBytes wild s0 =
     (let s = TrimSpace s0;
          numStr = takeWhile num_char s;
          unit = TrimSpace (ToLower (dropWhile num_char s))
      in case ParseFloat numStr of
           None \<Rightarrow> None
         | Some num \<Rightarrow>
             (case map_of byte_units unit of
                None \<Rightarrow> None
              | Some m \<Rightarrow>
                  (case f64 (num * of_nat m) of
                     None \<Rightarrow> Some wild
                   | Some v \<Rightarrow> if v < 2 ^ 63 then Some \<lfloor>v\<rfloor> else Some wild)))"

section \<open>Reading the environment\<close>

definition parseCSVList :: "string \<Rightarrow> string list" where
  "parseCSVList raw =
     (if TrimSpace raw = [] then []
      else filter (\<lambda>t. t \<noteq> []) (map TrimSpace (Split CHR '','' raw)))"

definition getenv :: "(string \<Rightarrow> string) \<Rightarrow> string \<Rightarrow> string \<Rightarrow> string" where
  "getenv env key fallback = (if env key \<noteq> [] then env key else fallback)"

definition getDuration :: "(string \<Rightarrow> string) \<Rightarrow> (string \<Rightarrow> time option) \<Rightarrow> string \<Rightarrow> time \<Rightarrow> time" where
  "getDuration env parseDur key fallback =
     (if env key \<noteq> [] then (case parseDur (env key) of Some d \<Rightarrow> d | None \<Rightarrow> fallback) else fallback)"

definition getInt :: "(string \<Rightarrow> string) \<Rightarrow> string \<Rightarrow> int \<Rightarrow> int" where
  "getInt env key fallback =
     (if env key \<noteq> []
      then (case Atoi (env key) of (n, err) \<Rightarrow> if err = None \<and> n > 0 then n else fallback)
      else fallback)"

definition getBytes :: "(string \<Rightarrow> string) \<Rightarrow> int \<Rightarrow> string \<Rightarrow> int \<Rightarrow> int" where
  "getBytes env wild key fallback =
     (let val = TrimSpace (env key) in
      if val = [] then fallback
      else (case parseBytes wild val of Some n \<Rightarrow> if n > 0 then n else fallback | None \<Rightarrow> fallback))"

record config =
  cf_ListenAddr :: string
  cf_DatabasePath :: string
  cf_AccessKeyID :: string
  cf_SecretAccessKey :: string
  cf_PublicEndpointURL :: string
  cf_MultipartTTL :: time
  cf_MultipartSweepInterval :: time
  cf_HTTPMaxIdleConnsPerHost :: int
  cf_SQLiteReaderConns :: int
  cf_StreamConcurrency :: int
  cf_StreamBuffers :: int
  cf_ChunkTimeout :: time
  cf_StreamChunkSize :: int
  cf_ReplicaReadTimeout :: time
  cf_ReadHedgeDelay :: time
  cf_ReplicationFactor :: int
  cf_SyncReplicas :: int
  cf_ChunkSize :: int
  cf_FreehostProviders :: "string list"
  cf_UploadConcurrency :: int
  cf_KeepaliveInterval :: time
  cf_CatboxUserhash :: string
  cf_PixeldrainAPIKey :: string
  cf_IAAccessKey :: string
  cf_IASecretKey :: string
  cf_GofileToken :: string

definition Load :: "(string \<Rightarrow> string) \<Rightarrow> (string \<Rightarrow> time option) \<Rightarrow> int \<Rightarrow> goerr + config" where
  "Load env parseDur wild =
     (let cfg = \<lparr>
        cf_ListenAddr = getenv env ''LISTEN_ADDR'' '':9000'',
        cf_DatabasePath = getenv env ''DATABASE_PATH'' ''free-s3.db'',
        cf_AccessKeyID = env ''S3_ACCESS_KEY_ID'',
        cf_SecretAccessKey = env ''S3_SECRET_ACCESS_KEY'',
        cf_PublicEndpointURL = env ''PUBLIC_ENDPOINT_URL'',
        cf_MultipartTTL = getDuration env parseDur ''MULTIPART_TTL'' (7 * 24 * 3600 * second),
        cf_MultipartSweepInterval = getDuration env parseDur ''MULTIPART_SWEEP_INTERVAL'' (3600 * second),
        cf_HTTPMaxIdleConnsPerHost = getInt env ''HTTP_MAX_IDLE_CONNS_PER_HOST'' 32,
        cf_SQLiteReaderConns = getInt env ''SQLITE_READER_CONNS'' 8,
        cf_StreamConcurrency = getInt env ''STREAM_CONCURRENCY'' 4,
        cf_StreamBuffers = getInt env ''STREAM_BUFFERS'' 8,
        cf_ChunkTimeout = getDuration env parseDur ''CHUNK_TIMEOUT'' (60 * second),
        cf_StreamChunkSize = getBytes env wild ''STREAM_CHUNK_SIZE'' (4 * 2 ^ 20),
        cf_ReplicaReadTimeout = getDuration env parseDur ''REPLICA_READ_TIMEOUT'' (18 * second),
        cf_ReadHedgeDelay = getDuration env parseDur ''READ_HEDGE_DELAY'' (2 * second),
        cf_ReplicationFactor = getInt env ''REPLICATION_FACTOR'' 3,
        cf_SyncReplicas = getInt env ''SYNC_REPLICAS'' 0,
        cf_ChunkSize = getBytes env wild ''CHUNK_SIZE'' (80 * 2 ^ 20),
        cf_FreehostProviders = parseCSVList (env ''FREEHOST_PROVIDERS''),
        cf_UploadConcurrency = getInt env ''UPLOAD_CONCURRENCY'' 6,
        cf_KeepaliveInterval = getDuration env parseDur ''KEEPALIVE_INTERVAL'' (24 * 3600 * second),
        cf_CatboxUserhash = env ''CATBOX_USERHASH'',
        cf_PixeldrainAPIKey = env ''PIXELDRAIN_API_KEY'',
        cf_IAAccessKey = env ''IA_ACCESS_KEY'',
        cf_IASecretKey = env ''IA_SECRET_KEY'',
        cf_GofileToken = env ''GOFILE_TOKEN''\<rparr>
      in if cf_AccessKeyID cfg = [] then Inl (ErrMsg ''S3_ACCESS_KEY_ID is required'')
         else if cf_SecretAccessKey cfg = [] then Inl (ErrMsg ''S3_SECRET_ACCESS_KEY is required'')
         else if cf_ReplicationFactor cfg < 1 then Inl (ErrMsg ''REPLICATION_FACTOR must be >= 1'')
         else Inr cfg)"

section \<open>Start-up\<close>

datatype log_level = LevelDebug | LevelInfo | LevelWarn | LevelError

definition logLevel :: "(string \<Rightarrow> string) \<Rightarrow> log_level" where
  "logLevel env =
     (let l = ToLower (TrimSpace (env ''LOG_LEVEL'')) in
      if l = ''debug'' then LevelDebug
      else if l = ''warn'' \<or> l = ''warning'' then LevelWarn
      else if l = ''error'' then LevelError
      else LevelInfo)"

definition cfg_credentials :: "config \<Rightarrow> credentials" where
  "cfg_credentials cfg = \<lparr>cr_catbox = cf_CatboxUserhash cfg, cr_pixeldrain = cf_PixeldrainAPIKey cfg,
     cr_iaAccess = cf_IAAccessKey cfg, cr_iaSecret = cf_IASecretKey cfg, cr_gofile = cf_GofileToken cfg\<rparr>"

definition sync_replicas :: "config \<Rightarrow> int" where
  "sync_replicas cfg =
     (if cf_SyncReplicas cfg \<le> 0
      then (if cf_ReplicationFactor cfg < 2 then cf_ReplicationFactor cfg else 2)
      else cf_SyncReplicas cfg)"

text \<open>\<^verbatim>\<open>NewHandler\<close>: the host name of the public endpoint, with \<^verbatim>\<open>url.Parse\<close> and \<^verbatim>\<open>Hostname\<close> as a parameter.\<close>

definition NewHandler :: "(string \<Rightarrow> string option) \<Rightarrow> config \<Rightarrow> auth_cfg" where
  "NewHandler hostname cfg = \<lparr>ac_access = cf_AccessKeyID cfg, ac_secret = cf_SecretAccessKey cfg,
     ac_host = (if cf_PublicEndpointURL cfg \<noteq> []
       then (case hostname (cf_PublicEndpointURL cfg) of Some h \<Rightarrow> ToLower h | None \<Rightarrow> []) else [])\<rparr>"

record 'w started =
  sd_auth :: auth_cfg
  sd_provs :: "'w prov list"
  sd_bcfg :: bcfg
  sd_pool :: pool
  sd_streamChunk :: int
  sd_janitor :: "(time \<times> time) option"
  sd_keepalive :: "time option"

text \<open>
  main up to the server loop: \<open>openStore\<close> is the outcome of opening the database. An error ends the
  process.
\<close>

definition main_start :: "(string \<Rightarrow> string) \<Rightarrow> (string \<Rightarrow> time option) \<Rightarrow> int \<Rightarrow> (string \<Rightarrow> int \<Rightarrow> goerr option) \<Rightarrow>
    (string \<Rightarrow> string option) \<Rightarrow> 'w client \<Rightarrow> goerr + 'w started" where
  "main_start env parseDur wild openStore hostname c =
     (case Load env parseDur wild of
        Inl e \<Rightarrow> Inl e
      | Inr cfg \<Rightarrow>
          (case openStore (cf_DatabasePath cfg) (cf_SQLiteReaderConns cfg) of
             Some e \<Rightarrow> Inl e
           | None \<Rightarrow>
               let provs = BuildProviders c (cf_FreehostProviders cfg) (cfg_credentials cfg) in
               (case NewBackend \<lparr>op_providers = map prov_entry provs, op_chunkSize = cf_ChunkSize cfg,
                    op_replication = cf_ReplicationFactor cfg, op_sync = sync_replicas cfg,
                    op_conc = cf_UploadConcurrency cfg\<rparr> of
                  Inl e \<Rightarrow> Inl e
                | Inr (bc, p) \<Rightarrow>
                    Inr \<lparr>sd_auth = NewHandler hostname cfg, sd_provs = provs, sd_bcfg = bc, sd_pool = p,
                      sd_streamChunk = cf_StreamChunkSize cfg,
                      sd_janitor = (if cf_MultipartSweepInterval cfg > 0
                        then Some (cf_MultipartSweepInterval cfg, cf_MultipartTTL cfg) else None),
                      sd_keepalive = (if cf_KeepaliveInterval cfg > 0 then Some (cf_KeepaliveInterval cfg) else None)\<rparr>)))"

section \<open>Sizes are exact\<close>

lemma round_even_int [simp]: "round_even (of_int i) = i"
  by (simp add: round_even_def)

lemma of_nat_less_two_power: "n < 2 ^ k \<Longrightarrow> (of_nat n :: rat) < 2 ^ k"
  by (metis of_nat_less_iff of_nat_numeral of_nat_power)

lemma f64_nat: "n < 2 ^ 53 \<Longrightarrow> f64 (of_nat n) = Some (of_nat n)"
proof -
  assume n: "n < 2 ^ 53"
  then have small: "(of_nat n :: rat) < 2 ^ 53" by (rule of_nat_less_two_power)
  have "round_even (of_nat n * 2 ^ k) = int n * 2 ^ k" for k
    using round_even_int [of "int n * 2 ^ k"] by simp
  with small show ?thesis by (simp add: f64_def Let_def)
qed

lemma decimal_digits: "set (format_nat 10 n) \<subseteq> set ''0123456789''"
proof (induction n rule: less_induct)
  case (less n)
  have d: "digit_char d \<in> set ''0123456789''" if "d < 10" for d
  proof -
    have "list_all (\<lambda>d. digit_char d \<in> set ''0123456789'') [0..<10]" by code_simp
    with that show ?thesis unfolding list_all_iff by auto
  qed
  show ?case
  proof (cases "n < 10")
    case True
    with d show ?thesis by (subst format_nat.simps) simp
  next
    case False
    then have "set (format_nat 10 (n div 10)) \<subseteq> set ''0123456789''" by (intro less) simp
    with False d [of "n mod 10"] show ?thesis by (subst format_nat.simps) simp
  qed
qed

definition letters :: string where
  "letters = ''abcdefghijklmnopqrstuvwxyzABCDEFGHIJKLMNOPQRSTUVWXYZ''"

lemma size_chars:
  "list_all (\<lambda>ch. num_char ch \<and> ch \<noteq> CHR ''.'' \<and> ch \<notin> set space_chars) ''0123456789''"
  "list_all (\<lambda>ch. \<not> num_char ch \<and> ch \<notin> set space_chars \<and> lower_char ch \<notin> set space_chars) letters"
  by code_simp+

lemma digit_chars:
  assumes "ch \<in> set (format_nat 10 n)"
  shows "num_char ch" and "ch \<noteq> CHR ''.''" and "ch \<notin> set space_chars"
  using size_chars(1) decimal_digits [of n] assms unfolding list_all_iff by blast+

lemma letter_chars:
  assumes "ch \<in> set letters"
  shows "\<not> num_char ch" and "ch \<notin> set space_chars" and "lower_char ch \<notin> set space_chars"
  using size_chars(2) assms unfolding list_all_iff by blast+

lemma size_text:
  assumes "set u \<subseteq> set letters"
  shows "TrimSpace (format_nat 10 n @ u) = format_nat 10 n @ u" and "TrimSpace (ToLower u) = ToLower u"
    and "takeWhile num_char (format_nat 10 n @ u) = format_nat 10 n" and "dropWhile num_char (format_nat 10 n @ u) = u"
proof -
  show "TrimSpace (format_nat 10 n @ u) = format_nat 10 n @ u"
    unfolding TrimSpace_def using assms digit_chars(3) letter_chars(2) by (intro Trim_clean) auto
  show "TrimSpace (ToLower u) = ToLower u"
    unfolding TrimSpace_def using assms letter_chars(3) by (intro Trim_clean) (auto simp: ToLower_def)
  have u: "u = [] \<or> \<not> num_char (hd u)" using assms letter_chars(1) by (cases u) auto
  have d: "\<forall>ch \<in> set (format_nat 10 n). num_char ch" using digit_chars(1) by blast
  show "takeWhile num_char (format_nat 10 n @ u) = format_nat 10 n" "dropWhile num_char (format_nat 10 n @ u) = u"
    using u d by (cases u; simp add: takeWhile_append2 dropWhile_append2)+
qed

lemma ParseFloat_nat:
  assumes "n < 2 ^ 53"
  shows "ParseFloat (format_nat 10 n) = Some (of_nat n)"
proof -
  have whole: "takeWhile (\<lambda>ch. ch \<noteq> CHR ''.'') (format_nat 10 n) = format_nat 10 n"
    "dropWhile (\<lambda>ch. ch \<noteq> CHR ''.'') (format_nat 10 n) = []"
    using digit_chars(2) by (auto simp: takeWhile_eq_all_conv dropWhile_eq_Nil_conv)
  show ?thesis
    unfolding ParseFloat_def Let_def whole
    using format_nat_digits(1,2) [of 10 n] f64_nat [OF assms] by (simp add: decimal_value_def)
qed

lemma getInt_pos: "0 < fallback \<Longrightarrow> 0 < getInt env key fallback"
  by (auto simp: getInt_def split: prod.splits)

lemma getBytes_pos: "0 < fallback \<Longrightarrow> 0 < getBytes env wild key fallback"
  by (auto simp: getBytes_def Let_def split: option.splits)

section \<open>Properties\<close>



text \<open>
  C34 (bounds). Whatever the environment holds, a gateway that main starts has both S3 keys, a positive
  chunk size, replication factor, upload concurrency and stream chunk, confirms between one and all
  replicas (two unless told otherwise, when there are two) before a PUT returns, and its providers have
  distinct names and a durable one among them.
\<close>

theorem startup_bounds:
  assumes "main_start env parseDur wild openStore hostname c = Inr s"
  shows "ac_access (sd_auth s) \<noteq> [] \<and> ac_secret (sd_auth s) \<noteq> [] \<and>
    0 < bc_chunkSize (sd_bcfg s) \<and> 0 < bc_replicas (sd_bcfg s) \<and> 0 < bc_conc (sd_bcfg s) \<and> 0 < sd_streamChunk s \<and>
    1 \<le> bc_sync (sd_bcfg s) \<and> bc_sync (sd_bcfg s) \<le> int (bc_replicas (sd_bcfg s)) \<and>
    (env ''SYNC_REPLICAS'' = [] \<longrightarrow> bc_sync (sd_bcfg s) = min 2 (int (bc_replicas (sd_bcfg s)))) \<and>
    distinct (map pr_name (sd_provs s)) \<and> (\<exists>p \<in> set (sd_provs s). pr_durable p)"
proof -
  obtain cfg where cfg: "Load env parseDur wild = Inr cfg"
    using assms by (auto simp: main_start_def split: sum.splits)
  have fields: "cf_AccessKeyID cfg \<noteq> []" "cf_SecretAccessKey cfg \<noteq> []" "0 < cf_ChunkSize cfg" "0 < cf_StreamChunkSize cfg"
    "1 \<le> cf_ReplicationFactor cfg" "0 < cf_UploadConcurrency cfg" "cf_SyncReplicas cfg = getInt env ''SYNC_REPLICAS'' 0"
    using cfg getInt_pos [of 6 env] getBytes_pos [of _ env wild]
    by (auto simp: Load_def Let_def split: if_splits)
  have sync: "env ''SYNC_REPLICAS'' = [] \<longrightarrow> cf_SyncReplicas cfg = 0" using fields(7) by (simp add: getInt_def)
  define ps where "ps = BuildProviders c (cf_FreehostProviders cfg) (cfg_credentials cfg)"
  define opts where "opts = \<lparr>op_providers = map prov_entry ps, op_chunkSize = cf_ChunkSize cfg,
      op_replication = cf_ReplicationFactor cfg, op_sync = sync_replicas cfg, op_conc = cf_UploadConcurrency cfg\<rparr>"
  obtain bc p where nb: "NewBackend opts = Inr (bc, p)" and s: "sd_auth s = NewHandler hostname cfg" "sd_provs s = ps"
      "sd_bcfg s = bc" "sd_streamChunk s = cf_StreamChunkSize cfg"
    using assms cfg by (auto simp: main_start_def ps_def opts_def Let_def split: option.splits sum.splits)
  have "distinct (map pr_name ps)"
    unfolding ps_def BuildProviders_def build_loop_names using firsts_distinct by (metis distinct_filter)
  moreover have "\<exists>p \<in> set ps. pr_durable p"
    using new_backend_bounds [of opts] nb by (auto simp: opts_def list_ex_iff prov_entry_def)
  moreover have "0 < bc_chunkSize bc \<and> 0 < bc_replicas bc \<and> 0 < bc_conc bc \<and> 1 \<le> bc_sync bc \<and> bc_sync bc \<le> int (bc_replicas bc)"
    using new_backend_bounds [of opts] nb by simp
  moreover have "bc_sync bc = min 2 (int (bc_replicas bc))" if "env ''SYNC_REPLICAS'' = []"
    using nb sync that fields(5) by (auto simp: NewBackend_def opts_def sync_replicas_def Let_def split: if_splits)
  ultimately show ?thesis using s fields(1,2,4) by (simp add: NewHandler_def)
qed

definition two_keys :: "string \<Rightarrow> string" where
  "two_keys k = (if k = ''S3_ACCESS_KEY_ID'' then ''a'' else if k = ''S3_SECRET_ACCESS_KEY'' then ''s'' else [])"

theorem startup_bounds_witness:
  "\<exists>s. main_start two_keys (\<lambda>_. None) 0 (\<lambda>_ _. None) (\<lambda>_. None) plain_web = Inr s \<and> bc_sync (sd_bcfg s) = min 2 (int (bc_replicas (sd_bcfg s)))"
proof -
  obtain cfg where cfg: "Load two_keys (\<lambda>_. None) 0 = Inr cfg" and f: "cf_FreehostProviders cfg = []"
    by (simp add: Load_def Let_def two_keys_def getInt_def parseCSVList_def TrimSpace_def Trim_def TrimLeft_def TrimRight_def)
  have "map_of registry ''x0.at'' = Some (\<lambda>(c :: (string \<times> bytes) list client) cr. Some (zerox_prov c NewX0))" by (simp add: registry_def)
  then have bl: "build_loop plain_web cr (''x0.at'' # names) {} = zerox_prov plain_web NewX0 # build_loop plain_web cr names {''x0.at''}" for cr names
    by (simp only: build_loop.simps) simp
  have order: "defaultProviderOrder = ''x0.at'' # tl defaultProviderOrder" by (simp add: defaultProviderOrder_def)
  define ps where "ps = build_loop plain_web (cfg_credentials cfg) (tl defaultProviderOrder) {''x0.at''}"
  have ps: "BuildProviders plain_web [] (cfg_credentials cfg) = zerox_prov plain_web NewX0 # ps"
    unfolding BuildProviders_def ps_def bl [symmetric] by (simp only: order [symmetric] if_True refl)
  have "pv_durable (prov_entry (zerox_prov plain_web NewX0))" by (simp add: zerox_prov_def NewX0_def prov_entry_def)
  then have "\<exists>bc p. NewBackend \<lparr>op_providers = map prov_entry (zerox_prov plain_web NewX0 # ps), op_chunkSize = cf_ChunkSize cfg,
      op_replication = cf_ReplicationFactor cfg, op_sync = sync_replicas cfg, op_conc = cf_UploadConcurrency cfg\<rparr> = Inr (bc, p)"
    by (simp add: NewBackend_def Let_def hasDurable_def newPool_def)
  then obtain s where s: "main_start two_keys (\<lambda>_. None) 0 (\<lambda>_ _. None) (\<lambda>_. None) plain_web = Inr s"
    by (auto simp: main_start_def cfg f ps Let_def)
  have "two_keys ''SYNC_REPLICAS'' = []" by (simp add: two_keys_def)
  with startup_bounds [OF s] s show ?thesis by blast
qed

end
