(* ===== verification/Cache.thy ===== *)
theory Cache
  imports Prelude
begin

text \<open>
  \<^verbatim>\<open>internal/cache/cache.go\<close>: a TTL cache over a concurrent map with lazy eviction and a sweeper. An entry is
  reached through a pointer, which \<^verbatim>\<open>CompareAndDelete\<close> compares; here a pointer is a number that is never
  used twice. The operations are first given as the code runs them alone, then as the atomic steps of a
  system in which gets, sets, deletes and sweeps interleave.
\<close>

section \<open>Operations\<close>

record 'v entry =
  en_value :: 'v
  en_expires :: time

record ('k, 'v) cache =
  ca_items :: "'k \<rightharpoonup> nat \<times> 'v entry"
  ca_next :: nat
  ca_ttl :: time
  ca_sweep :: time
  ca_stopped :: bool

definition NewCache :: "time \<Rightarrow> time \<Rightarrow> ('k, 'v) cache" where
  "NewCache defaultTTL sweepInterval =
     \<lparr>ca_items = Map.empty, ca_next = 0, ca_ttl = defaultTTL,
      ca_sweep = (if sweepInterval \<le> 0
        then (let q = (if defaultTTL < 0 then - ((- defaultTTL) div 4) else defaultTTL div 4)
              in if q < 60 * 1000000000 then 60 * 1000000000 else q)
        else sweepInterval),
      ca_stopped = False\<rparr>"

definition CompareAndDelete :: "'k \<Rightarrow> nat \<Rightarrow> ('k, 'v) cache \<Rightarrow> ('k, 'v) cache" where
  "CompareAndDelete k p c =
     (case ca_items c k of
        Some (p', _) \<Rightarrow> if p' = p then c\<lparr>ca_items := (ca_items c)(k := None)\<rparr> else c
      | None \<Rightarrow> c)"

definition CacheGet :: "time \<Rightarrow> 'k \<Rightarrow> ('k, 'v) cache \<Rightarrow> 'v option \<times> ('k, 'v) cache" where
  "CacheGet now k c =
     (case ca_items c k of
        None \<Rightarrow> (None, c)
      | Some (p, e) \<Rightarrow> if now > en_expires e then (None, CompareAndDelete k p c) else (Some (en_value e), c))"

definition CacheSet :: "time \<Rightarrow> 'k \<Rightarrow> 'v \<Rightarrow> time \<Rightarrow> ('k, 'v) cache \<Rightarrow> ('k, 'v) cache" where
  "CacheSet now k v ttl0 c =
     (let ttl = (if ttl0 \<le> 0 then ca_ttl c else ttl0)
      in c\<lparr>ca_items := (ca_items c)(k \<mapsto> (ca_next c, \<lparr>en_value = v, en_expires = now + ttl\<rparr>)), ca_next := ca_next c + 1\<rparr>)"

definition CacheDelete :: "'k \<Rightarrow> ('k, 'v) cache \<Rightarrow> ('k, 'v) cache" where
  "CacheDelete k c = c\<lparr>ca_items := (ca_items c)(k := None)\<rparr>"

definition CacheLen :: "('k, 'v) cache \<Rightarrow> nat" where
  "CacheLen c = card (dom (ca_items c))"

definition CacheClose :: "('k, 'v) cache \<Rightarrow> ('k, 'v) cache" where
  "CacheClose c = c\<lparr>ca_stopped := True\<rparr>"

text \<open>One tick of the sweeper over the keys it ranges over, in some order.\<close>

fun sweep_keys :: "time \<Rightarrow> 'k list \<Rightarrow> ('k, 'v) cache \<Rightarrow> ('k, 'v) cache" where
  "sweep_keys now [] c = c"
| "sweep_keys now (k # ks) c =
     (case ca_items c k of
        None \<Rightarrow> sweep_keys now ks c
      | Some (p, e) \<Rightarrow> sweep_keys now ks (if now > en_expires e then CompareAndDelete k p c else c))"

section \<open>Interleaving\<close>

text \<open>
  A get or a sweep that has loaded an expired entry holds its pointer until it evicts it; anything may
  happen in between, the clock included.
\<close>

record ('k, 'v) csys =
  cs_cache :: "('k, 'v) cache"
  cs_clock :: time
  cs_evicting :: "('k \<times> nat) list"

inductive ca_step :: "'k set \<Rightarrow> ('k, 'v) csys \<Rightarrow> ('k, 'v) csys \<Rightarrow> bool" for written where
  load_expired:
    "ca_items (cs_cache s) k = Some (p, e) \<Longrightarrow> cs_clock s > en_expires e \<Longrightarrow>
     ca_step written s (s\<lparr>cs_evicting := cs_evicting s @ [(k, p)]\<rparr>)"
| evict:
    "cs_evicting s = xs @ (k, p) # ys \<Longrightarrow>
     ca_step written s (s\<lparr>cs_evicting := xs @ ys, cs_cache := CompareAndDelete k p (cs_cache s)\<rparr>)"
| set_key: "k \<in> written \<Longrightarrow> ca_step written s (s\<lparr>cs_cache := CacheSet (cs_clock s) k v ttl (cs_cache s)\<rparr>)"
| delete_key: "k \<in> written \<Longrightarrow> ca_step written s (s\<lparr>cs_cache := CacheDelete k (cs_cache s)\<rparr>)"
| clock: "cs_clock s \<le> t \<Longrightarrow> ca_step written s (s\<lparr>cs_clock := t\<rparr>)"
| closed: "ca_step written s (s\<lparr>cs_cache := CacheClose (cs_cache s)\<rparr>)"

text \<open>
  Pointers in use are below the next one, and a pointer held for eviction is that of an expired entry if
  it is still that of an entry.
\<close>

definition ca_inv :: "('k, 'v) csys \<Rightarrow> bool" where
  "ca_inv s \<longleftrightarrow>
     (\<forall>k p e. ca_items (cs_cache s) k = Some (p, e) \<longrightarrow> p < ca_next (cs_cache s)) \<and>
     (\<forall>k p. (k, p) \<in> set (cs_evicting s) \<longrightarrow> p < ca_next (cs_cache s) \<and>
        (\<forall>e. ca_items (cs_cache s) k = Some (p, e) \<longrightarrow> cs_clock s > en_expires e))"

lemmas cache_defs = CompareAndDelete_def CacheSet_def CacheDelete_def CacheClose_def Let_def

lemma ca_inv_shrink:
  assumes "ca_inv s" and "ca_items (cs_cache s') \<subseteq>\<^sub>m ca_items (cs_cache s)" and "ca_next (cs_cache s') = ca_next (cs_cache s)"
    and "set (cs_evicting s') \<subseteq> set (cs_evicting s)" and "cs_clock s \<le> cs_clock s'"
  shows "ca_inv s'"
proof -
  have sub: "ca_items (cs_cache s) k = Some x" if "ca_items (cs_cache s') k = Some x" for k x
    using assms(2) that by (metis domI map_le_def)
  show ?thesis
    unfolding ca_inv_def
    using assms(1,3-) sub unfolding ca_inv_def by (metis order_less_le_trans subsetD)
qed

lemma ca_step_inv: "ca_step written s s' \<Longrightarrow> ca_inv s \<Longrightarrow> ca_inv s'"
proof (induction rule: ca_step.induct)
  case (load_expired s k p e)
  then show ?case by (auto simp: ca_inv_def)
next
  case (set_key k s v ttl)
  then show ?case unfolding ca_inv_def by (auto simp: cache_defs less_Suc_eq)
qed (erule ca_inv_shrink; auto simp: map_le_def cache_defs split: option.splits)+

lemma ca_step_keeps:
  assumes "ca_step written s s'" and "ca_inv s" and "k \<notin> written" and "ca_items (cs_cache s) k = Some (p, e)"
    and "cs_clock s' \<le> en_expires e"
  shows "ca_items (cs_cache s') k = Some (p, e) \<and> cs_clock s \<le> cs_clock s'"
  using assms
proof (induction rule: ca_step.induct)
  case (evict s xs j q ys)
  have "q \<noteq> p" if "j = k"
    using evict that by (force simp: ca_inv_def)
  with evict show ?case by (auto simp: cache_defs split: option.splits)
qed (auto simp: cache_defs)

lemma ca_reach_clock: "(ca_step written)\<^sup>*\<^sup>* s s' \<Longrightarrow> cs_clock s \<le> cs_clock s'"
proof (induction rule: rtranclp_induct)
  case (step t u)
  from step(2) have "cs_clock t \<le> cs_clock u" by (cases rule: ca_step.cases) auto
  with step.IH show ?case by simp
qed simp

lemma ca_reach_keeps:
  assumes "(ca_step written)\<^sup>*\<^sup>* s s'" and "ca_inv s" and "k \<notin> written" and "ca_items (cs_cache s) k = Some (p, e)"
    and "cs_clock s' \<le> en_expires e"
  shows "ca_inv s' \<and> ca_items (cs_cache s') k = Some (p, e)"
  using assms(1,5)
proof (induction rule: rtranclp_induct)
  case (step t u)
  have "cs_clock t \<le> cs_clock u" using step(2) by (cases rule: ca_step.cases) auto
  with step have "ca_inv t" "ca_items (cs_cache t) k = Some (p, e)" by auto
  with step assms(3) ca_step_inv ca_step_keeps show ?case by metis
qed (use assms in simp)

section \<open>Properties\<close>

text \<open>
  A cached value is served until it expires: after a set of a key, whatever gets, sweeps,
  evictions under way and writes to other keys interleave, a get of the key at or before the expiry
  returns the value that was set, and a get after it returns none.
\<close>

theorem cache_keeps_fresh:
  assumes "ca_inv s" and "s' = s\<lparr>cs_cache := CacheSet (cs_clock s) k v ttl (cs_cache s)\<rparr>" and "0 < ttl"
    and "(ca_step written)\<^sup>*\<^sup>* s' t" and "k \<notin> written"
  shows "(cs_clock t \<le> cs_clock s + ttl \<longrightarrow> fst (CacheGet (cs_clock t) k (cs_cache t)) = Some v) \<and>
    (cs_clock t \<le> cs_clock s + ttl \<longrightarrow> now > cs_clock s + ttl \<longrightarrow> fst (CacheGet now k (cs_cache t)) = None)"
proof -
  have "ca_inv s'" unfolding assms(2) by (rule ca_step_inv [OF set_key [of k "{k}"] assms(1)]) simp
  moreover have "ca_items (cs_cache s') k = Some (ca_next (cs_cache s), \<lparr>en_value = v, en_expires = cs_clock s + ttl\<rparr>)"
    using assms(2,3) by (simp add: CacheSet_def)
  ultimately have "ca_items (cs_cache t) k = Some (ca_next (cs_cache s), \<lparr>en_value = v, en_expires = cs_clock s + ttl\<rparr>)"
    if "cs_clock t \<le> cs_clock s + ttl"
    using ca_reach_keeps [OF assms(4) _ assms(5)] that by auto
  then show ?thesis by (simp add: CacheGet_def)
qed

text \<open>A get that found an expired entry evicts only after the key was set again.\<close>

theorem cache_keeps_fresh_witness:
  "fst (CacheGet 25 ''k'' (CompareAndDelete ''k'' 0 (CacheSet 20 ''k'' ''new'' 9 (CacheSet 0 ''k'' ''old'' 5 (NewCache 5 0))))) = Some ''new''"
proof -
  let ?c = "CacheSet 0 ''k'' ''old'' 5 (NewCache 5 0) :: (string, string) cache"
  let ?s = "\<lparr>cs_cache = ?c, cs_clock = 20, cs_evicting = [(''k'', 0)]\<rparr>"
  let ?s' = "?s\<lparr>cs_cache := CacheSet (cs_clock ?s) ''k'' ''new'' 9 (cs_cache ?s)\<rparr>"
  let ?t = "?s'\<lparr>cs_evicting := [] @ [], cs_cache := CompareAndDelete ''k'' 0 (cs_cache ?s')\<rparr>"
  have inv: "ca_inv ?s" by (simp add: ca_inv_def CacheSet_def NewCache_def)
  have "ca_step {} ?s' ?t" by (rule evict) simp
  moreover have "ca_step {} ?t (?t\<lparr>cs_clock := 25\<rparr>)" by (rule clock) simp
  ultimately have "(ca_step {})\<^sup>*\<^sup>* ?s' (?t\<lparr>cs_clock := 25\<rparr>)" by (meson converse_rtranclp_into_rtranclp rtranclp.rtrancl_refl)
  from cache_keeps_fresh [OF inv refl _ this] show ?thesis by simp
qed

end
