(* ===== verification/KeepaliveProps.thy ===== *)
theory KeepaliveProps
  imports Keepalive
begin

text \<open>The rotating window of the keep-alive sweep reaches every object.\<close>

text \<open>The keys of so many consecutive ticks, while the key list stays as it is.\<close>

fun sweep_ticks :: "nat \<Rightarrow> 'k list \<Rightarrow> sweeper \<Rightarrow> 'k list" where
  "sweep_ticks 0 keys s = []"
| "sweep_ticks (Suc m) keys s = (case sweep_window keys s of (win, s') \<Rightarrow> win @ sweep_ticks m keys s')"

lemma upt_shift: "map f [0..<a + b] = map f [0..<a] @ map (\<lambda>i. f (a + i)) [0..<b]"
proof -
  have "[0..<a + b] = [0..<a] @ map (\<lambda>i. a + i) [0..<b]" by (simp add: map_add_upt add.commute flip: upt_add_eq_append)
  then show ?thesis by (simp add: comp_def)
qed

lemma sweep_ticks_rotate:
  assumes "0 < sw_sample s" and "sw_sample s < int (length keys)"
  shows "sweep_ticks m keys s =
    map (\<lambda>i. keys ! nat ((sw_cursor s + int i) mod int (length keys))) [0..<m * nat (sw_sample s)]"
  using assms
proof (induction m arbitrary: s)
  case (Suc m)
  let ?n = "int (length keys)" and ?k = "nat (sw_sample s)"
  let ?s' = "s\<lparr>sw_cursor := (sw_cursor s + sw_sample s) mod ?n\<rparr>"
  have win: "sweep_window keys s = (map (\<lambda>i. keys ! nat ((sw_cursor s + int i) mod ?n)) [0..<?k], ?s')"
    using Suc.prems by (simp add: sweep_window_def Let_def mod_add_left_eq)
  have "sweep_ticks m keys ?s' = map (\<lambda>i. keys ! nat ((sw_cursor ?s' + int i) mod ?n)) [0..<m * ?k]"
    using Suc.IH [of ?s'] Suc.prems by simp
  also have "\<dots> = map (\<lambda>i. keys ! nat ((sw_cursor s + int (?k + i)) mod ?n)) [0..<m * ?k]"
    using Suc.prems(1) by (intro map_cong refl) (simp add: mod_add_left_eq add.assoc)
  finally show ?case
    using upt_shift [of "\<lambda>i. keys ! nat ((sw_cursor s + int i) mod ?n)" ?k "m * ?k"] by (simp add: win)
qed simp

lemma sweep_all: "\<not> (0 < sw_sample s \<and> sw_sample s < int (length keys)) \<Longrightarrow> sweep_ticks (Suc m) keys s = keys @ sweep_ticks m keys s"
  by (auto simp: sweep_window_def)

section \<open>Properties\<close>

text \<open>
  C39 (liveness). No object is passed over: while the key list stays as it is, the windows of \<open>m\<close>
  consecutive ticks together hold every key as soon as they hold as many keys as there are, wherever the
  cursor stood before; a sweep without a sample holds every key in each tick.
\<close>

theorem sweep_covers:
  assumes "0 < m" and "0 < sw_sample s \<Longrightarrow> int (length keys) \<le> int m * sw_sample s"
  shows "set (sweep_ticks m keys s) = set keys"
proof (cases "0 < sw_sample s \<and> sw_sample s < int (length keys)")
  case True
  let ?n = "int (length keys)"
  have n: "0 < ?n" using True by linarith
  have ticks: "set (sweep_ticks m keys s) = (\<lambda>i. keys ! nat ((sw_cursor s + int i) mod ?n)) ` {0..<m * nat (sw_sample s)}"
    using sweep_ticks_rotate [of s keys m] True by simp
  have "x \<in> set (sweep_ticks m keys s)" if "x \<in> set keys" for x
  proof -
    obtain j where j: "j < length keys" "x = keys ! j" using \<open>x \<in> set keys\<close> by (auto simp: in_set_conv_nth)
    let ?i = "nat ((int j - sw_cursor s) mod ?n)"
    have "int ?i < ?n" using n by simp
    also have "?n \<le> int (m * nat (sw_sample s))" using assms(2) True by simp
    finally have "?i < m * nat (sw_sample s)" unfolding of_nat_less_iff .
    then have "?i \<in> {0..<m * nat (sw_sample s)}" by simp
    moreover have "(sw_cursor s + int ?i) mod ?n = int j" using n j(1) by (simp add: mod_add_right_eq)
    ultimately show ?thesis unfolding ticks using j(2) by (intro image_eqI [of _ _ ?i]) simp_all
  qed
  moreover have "set (sweep_ticks m keys s) \<subseteq> set keys"
    unfolding ticks using n by (auto intro!: nth_mem simp: nat_less_iff)
  ultimately show ?thesis by blast
next
  case False
  then have "set (sweep_ticks k keys s) \<subseteq> set keys" for k by (induction k) (auto simp: sweep_window_def)
  moreover obtain k where "m = Suc k" using assms(1) by (cases m) auto
  ultimately show ?thesis using sweep_all [OF False, of k] by auto
qed

theorem sweep_covers_witness: "set (sweep_ticks 3 [''a'', ''b'', ''c'', ''d'', ''e''] \<lparr>sw_sample = 2, sw_cursor = 4\<rparr>) = {''a'', ''b'', ''c'', ''d'', ''e''}"
  using sweep_covers [of 3 "\<lparr>sw_sample = 2, sw_cursor = 4\<rparr>" "[''a'', ''b'', ''c'', ''d'', ''e'']"] by simp

end
